(* ===== verification/Prelude.thy ===== *)
theory Prelude
  imports Main "HOL-Library.Word" "HOL-Library.Multiset"
begin

text \<open>
  Shared vocabulary of the development: Go's built-in values as the source uses them.

  \<^item> A Go \<open>string\<close> is a list of bytes, one HOL \<open>char\<close> per byte; \<open>len\<close> is \<open>length\<close>
    and \<open>utf8.RuneCountInString\<close> is \<open>rune_count\<close>.
  \<^item> A Go \<open>error\<close> result of a check is an option: \<open>None\<close> is \<open>nil\<close>.  A chain of
    \<open>if err != nil { return err }\<close> guards is \<open>first_err\<close> of the checks in source order.
  \<^item> A Go \<open>(T, error)\<close> result is \<open>error + T\<close>.
  \<^item> \<open>time.Time\<close> is the instant in nanoseconds since the zero time, so the zero time is 0;
    \<open>time.Duration\<close> is a nanosecond count, and \<open>Time.Sub\<close> saturates as Go's does.
  \<^item> \<open>uint64\<close> is \<open>64 word\<close>: revisions wrap as they do in Go.
  \<^item> \<open>float64\<close> is a rational, a NaN or an infinity; a computed quotient or difference is
    rounded to 53 significant bits.
\<close>

named_theorems go_defs \<open>definitions of small Go helpers that proofs unfold together\<close>

type_synonym go_time = int
type_synonym go_duration = int
type_synonym uint64 = "64 word"

subsection \<open>Error chains\<close>

primrec first_err :: "'e option list \<Rightarrow> 'e option" where
  "first_err [] = None"
| "first_err (c # cs) = (case c of Some e \<Rightarrow> Some e | None \<Rightarrow> first_err cs)"

definition fail_if :: "bool \<Rightarrow> 'e \<Rightarrow> 'e option" where
  "fail_if b e = (if b then Some e else None)"

lemma fail_if_None [simp]: "fail_if b e = None \<longleftrightarrow> \<not> b"
  by (simp add: fail_if_def)

lemma fail_if_Some [simp]: "fail_if b e = Some e' \<longleftrightarrow> b \<and> e' = e"
  by (auto simp: fail_if_def)

lemma fail_if_eval [simp]:
  "fail_if False e = None"
  "fail_if True e = Some e"
  by simp_all

lemma first_err_None_iff: "first_err cs = None \<longleftrightarrow> (\<forall>c \<in> set cs. c = None)"
  by (induction cs) (auto split: option.splits)

lemma first_err_None_simps [simp]:
  "first_err (None # cs) = first_err cs"
  "first_err (Some e # cs) = Some e"
  by simp_all

lemma first_err_Cons_None [simp]:
  "first_err (c # cs) = None \<longleftrightarrow> c = None \<and> first_err cs = None"
  by (cases c) simp_all

lemma first_err_Some_in: "first_err cs = Some e \<Longrightarrow> Some e \<in> set cs"
  by (induction cs) (auto split: option.splits)

declare first_err.simps(2) [simp del]

lemma first_err_append: "first_err (xs @ ys) = (case first_err xs of Some e \<Rightarrow> Some e | None \<Rightarrow> first_err ys)"
  by (induction xs) (auto simp: first_err.simps split: option.splits)

lemma first_err_map_None:
  "first_err (map f xs) = None \<longleftrightarrow> (\<forall>x \<in> set xs. f x = None)"
  by (auto simp: first_err_None_iff)

text \<open>The checks of a loop \<open>for i, x := range xs\<close>, with the index the message quotes.\<close>

fun check_each :: "(nat \<Rightarrow> 'a \<Rightarrow> 'e option) \<Rightarrow> nat \<Rightarrow> 'a list \<Rightarrow> 'e option" where
  "check_each f i [] = None"
| "check_each f i (x # xs) = (case f i x of Some e \<Rightarrow> Some e | None \<Rightarrow> check_each f (Suc i) xs)"

lemma check_each_None_iff:
  "check_each f i xs = None \<longleftrightarrow> (\<forall>k < length xs. f (i + k) (xs ! k) = None)"
proof (induction xs arbitrary: i)
  case Nil
  then show ?case by simp
next
  case (Cons x xs)
  have "(\<forall>k < Suc (length xs). f (i + k) ((x # xs) ! k) = None) \<longleftrightarrow>
        f i x = None \<and> (\<forall>k < length xs. f (Suc i + k) (xs ! k) = None)"
    by (auto simp: less_Suc_eq_0_disj)
  then show ?case
    using Cons.IH [of "Suc i"] by (auto split: option.splits)
qed

lemma check_each_None_all:
  "check_each (\<lambda>i x. f x) i xs = None \<longleftrightarrow> (\<forall>x \<in> set xs. f x = None)"
  by (induction xs arbitrary: i) (auto split: option.splits)

text \<open>
  A loop that keeps a \<open>seen\<close> set: each element is checked, then refused when its key was seen
  before, then its key is recorded.
\<close>

fun check_unique :: "('a \<Rightarrow> 'e option) \<Rightarrow> ('a \<Rightarrow> 'k) \<Rightarrow> ('a \<Rightarrow> 'e) \<Rightarrow> 'k list \<Rightarrow> 'a list \<Rightarrow> 'e option" where
  "check_unique chk key dup seen [] = None"
| "check_unique chk key dup seen (x # xs) =
     (case chk x of
        Some e \<Rightarrow> Some e
      | None \<Rightarrow> if key x \<in> set seen then Some (dup x)
                else check_unique chk key dup (key x # seen) xs)"

lemma check_unique_None_iff:
  "check_unique chk key dup seen xs = None \<longleftrightarrow>
     (\<forall>x \<in> set xs. chk x = None) \<and> distinct (map key xs) \<and> key ` set xs \<inter> set seen = {}"
  by (induction xs arbitrary: seen) (auto split: option.splits)

subsection \<open>Results\<close>

fun rbind :: "'e + 'a \<Rightarrow> ('a \<Rightarrow> 'e + 'b) \<Rightarrow> 'e + 'b" where
  "rbind (Inl e) f = Inl e"
| "rbind (Inr x) f = f x"

lemma rbind_Inr [simp]: "rbind m f = Inr y \<longleftrightarrow> (\<exists>x. m = Inr x \<and> f x = Inr y)"
  by (cases m) auto

definition guard_err :: "'e option \<Rightarrow> 'e + 'a \<Rightarrow> 'e + 'a" where
  "guard_err c r = (case c of Some e \<Rightarrow> Inl e | None \<Rightarrow> r)"

lemma guard_err_simps [simp]:
  "guard_err None r = r"
  "guard_err (Some e) r = Inl e"
  "guard_err c r = Inr y \<longleftrightarrow> c = None \<and> r = Inr y"
  by (auto simp: guard_err_def split: option.splits)

subsection \<open>First match in a slice\<close>

fun find_index :: "('a \<Rightarrow> bool) \<Rightarrow> 'a list \<Rightarrow> nat option" where
  "find_index p [] = None"
| "find_index p (x # xs) = (if p x then Some 0 else map_option Suc (find_index p xs))"

lemma find_index_Some:
  "find_index p xs = Some i \<Longrightarrow> i < length xs \<and> p (xs ! i) \<and> (\<forall>j < i. \<not> p (xs ! j))"
proof (induction xs arbitrary: i)
  case Nil
  then show ?case by simp
next
  case (Cons x xs)
  show ?case
  proof (cases "p x")
    case True
    with Cons.prems show ?thesis by simp
  next
    case False
    with Cons.prems obtain j where "find_index p xs = Some j" and "i = Suc j" by auto
    with Cons.IH [of j] False show ?thesis by (auto simp: less_Suc_eq_0_disj)
  qed
qed

lemma find_index_None: "find_index p xs = None \<longleftrightarrow> (\<forall>x \<in> set xs. \<not> p x)"
  by (induction xs) auto

lemma find_Some_set: "find p xs = Some x \<Longrightarrow> x \<in> set xs \<and> p x"
  by (induction xs) (auto split: if_splits)

lemma find_None_all: "find p xs = None \<longleftrightarrow> (\<forall>x \<in> set xs. \<not> p x)"
  by (induction xs) auto

lemma find_index_find: "find p xs = map_option ((!) xs) (find_index p xs)"
proof (induction xs)
  case Nil
  then show ?case by simp
next
  case (Cons x xs)
  then show ?case by (cases "find_index p xs") auto
qed

subsection \<open>Instants and durations\<close>

definition time_is_zero :: "go_time \<Rightarrow> bool" where
  "time_is_zero t \<longleftrightarrow> t = 0"

definition max_duration :: go_duration where
  "max_duration = 2 ^ 63 - 1"

definition min_duration :: go_duration where
  "min_duration = - (2 ^ 63)"

definition time_sub :: "go_time \<Rightarrow> go_time \<Rightarrow> go_duration" where
  "time_sub a b = max min_duration (min max_duration (a - b))"

lemma time_sub_le_iff:
  "d < max_duration \<Longrightarrow> min_duration \<le> d \<Longrightarrow> time_sub a b \<le> d \<longleftrightarrow> a - b \<le> d"
  by (auto simp: time_sub_def max_duration_def min_duration_def)

subsection \<open>Machine words\<close>

lemma of_nat_uint64_eq_iff:
  "a < 2 ^ 64 \<Longrightarrow> b < 2 ^ 64 \<Longrightarrow> (of_nat a :: uint64) = of_nat b \<longleftrightarrow> a = b"
  by (simp add: word_of_nat_eq_iff take_bit_nat_eq_self)

lemma uint64_successor: "\<not> x \<le> h \<Longrightarrow> \<not> h + 1 < x \<Longrightarrow> x = (h :: uint64) + 1"
  using inc_le [of h x] by (simp add: not_le)

text \<open>The revisions 1, 2, 3, ... of an append-only history.\<close>

definition revisions :: "nat \<Rightarrow> uint64 list" where
  "revisions n = map (\<lambda>i. of_nat (i + 1)) [0..<n]"

lemma revisions_simps [simp]:
  "revisions 0 = []"
  "revisions (Suc n) = revisions n @ [of_nat (Suc n)]"
  "length (revisions n) = n"
  by (simp_all add: revisions_def)

subsection \<open>Append-only lists\<close>

definition extends :: "'a list \<Rightarrow> 'a list \<Rightarrow> bool" where
  "extends xs ys \<longleftrightarrow> take (length xs) ys = xs"

lemma extends_iff: "extends xs ys \<longleftrightarrow> (\<exists>zs. ys = xs @ zs)"
  by (metis append_eq_conv_conj append_take_drop_id extends_def)

lemma extends_refl [simp]: "extends xs xs"
  by (simp add: extends_def)

lemma extends_append [simp]: "extends xs (xs @ zs)"
  by (simp add: extends_def)

lemma extends_trans: "extends xs ys \<Longrightarrow> extends ys zs \<Longrightarrow> extends xs zs"
  by (auto simp: extends_iff)

lemma extends_length: "extends xs ys \<Longrightarrow> length xs \<le> length ys"
  by (auto simp: extends_iff)

lemma extends_nth: "extends xs ys \<Longrightarrow> i < length xs \<Longrightarrow> ys ! i = xs ! i"
  by (auto simp: extends_iff nth_append)

subsection \<open>Deduplication and sorting\<close>

text \<open>A loop that skips every element whose key a \<open>seen\<close> map holds already.\<close>

fun keep_first :: "('a \<Rightarrow> 'k) \<Rightarrow> 'a list \<Rightarrow> 'a list \<Rightarrow> 'a list" where
  "keep_first key acc [] = acc"
| "keep_first key acc (x # xs) = keep_first key (if key x \<in> key ` set acc then acc else acc @ [x]) xs"

lemma keep_first_append: "keep_first key acc (xs @ ys) = keep_first key (keep_first key acc xs) ys"
  by (induction xs arbitrary: acc) simp_all

lemma keep_first_distinct: "distinct (map key acc) \<Longrightarrow> distinct (map key (keep_first key acc xs))"
  by (induction xs arbitrary: acc) auto

lemma keep_first_subset: "set (keep_first key acc xs) \<subseteq> set acc \<union> set xs"
proof (induction xs arbitrary: acc)
  case (Cons x xs)
  show ?case using Cons.IH [of "if key x \<in> key ` set acc then acc else acc @ [x]"] by (auto split: if_splits)
qed simp

lemma keep_first_set: "inj_on key (set acc \<union> set xs) \<Longrightarrow> set (keep_first key acc xs) = set acc \<union> set xs"
proof (induction xs arbitrary: acc)
  case (Cons x xs)
  have "key x \<in> key ` set acc \<longleftrightarrow> x \<in> set acc"
    using Cons.prems by (auto dest: inj_onD [of _ _ x])
  with Cons show ?case by (auto simp: insert_absorb)
qed simp

text \<open>
  \<open>sort.Slice\<close>: an insertion sort, hence stable, on up to 12 elements; beyond, the order of equal
  keys is whatever the argument \<open>ties\<close> makes of it.
\<close>

definition sort_slice :: "('a list \<Rightarrow> 'a list) \<Rightarrow> ('a \<Rightarrow> 'k::linorder) \<Rightarrow> 'a list \<Rightarrow> 'a list" where
  "sort_slice ties key xs = sort_key key (if length xs \<le> 12 then xs else ties xs)"

definition reorders :: "('a list \<Rightarrow> 'a list) \<Rightarrow> bool" where
  "reorders f \<longleftrightarrow> (\<forall>xs. mset (f xs) = mset xs)"

lemma sort_key_unique:
  assumes "mset xs = mset ys" and "inj_on key (set xs)"
  shows "sort_key key xs = sort_key key ys"
  using sort_key_inj_key_eq [of xs "sort_key key ys" key] assms by simp

lemma sort_slice_mset: "reorders ties \<Longrightarrow> mset (sort_slice ties key xs) = mset xs"
  by (simp add: sort_slice_def reorders_def)

lemma sort_slice_unique:
  assumes "reorders ties" and "mset xs = mset ys" and "inj_on key (set xs)"
  shows "sort_slice ties key xs = sort_slice ties key ys"
proof -
  have "length xs = length ys" using assms(2) by (rule mset_eq_length)
  moreover have "sort_key key (ties xs) = sort_key key (ties ys)"
  proof (rule sort_key_unique)
    have m: "mset (ties xs) = mset xs" "mset (ties ys) = mset ys" using assms(1) by (simp_all add: reorders_def)
    then show "mset (ties xs) = mset (ties ys)" using assms(2) by simp
    show "inj_on key (set (ties xs))" using mset_eq_setD [OF m(1)] assms(3) by simp
  qed
  moreover have "sort_key key xs = sort_key key ys" using assms(2,3) by (rule sort_key_unique)
  ultimately show ?thesis by (simp add: sort_slice_def)
qed

end
