(* ===== verification/ActionState.thy ===== *)
theory ActionState
  imports Prelude
begin

text \<open>
  The state machine of one plan step's action, \<^verbatim>\<open>internal/workcase/action_state.go\<close>: the states, the
  closed transition graph and the terminal states.
\<close>

datatype action_state =
    ActionPending | ActionDispatched | ActionRetrying | ActionReplanning | ActionCompensating
  | ActionCompensationDispatched | ActionCompensated | ActionHumanTakeover | ActionResultUnknown | ActionCompleted
  | ActionTerminated
  | ActionOther string

definition ActionStates :: "action_state list" where
  "ActionStates = [ActionPending, ActionDispatched, ActionRetrying, ActionReplanning, ActionCompensating,
     ActionCompensationDispatched, ActionCompensated, ActionHumanTakeover, ActionResultUnknown, ActionCompleted,
     ActionTerminated]"

fun action_state_valid :: "action_state \<Rightarrow> bool" where
  "action_state_valid (ActionOther _) = False"
| "action_state_valid _ = True"

fun action_state_text :: "action_state \<Rightarrow> string" where
  "action_state_text ActionPending = ''pending''"
| "action_state_text ActionDispatched = ''dispatched''"
| "action_state_text ActionRetrying = ''retrying''"
| "action_state_text ActionReplanning = ''replanning''"
| "action_state_text ActionCompensating = ''compensating''"
| "action_state_text ActionCompensationDispatched = ''compensation_dispatched''"
| "action_state_text ActionCompensated = ''compensated''"
| "action_state_text ActionHumanTakeover = ''human_takeover''"
| "action_state_text ActionResultUnknown = ''result_unknown''"
| "action_state_text ActionCompleted = ''completed''"
| "action_state_text ActionTerminated = ''terminated''"
| "action_state_text (ActionOther s) = s"

fun legalActionTransitions :: "action_state \<Rightarrow> action_state list" where
  "legalActionTransitions ActionPending = [ActionDispatched, ActionReplanning, ActionHumanTakeover]"
| "legalActionTransitions ActionDispatched =
     [ActionCompleted, ActionResultUnknown, ActionRetrying, ActionCompensating, ActionReplanning, ActionHumanTakeover]"
| "legalActionTransitions ActionRetrying = [ActionDispatched, ActionHumanTakeover]"
| "legalActionTransitions ActionResultUnknown =
     [ActionCompleted, ActionRetrying, ActionCompensating, ActionReplanning, ActionHumanTakeover]"
| "legalActionTransitions ActionReplanning = [ActionPending, ActionHumanTakeover, ActionTerminated]"
| "legalActionTransitions ActionCompensating = [ActionCompensationDispatched, ActionHumanTakeover]"
| "legalActionTransitions ActionCompensationDispatched = [ActionCompensated, ActionHumanTakeover]"
| "legalActionTransitions ActionCompensated = [ActionTerminated]"
| "legalActionTransitions _ = []"

definition CanTransitionTo :: "action_state \<Rightarrow> action_state \<Rightarrow> bool" where
  "CanTransitionTo s next \<longleftrightarrow> next \<in> set (legalActionTransitions s)"

definition Terminal :: "action_state \<Rightarrow> bool" where
  "Terminal s \<longleftrightarrow> s = ActionCompleted \<or> s = ActionTerminated \<or> s = ActionHumanTakeover"

datatype action_outcome = ActionOutcomeUnknown | ActionOutcomeUnverified | ActionOutcomeOther string

fun action_outcome_valid :: "action_outcome \<Rightarrow> bool" where
  "action_outcome_valid (ActionOutcomeOther _) = False"
| "action_outcome_valid _ = True"

lemma legal_edges:
  "CanTransitionTo s t \<Longrightarrow> action_state_valid s \<and> action_state_valid t \<and> s \<noteq> t"
  by (cases s) (auto simp: CanTransitionTo_def)

lemma terminal_no_edge: "Terminal s \<Longrightarrow> \<not> CanTransitionTo s t"
  by (auto simp: Terminal_def CanTransitionTo_def)

text \<open>The states a claimed reversal can still reach, and those the claim itself can come from.\<close>

lemma into_compensation: "CanTransitionTo s ActionCompensationDispatched \<longleftrightarrow> s = ActionCompensating"
  by (cases s) (simp_all add: CanTransitionTo_def)

lemma into_dispatched: "CanTransitionTo s ActionDispatched \<longleftrightarrow> s = ActionPending \<or> s = ActionRetrying"
  by (cases s) (simp_all add: CanTransitionTo_def)

lemma into_completed: "CanTransitionTo s ActionCompleted \<longleftrightarrow> s = ActionDispatched \<or> s = ActionResultUnknown"
  by (cases s) (simp_all add: CanTransitionTo_def)

lemma into_retrying: "CanTransitionTo s ActionRetrying \<longleftrightarrow> s = ActionDispatched \<or> s = ActionResultUnknown"
  by (cases s) (simp_all add: CanTransitionTo_def)

lemma into_pending: "CanTransitionTo s ActionPending \<longleftrightarrow> s = ActionReplanning"
  by (cases s) (simp_all add: CanTransitionTo_def)

text \<open>Past a claimed reversal the machine only winds down.\<close>

definition wound_down :: "action_state \<Rightarrow> bool" where
  "wound_down s \<longleftrightarrow> s \<in> {ActionCompensationDispatched, ActionCompensated, ActionTerminated, ActionHumanTakeover}"

lemma wound_down_step: "wound_down s \<Longrightarrow> CanTransitionTo s t \<Longrightarrow> wound_down t \<and> t \<noteq> ActionCompensationDispatched"
  by (auto simp: wound_down_def CanTransitionTo_def)

end
