(* ===== verification/GoText.thy ===== *)
theory GoText
  imports Prelude
begin

text \<open>
  Go strings as byte lists: \<open>utf8.RuneCountInString\<close> (\<open>rune_count\<close>, an invalid byte counts
  as one rune, as in Go), \<open>strings.TrimSpace(s) == ""\<close> (\<open>blank\<close>, over the white-space runes of
  \<open>unicode.IsSpace\<close>), \<open>strings.HasPrefix\<close>, decimal rendering of integers, and the NUL-separated
  keys the stores build.
\<close>

definition byte :: "char \<Rightarrow> nat" where
  "byte c = of_char c"

definition byte_in :: "nat \<Rightarrow> nat \<Rightarrow> char \<Rightarrow> bool" where
  "byte_in lo hi c \<longleftrightarrow> lo \<le> byte c \<and> byte c \<le> hi"

subsection \<open>Runes\<close>

text \<open>The width in bytes of the first rune of a non-empty string; 1 where the bytes are not valid UTF-8.\<close>

fun rune_width :: "string \<Rightarrow> nat" where
  "rune_width [] = 0"
| "rune_width [c] = 1"
| "rune_width (c # c1 # cs) =
     (if byte_in 0xC2 0xDF c then (if byte_in 0x80 0xBF c1 then 2 else 1)
      else if byte_in 0xE0 0xEF c then
        (let lo = (if byte c = 0xE0 then 0xA0 else 0x80);
             hi = (if byte c = 0xED then 0x9F else 0xBF)
         in case cs of
              c2 # _ \<Rightarrow> if byte_in lo hi c1 \<and> byte_in 0x80 0xBF c2 then 3 else 1
            | [] \<Rightarrow> 1)
      else if byte_in 0xF0 0xF4 c then
        (let lo = (if byte c = 0xF0 then 0x90 else 0x80);
             hi = (if byte c = 0xF4 then 0x8F else 0xBF)
         in case cs of
              c2 # c3 # _ \<Rightarrow> if byte_in lo hi c1 \<and> byte_in 0x80 0xBF c2 \<and> byte_in 0x80 0xBF c3 then 4 else 1
            | _ \<Rightarrow> 1)
      else 1)"

lemma rune_width_pos: "0 < rune_width (c # cs)"
  by (cases cs) (auto simp: Let_def split: list.splits)

function rune_count :: "string \<Rightarrow> nat" where
  "rune_count [] = 0"
| "rune_count (c # cs) = Suc (rune_count (drop (rune_width (c # cs)) (c # cs)))"
  by pat_completeness auto
termination
proof (relation "measure length", goal_cases)
  case 1
  then show ?case by simp
next
  case (2 c cs)
  then show ?case using rune_width_pos [of c cs] by (simp del: rune_width.simps)
qed

declare rune_count.simps(2) [simp del]

lemma rune_count_le_length: "rune_count s \<le> length s"
proof (induction s rule: rune_count.induct)
  case 1
  then show ?case by simp
next
  case (2 c cs)
  have "0 < rune_width (c # cs)" by (rule rune_width_pos)
  with 2 show ?case by (simp add: rune_count.simps(2) del: rune_width.simps)
qed

lemma rune_count_0_iff [simp]: "rune_count s = 0 \<longleftrightarrow> s = []"
  by (cases s) (simp_all add: rune_count.simps(2))

lemma rune_count_short: "length s \<le> n \<Longrightarrow> rune_count s \<le> n"
  using rune_count_le_length [of s] by simp

text \<open>The runes of a string, as the regular-expression matcher reads them; U+FFFD for an invalid byte.\<close>

definition rune_value :: "string \<Rightarrow> nat" where
  "rune_value s =
     (case s of
        [c] \<Rightarrow> if byte c < 0x80 then byte c else 0xFFFD
      | [c, c1] \<Rightarrow> (byte c - 0xC0) * 64 + (byte c1 - 0x80)
      | [c, c1, c2] \<Rightarrow> ((byte c - 0xE0) * 64 + (byte c1 - 0x80)) * 64 + (byte c2 - 0x80)
      | [c, c1, c2, c3] \<Rightarrow>
          (((byte c - 0xF0) * 64 + (byte c1 - 0x80)) * 64 + (byte c2 - 0x80)) * 64 + (byte c3 - 0x80)
      | _ \<Rightarrow> 0)"

function runes :: "string \<Rightarrow> nat list" where
  "runes [] = []"
| "runes (c # cs) =
     rune_value (take (rune_width (c # cs)) (c # cs)) # runes (drop (rune_width (c # cs)) (c # cs))"
  by pat_completeness auto
termination
proof (relation "measure length", goal_cases)
  case 1
  then show ?case by simp
next
  case (2 c cs)
  then show ?case using rune_width_pos [of c cs] by (simp del: rune_width.simps)
qed

declare runes.simps(2) [simp del]

lemma length_runes: "length (runes s) = rune_count s"
  by (induction s rule: runes.induct) (simp_all add: runes.simps(2) rune_count.simps(2))

lemma rune_width_ascii: "byte c < 128 \<Longrightarrow> rune_width (c # cs) = 1"
  by (cases cs) (auto simp: byte_in_def)

lemma runes_ascii_Cons [simp]: "byte c < 128 \<Longrightarrow> runes (c # cs) = byte c # runes cs"
  by (simp add: runes.simps(2) rune_width_ascii rune_value_def)

lemma rune_count_ascii_Cons [simp]: "byte c < 128 \<Longrightarrow> rune_count (c # cs) = Suc (rune_count cs)"
  by (simp add: rune_count.simps(2) rune_width_ascii)

lemma rune_count_ascii: "\<forall>c \<in> set s. byte c < 128 \<Longrightarrow> rune_count s = length s"
  by (induction s) simp_all

subsection \<open>White space\<close>

text \<open>The width of a leading white-space rune, 0 when the string does not start with one.\<close>

fun space_width :: "string \<Rightarrow> nat" where
  "space_width [] = 0"
| "space_width (c # cs) =
     (if byte_in 9 13 c \<or> byte c = 32 then 1
      else case cs of
        [] \<Rightarrow> 0
      | c1 # ds \<Rightarrow>
          (if byte c = 0xC2 \<and> (byte c1 = 0x85 \<or> byte c1 = 0xA0) then 2
           else case ds of
             [] \<Rightarrow> 0
           | c2 # _ \<Rightarrow>
               (if (byte c = 0xE1 \<and> byte c1 = 0x9A \<and> byte c2 = 0x80)
                 \<or> (byte c = 0xE2 \<and> byte c1 = 0x80 \<and>
                      (byte_in 0x80 0x8A c2 \<or> byte c2 = 0xA8 \<or> byte c2 = 0xA9 \<or> byte c2 = 0xAF))
                 \<or> (byte c = 0xE2 \<and> byte c1 = 0x81 \<and> byte c2 = 0x9F)
                 \<or> (byte c = 0xE3 \<and> byte c1 = 0x80 \<and> byte c2 = 0x80)
                then 3 else 0)))"

function blank :: "string \<Rightarrow> bool" where
  "blank [] = True"
| "blank (c # cs) =
     (if 0 < space_width (c # cs) then blank (drop (space_width (c # cs)) (c # cs)) else False)"
  by pat_completeness auto
termination
proof (relation "measure length", goal_cases)
  case 1
  then show ?case by simp
next
  case (2 c cs)
  then show ?case by (simp del: space_width.simps)
qed

declare blank.simps(2) [simp del]

lemma not_blank_nonempty: "\<not> blank s \<Longrightarrow> s \<noteq> []"
  by auto

lemma not_blank_ascii: "\<not> byte_in 9 13 c \<Longrightarrow> byte c \<noteq> 32 \<Longrightarrow> byte c < 128 \<Longrightarrow> \<not> blank (c # cs)"
  by (subst blank.simps) (auto split: list.splits)

subsection \<open>Prefixes, decimal digits and NUL-separated keys\<close>

fun has_prefix :: "string \<Rightarrow> string \<Rightarrow> bool" where
  "has_prefix s [] = True"
| "has_prefix [] (p # ps) = False"
| "has_prefix (c # s) (p # ps) = (c = p \<and> has_prefix s ps)"

lemma has_prefix_iff: "has_prefix s p \<longleftrightarrow> (\<exists>t. s = p @ t)"
  by (induction s p rule: has_prefix.induct) auto

definition digit_char :: "nat \<Rightarrow> char" where
  "digit_char d = char_of (48 + d)"

fun format_nat :: "nat \<Rightarrow> string" where
  "format_nat n = (if n < 10 then [digit_char n] else format_nat (n div 10) @ [digit_char (n mod 10)])"

declare format_nat.simps [simp del]

definition format_uint :: "uint64 \<Rightarrow> string" where
  "format_uint w = format_nat (unat w)"

definition format_int :: "int \<Rightarrow> string" where
  "format_int i = (if i < 0 then CHR ''-'' # format_nat (nat (- i)) else format_nat (nat i))"

lemma digit_char_range: "d < 10 \<Longrightarrow> byte (digit_char d) = 48 + d"
  by (simp add: digit_char_def byte_def take_bit_eq_mod)

lemma digit_char_inj: "a < 10 \<Longrightarrow> b < 10 \<Longrightarrow> digit_char a = digit_char b \<longleftrightarrow> a = b"
  by (metis add_left_cancel digit_char_range)

lemma format_nat_nonempty [simp]: "format_nat n \<noteq> []"
  by (subst format_nat.simps) simp

lemma format_nat_digits: "c \<in> set (format_nat n) \<Longrightarrow> 48 \<le> byte c \<and> byte c \<le> 57"
proof (induction n rule: format_nat.induct)
  case (1 n)
  show ?case
  proof (cases "n < 10")
    case True
    with 1 show ?thesis by (simp add: format_nat.simps [of n] digit_char_range)
  next
    case False
    with 1 show ?thesis
      by (auto simp: format_nat.simps [of n] digit_char_range [of "n mod 10"])
  qed
qed

lemma format_nat_inj: "format_nat m = format_nat n \<Longrightarrow> m = n"
proof (induction m arbitrary: n rule: format_nat.induct)
  case (1 m)
  show ?case
  proof (cases "m < 10"; cases "n < 10")
    assume "m < 10" "n < 10"
    with "1.prems" show ?thesis
      by (simp add: format_nat.simps [of m] format_nat.simps [of n] digit_char_inj)
  next
    assume "m < 10" "\<not> n < 10"
    with "1.prems" show ?thesis
      by (simp add: format_nat.simps [of m] format_nat.simps [of n] format_nat_nonempty [symmetric])
  next
    assume "\<not> m < 10" "n < 10"
    with "1.prems" show ?thesis
      by (simp add: format_nat.simps [of m] format_nat.simps [of n])
  next
    assume mn: "\<not> m < 10" "\<not> n < 10"
    with "1.prems" have "format_nat (m div 10) = format_nat (n div 10)"
      and "digit_char (m mod 10) = digit_char (n mod 10)"
      by (simp_all add: format_nat.simps [of m] format_nat.simps [of n])
    then have "m div 10 = n div 10" and "m mod 10 = n mod 10"
      using "1.IH" mn by (simp_all add: digit_char_inj)
    then show ?thesis by (metis div_mult_mod_eq)
  qed
qed

definition NUL :: char where
  "NUL = CHR 0x00"

definition nul_free :: "string \<Rightarrow> bool" where
  "nul_free s \<longleftrightarrow> NUL \<notin> set s"

lemma nul_free_simps [simp]:
  "nul_free []"
  "nul_free (c # s) \<longleftrightarrow> c \<noteq> NUL \<and> nul_free s"
  "nul_free (s @ t) \<longleftrightarrow> nul_free s \<and> nul_free t"
  by (auto simp: nul_free_def)

lemma nul_free_format_nat [simp]: "nul_free (format_nat n)"
proof -
  have "NUL \<notin> set (format_nat n)"
  proof
    assume "NUL \<in> set (format_nat n)"
    then have "48 \<le> byte NUL" using format_nat_digits by blast
    then show False by (simp add: NUL_def byte_def)
  qed
  then show ?thesis by (simp add: nul_free_def)
qed

text \<open>\<open>a + "\x00" + b\<close>: unambiguous when \<open>a\<close> holds no NUL byte.\<close>

definition nul_key :: "string \<Rightarrow> string \<Rightarrow> string" where
  "nul_key a b = a @ NUL # b"

lemma takeWhile_nul: "nul_free a \<Longrightarrow> takeWhile (\<lambda>c. c \<noteq> NUL) (a @ NUL # b) = a"
  by (induction a) simp_all

lemma nul_split: "nul_free a \<Longrightarrow> nul_free a' \<Longrightarrow> a @ NUL # b = a' @ NUL # b' \<longleftrightarrow> a = a' \<and> b = b'"
  by (metis same_append_eq list.inject takeWhile_nul)

lemma nul_key_inj: "nul_free a \<Longrightarrow> nul_free a' \<Longrightarrow> nul_key a b = nul_key a' b' \<longleftrightarrow> a = a' \<and> b = b'"
  by (simp add: nul_key_def nul_split)

text \<open>The framing \<open>"\x00" + p\<close> of each part, as the id derivations feed it to the hash.\<close>

definition nul_frame :: "string list \<Rightarrow> string" where
  "nul_frame ps = concat (map (\<lambda>p. NUL # p) ps)"

lemma nul_frame_simps [simp]:
  "nul_frame [] = []"
  "nul_frame (p # ps) = NUL # p @ nul_frame ps"
  by (simp_all add: nul_frame_def)

lemma takeWhile_frame: "nul_free p \<Longrightarrow> takeWhile (\<lambda>c. c \<noteq> NUL) (p @ nul_frame ps) = p"
  by (induction p; cases ps) simp_all

lemma nul_frame_first:
  assumes "nul_free p" and "nul_free q" and "p @ nul_frame ps = q @ nul_frame qs"
  shows "p = q \<and> nul_frame ps = nul_frame qs"
  using assms takeWhile_frame [of p ps] takeWhile_frame [of q qs] by auto

lemma nul_frame_inj:
  assumes "\<forall>p \<in> set ps. nul_free p" and "\<forall>q \<in> set qs. nul_free q" and "nul_frame ps = nul_frame qs"
  shows "ps = qs"
  using assms
proof (induction ps arbitrary: qs)
  case Nil
  then show ?case by (cases qs) simp_all
next
  case (Cons p ps)
  then obtain q qs' where qs: "qs = q # qs'" by (cases qs) simp_all
  have "p = q \<and> nul_frame ps = nul_frame qs'"
    by (rule nul_frame_first) (use Cons.prems qs in simp_all)
  with Cons.IH [of qs'] Cons.prems qs show ?case by simp
qed

subsection \<open>Text through JSON\<close>

text \<open>
  What \<open>json.Unmarshal\<close> reads back from a string \<open>json.Marshal\<close> wrote: each byte that is no valid UTF-8
  has become U+FFFD.
\<close>

definition bad_head :: "string \<Rightarrow> bool" where
  "bad_head s \<longleftrightarrow> rune_width s = 1 \<and> 128 \<le> byte (hd s)"

definition replacement :: string where
  "replacement = [CHR 0xEF, CHR 0xBF, CHR 0xBD]"

function clean :: "string \<Rightarrow> string" where
  "clean [] = []"
| "clean (c # cs) =
     (if bad_head (c # cs) then replacement else take (rune_width (c # cs)) (c # cs))
     @ clean (drop (rune_width (c # cs)) (c # cs))"
  by pat_completeness auto
termination
proof (relation "measure length", goal_cases)
  case 1
  then show ?case by simp
next
  case (2 c cs)
  then show ?case using rune_width_pos [of c cs] by (simp del: rune_width.simps)
qed

declare clean.simps(2) [simp del]

lemma rune_width_le_length: "rune_width s \<le> length s"
  by (cases s rule: rune_width.cases) (auto simp: Let_def split: list.splits)

lemma rune_width_take:
  assumes "s \<noteq> []"
  shows "rune_width (take (rune_width s) s @ t) = rune_width s \<or> bad_head s"
proof (cases s rule: rune_width.cases)
  case 1
  then show ?thesis using assms by simp
next
  case (2 c)
  then show ?thesis by (cases "byte c < 128") (simp_all add: bad_head_def rune_width_ascii)
next
  case (3 c c1 cs)
  show ?thesis
  proof (cases "byte c < 128")
    case True
    then show ?thesis using 3 by (simp add: rune_width_ascii del: rune_width.simps)
  next
    case False
    then show ?thesis using 3
      by (cases cs; cases "tl cs") (auto simp: bad_head_def Let_def split: if_splits)
  qed
qed

lemma clean_Cons:
  "s \<noteq> [] \<Longrightarrow> clean s = (if bad_head s then replacement else take (rune_width s) s) @ clean (drop (rune_width s) s)"
  by (cases s) (simp_all add: clean.simps(2) del: rune_width.simps)

lemma clean_clean [simp]: "clean (clean s) = clean s"
proof (induction s rule: clean.induct)
  case 1
  then show ?case by simp
next
  case (2 c cs)
  let ?s = "c # cs" and ?rest = "clean (drop (rune_width (c # cs)) (c # cs))"
  show ?case
  proof (cases "bad_head ?s")
    case True
    have w: "rune_width (replacement @ ?rest) = 3" by (simp add: replacement_def byte_in_def byte_def)
    then have "\<not> bad_head (replacement @ ?rest)" by (simp add: bad_head_def)
    then have "clean (replacement @ ?rest) = replacement @ clean ?rest"
      using clean_Cons [of "replacement @ ?rest"] w by (simp add: replacement_def del: rune_width.simps)
    then show ?thesis using True 2 by (simp add: clean_Cons [of ?s] del: rune_width.simps)
  next
    case False
    let ?h = "take (rune_width ?s) ?s"
    have w: "rune_width (?h @ ?rest) = rune_width ?s" using rune_width_take [of ?s ?rest] False by blast
    have pos: "0 < rune_width ?s" and le: "rune_width ?s \<le> length ?s"
      by (rule rune_width_pos) (rule rune_width_le_length)
    then have "\<not> bad_head (?h @ ?rest)" using False w by (simp add: bad_head_def hd_append del: rune_width.simps)
    then have "clean (?h @ ?rest) = ?h @ clean ?rest"
      using clean_Cons [of "?h @ ?rest"] w pos le by (simp del: rune_width.simps)
    then show ?thesis using False 2 by (simp add: clean_Cons [of ?s] del: rune_width.simps)
  qed
qed

lemma clean_ascii: "\<forall>c \<in> set s. byte c < 128 \<Longrightarrow> clean s = s"
  by (induction s) (simp_all add: clean_Cons bad_head_def rune_width_ascii del: rune_width.simps)

text \<open>A text that has become plain ASCII was that text before.\<close>

lemma clean_to_ascii: "\<forall>c \<in> set (clean s). byte c < 128 \<Longrightarrow> clean s = s"
proof (induction s rule: clean.induct)
  case (2 c cs)
  have "\<not> bad_head (c # cs)"
    using 2(2) by (auto simp: clean_Cons [of "c # cs"] replacement_def byte_def simp del: rune_width.simps)
  then show ?case
    using 2 by (simp add: clean_Cons [of "c # cs"] del: rune_width.simps)
qed simp

lemma clean_eq_ascii: "\<forall>c \<in> set t. byte c < 128 \<Longrightarrow> clean s = t \<longleftrightarrow> s = t"
  using clean_to_ascii [of s] clean_ascii [of t] by auto

end
