(* ===== verification/NexusAction.thy ===== *)
theory NexusAction
  imports GoCrypto
begin

text \<open>
  The governed Action protocol of \<^verbatim>\<open>sdk/go/nexus/action.go\<close>: requests, one-use grants, signed
  receipts and the rechecks \<open>VerifyActionReceipt\<close>, \<open>VerifyObservationReceipt\<close> and
  \<open>VerifyActionGrant\<close>.  A pointer field is an option, a string enum a datatype whose last
  constructor holds any other text, and the grant tracker is passed and returned.  Ed25519
  verification and the JSON text a receipt is signed over are fields of the \<open>trust_env\<close> argument.
\<close>

subsection \<open>Errors\<close>

datatype nexus_err =
    ErrUnsignedReceipt
  | ErrUntrustedSignature
  | ErrGrantExpired
  | ErrGrantReplayed
  | ErrActorOrgMismatch
  | ErrReceiptNotOutcomeEvidence
  | ErrNotSha256Ref
  | ErrField string
  | ErrFieldAt string nat nexus_err
  | ErrBinding string

definition ValidateSHA256Ref :: "string \<Rightarrow> nexus_err option" where
  "ValidateSHA256Ref v =
     fail_if (\<not> (has_prefix v ''sha256:'' \<and> length v = 71 \<and> list_all is_hex_lower (drop 7 v))) ErrNotSha256Ref"

definition requireNonEmpty :: "string \<Rightarrow> string \<Rightarrow> nexus_err option" where
  "requireNonEmpty field v = fail_if (blank v) (ErrField field)"

subsection \<open>ActionStatus, risk, signatures\<close>

datatype action_status =
    ActionStatusRequested | ActionStatusAwaitingApproval | ActionStatusGranted | ActionStatusDispatched
  | ActionStatusExecuting | ActionStatusSucceeded | ActionStatusFailed | ActionStatusResultUnknown
  | ActionStatusReconciling | ActionStatusCompensating | ActionStatusHumanTakeover
  | ActionStatusOther string

definition ActionStatuses :: "action_status list" where
  "ActionStatuses =
     [ActionStatusRequested, ActionStatusAwaitingApproval, ActionStatusGranted, ActionStatusDispatched,
      ActionStatusExecuting, ActionStatusSucceeded, ActionStatusFailed, ActionStatusResultUnknown,
      ActionStatusReconciling, ActionStatusCompensating, ActionStatusHumanTakeover]"

fun action_status_valid :: "action_status \<Rightarrow> bool" where
  "action_status_valid (ActionStatusOther _) = False"
| "action_status_valid _ = True"

datatype nexus_risk = NexusRiskLow | NexusRiskMedium | NexusRiskHigh | NexusRiskOther string

fun nexus_risk_valid :: "nexus_risk \<Rightarrow> bool" where
  "nexus_risk_valid (NexusRiskOther _) = False"
| "nexus_risk_valid _ = True"

record signature =
  sig_algorithm :: string
  sig_key_id :: string
  sig_value :: string

definition SignatureAlgorithmEd25519 :: string where
  "SignatureAlgorithmEd25519 = ''ed25519''"

definition signature_empty :: "signature option \<Rightarrow> bool" where
  "signature_empty s =
     (case s of None \<Rightarrow> True
      | Some x \<Rightarrow> sig_algorithm x = [] \<and> sig_key_id x = [] \<and> sig_value x = [])"

subsection \<open>ActionRequest\<close>

record nx_precondition =
  pre_kind :: string
  pre_reference :: string
  pre_expected :: string

definition precondition_validate :: "nx_precondition \<Rightarrow> nexus_err option" where
  "precondition_validate p = fail_if (pre_kind p = [] \<or> pre_reference p = []) (ErrField ''precondition'')"

record verification_need =
  vn_need_id :: string
  vn_source :: string
  vn_authority :: string
  vn_max_age :: go_duration

definition verification_need_validate :: "verification_need \<Rightarrow> nexus_err option" where
  "verification_need_validate n =
     first_err [requireNonEmpty ''need_id'' (vn_need_id n), requireNonEmpty ''source'' (vn_source n),
                requireNonEmpty ''authority'' (vn_authority n)]"

record postcondition_spec =
  pc_postcondition_id :: string
  pc_description :: string
  pc_verification_need_id :: string

definition postcondition_validate :: "postcondition_spec \<Rightarrow> nexus_err option" where
  "postcondition_validate p =
     first_err [requireNonEmpty ''postcondition_id'' (pc_postcondition_id p),
                requireNonEmpty ''description'' (pc_description p),
                requireNonEmpty ''verification_need_id'' (pc_verification_need_id p)]"

record action_request =
  ar_action_id :: string
  ar_goal_ref :: string
  ar_outcome_ref :: string
  ar_work_case_id :: string
  ar_work_plan_revision :: uint64
  ar_actor :: string
  ar_org_scope :: string
  ar_capability :: string
  ar_parameter_hash :: string
  ar_preconditions :: "nx_precondition list"
  ar_postconditions :: "postcondition_spec list"
  ar_verification_needs :: "verification_need list"
  ar_risk :: nexus_risk
  ar_approval_refs :: "string list"
  ar_idempotency_key :: string
  ar_expires_at :: go_time
  ar_execution_receipt_schema :: string
  ar_compensation_ref :: string

definition validateIdempotencyKey :: "string \<Rightarrow> nexus_err option" where
  "validateIdempotencyKey k =
     first_err [fail_if (k = []) (ErrField ''idempotency_key''),
                fail_if (length k < 16 \<or> 128 < length k) (ErrField ''idempotency_key'')]"

definition action_request_validate :: "action_request \<Rightarrow> nexus_err option" where
  "action_request_validate r =
     first_err
      [requireNonEmpty ''action_id'' (ar_action_id r),
       requireNonEmpty ''work_case_id'' (ar_work_case_id r),
       requireNonEmpty ''actor'' (ar_actor r),
       requireNonEmpty ''org_scope'' (ar_org_scope r),
       requireNonEmpty ''capability'' (ar_capability r),
       map_option (\<lambda>_. ErrField ''parameter_hash'') (ValidateSHA256Ref (ar_parameter_hash r)),
       check_each (\<lambda>i p. map_option (ErrFieldAt ''preconditions'' i) (precondition_validate p)) 0 (ar_preconditions r),
       check_each (\<lambda>i n. map_option (ErrFieldAt ''verification_needs'' i) (verification_need_validate n)) 0
         (ar_verification_needs r),
       (let needIDs = map vn_need_id (ar_verification_needs r)
        in check_each
             (\<lambda>i p. map_option (ErrFieldAt ''postconditions'' i)
                (first_err [postcondition_validate p,
                            fail_if (pc_verification_need_id p \<notin> set needIDs) (ErrField ''verification_need_id'')]))
             0 (ar_postconditions r)),
       fail_if (\<not> nexus_risk_valid (ar_risk r)) (ErrField ''risk''),
       validateIdempotencyKey (ar_idempotency_key r),
       fail_if (time_is_zero (ar_expires_at r)) (ErrField ''expires_at''),
       requireNonEmpty ''execution_receipt_schema'' (ar_execution_receipt_schema r)]"

subsection \<open>Grants and receipts\<close>

record action_grant =
  gr_grant_id :: string
  gr_action_id :: string
  gr_work_case_id :: string
  gr_actor :: string
  gr_org_scope :: string
  gr_capability :: string
  gr_parameter_hash :: string
  gr_one_use :: bool
  gr_issued_at :: go_time
  gr_expires_at :: go_time

record action_receipt =
  rc_receipt_id :: string
  rc_action_id :: string
  rc_parameter_hash :: string
  rc_connector_ref :: string
  rc_target_ref :: string
  rc_before_hash :: string
  rc_after_hash :: string
  rc_executor_identity :: string
  rc_result_code :: string
  rc_external_receipt :: string
  rc_audit_ref :: string
  rc_issued_at :: go_time
  rc_signature :: "signature option"

record observation_receipt =
  ob_observation_id :: string
  ob_action_id :: string
  ob_parameter_hash :: string
  ob_postcondition_id :: string
  ob_verification_need_id :: string
  ob_source :: string
  ob_source_version :: string
  ob_authority :: string
  ob_observed_at :: go_time
  ob_freshness_window :: go_duration
  ob_normalized_hash :: string
  ob_evidence_ref :: string
  ob_audit_ref :: string
  ob_signature :: "signature option"

definition action_receipt_confirms_outcome :: "action_receipt \<Rightarrow> nexus_err option" where
  "action_receipt_confirms_outcome r = Some ErrReceiptNotOutcomeEvidence"

definition observation_receipt_confirms_outcome :: "observation_receipt \<Rightarrow> nexus_err option" where
  "observation_receipt_confirms_outcome o' = Some ErrReceiptNotOutcomeEvidence"

subsection \<open>Signature verification\<close>

text \<open>\<open>ed25519.Verify key payload sig\<close> and \<open>json.Marshal\<close> of the two receipt types.\<close>

record trust_env =
  ed25519_verify :: "string \<Rightarrow> string \<Rightarrow> string \<Rightarrow> bool"
  marshal_action_receipt :: "action_receipt \<Rightarrow> string"
  marshal_observation_receipt :: "observation_receipt \<Rightarrow> string"

definition ed25519_public_key_size :: nat where
  "ed25519_public_key_size = 32"

definition action_signing_payload :: "trust_env \<Rightarrow> action_receipt \<Rightarrow> string" where
  "action_signing_payload T r = marshal_action_receipt T (r\<lparr>rc_signature := None\<rparr>)"

definition observation_signing_payload :: "trust_env \<Rightarrow> observation_receipt \<Rightarrow> string" where
  "observation_signing_payload T o' = marshal_observation_receipt T (o'\<lparr>ob_signature := None\<rparr>)"

definition verifySignature :: "trust_env \<Rightarrow> signature option \<Rightarrow> string \<Rightarrow> string \<Rightarrow> string \<Rightarrow> nexus_err option" where
  "verifySignature T sig trustedKeyID trustedKey payload =
     (if signature_empty sig then Some ErrUnsignedReceipt
      else case sig of
        None \<Rightarrow> Some ErrUnsignedReceipt
      | Some s \<Rightarrow>
          if sig_algorithm s \<noteq> SignatureAlgorithmEd25519 then Some ErrUntrustedSignature
          else if sig_key_id s \<noteq> trustedKeyID then Some ErrUntrustedSignature
          else case base64_std_decode (sig_value s) of
            None \<Rightarrow> Some ErrUntrustedSignature
          | Some raw \<Rightarrow>
              if length trustedKey \<noteq> ed25519_public_key_size \<or> \<not> ed25519_verify T trustedKey payload raw
              then Some ErrUntrustedSignature else None)"

definition VerifyActionReceipt :: "trust_env \<Rightarrow> action_request \<Rightarrow> action_receipt \<Rightarrow> string \<Rightarrow> string \<Rightarrow> nexus_err option" where
  "VerifyActionReceipt T req receipt trustedKeyID trustedKey =
     first_err
      [fail_if (rc_action_id receipt \<noteq> ar_action_id req) (ErrBinding ''action_id''),
       fail_if (rc_parameter_hash receipt \<noteq> ar_parameter_hash req) (ErrBinding ''parameter_hash''),
       ValidateSHA256Ref (rc_parameter_hash receipt),
       verifySignature T (rc_signature receipt) trustedKeyID trustedKey (action_signing_payload T receipt)]"

definition VerifyObservationReceipt ::
    "trust_env \<Rightarrow> action_request \<Rightarrow> observation_receipt \<Rightarrow> string \<Rightarrow> string \<Rightarrow> nexus_err option" where
  "VerifyObservationReceipt T req receipt trustedKeyID trustedKey =
     first_err
      [fail_if (ob_action_id receipt \<noteq> ar_action_id req) (ErrBinding ''action_id''),
       fail_if (ob_parameter_hash receipt \<noteq> ar_parameter_hash req) (ErrBinding ''parameter_hash''),
       fail_if (find (\<lambda>n. vn_need_id n = ob_verification_need_id receipt) (ar_verification_needs req) = None)
         (ErrBinding ''verification_need_id''),
       fail_if (\<not> list_ex (\<lambda>p. pc_postcondition_id p = ob_postcondition_id receipt
                            \<and> pc_verification_need_id p = ob_verification_need_id receipt) (ar_postconditions req))
         (ErrBinding ''postcondition_id''),
       verifySignature T (ob_signature receipt) trustedKeyID trustedKey (observation_signing_payload T receipt)]"

subsection \<open>One-use grants\<close>

type_synonym grant_tracker = "string \<Rightarrow> bool"

definition NewGrantUsageTracker :: grant_tracker where
  "NewGrantUsageTracker = (\<lambda>_. False)"

definition Consume :: "grant_tracker \<Rightarrow> string \<Rightarrow> bool \<times> grant_tracker" where
  "Consume t grantID = (if t grantID then (False, t) else (True, t(grantID := True)))"

definition grant_binding_check :: "action_request \<Rightarrow> action_grant \<Rightarrow> go_time \<Rightarrow> nexus_err option" where
  "grant_binding_check req grant now =
     first_err
      [fail_if (gr_action_id grant \<noteq> ar_action_id req) (ErrBinding ''action_id''),
       fail_if (gr_work_case_id grant \<noteq> ar_work_case_id req) (ErrBinding ''work_case_id''),
       fail_if (gr_actor grant \<noteq> ar_actor req \<or> gr_org_scope grant \<noteq> ar_org_scope req) ErrActorOrgMismatch,
       fail_if (gr_capability grant \<noteq> ar_capability req) (ErrBinding ''capability''),
       fail_if (gr_parameter_hash grant \<noteq> ar_parameter_hash req) (ErrBinding ''parameter_hash''),
       fail_if (\<not> gr_one_use grant) (ErrBinding ''one_use''),
       fail_if (\<not> now < gr_expires_at grant) ErrGrantExpired]"

definition VerifyActionGrant ::
    "action_request \<Rightarrow> action_grant \<Rightarrow> grant_tracker option \<Rightarrow> go_time \<Rightarrow> nexus_err option \<times> grant_tracker option" where
  "VerifyActionGrant req grant tracker now =
     (case grant_binding_check req grant now of
        Some e \<Rightarrow> (Some e, tracker)
      | None \<Rightarrow>
          (case tracker of
             None \<Rightarrow> (None, None)
           | Some t \<Rightarrow>
               (case Consume t (gr_grant_id grant) of
                  (first, t') \<Rightarrow> (if first then None else Some ErrGrantReplayed, Some t'))))"

text \<open>A run of grant checks against one tracker: the verdict of each, in order.\<close>

fun verify_grants ::
    "(action_request \<times> action_grant \<times> go_time) list \<Rightarrow> grant_tracker \<Rightarrow> nexus_err option list \<times> grant_tracker" where
  "verify_grants [] t = ([], t)"
| "verify_grants ((req, g, now) # rest) t =
     (let (e, t') = VerifyActionGrant req g (Some t) now;
          (es, t'') = verify_grants rest (the t')
      in (e # es, t''))"

subsection \<open>Lemmas\<close>

lemma ActionStatuses_closed: "action_status_valid s \<longleftrightarrow> s \<in> set ActionStatuses"
  by (cases s) (simp_all add: ActionStatuses_def)

lemma verifySignature_None_iff:
  "verifySignature T sig kid key payload = None \<longleftrightarrow>
     (\<exists>s raw. sig = Some s \<and> \<not> signature_empty sig \<and> sig_algorithm s = SignatureAlgorithmEd25519
        \<and> sig_key_id s = kid \<and> base64_std_decode (sig_value s) = Some raw
        \<and> length key = ed25519_public_key_size \<and> ed25519_verify T key payload raw)"
  by (auto simp: verifySignature_def split: option.splits if_splits)

lemma verifySignature_Some_ed25519 [simp]:
  "signature_empty (Some \<lparr>sig_algorithm = SignatureAlgorithmEd25519, sig_key_id = k, sig_value = v\<rparr>) = False"
  by (simp add: signature_empty_def SignatureAlgorithmEd25519_def)

lemma VerifyActionReceipt_None_iff:
  "VerifyActionReceipt T req r kid key = None \<longleftrightarrow>
     rc_action_id r = ar_action_id req \<and> rc_parameter_hash r = ar_parameter_hash req
     \<and> ValidateSHA256Ref (rc_parameter_hash r) = None
     \<and> verifySignature T (rc_signature r) kid key (action_signing_payload T r) = None"
  by (auto simp: VerifyActionReceipt_def)

lemma VerifyObservationReceipt_None_iff:
  "VerifyObservationReceipt T req r kid key = None \<longleftrightarrow>
     ob_action_id r = ar_action_id req \<and> ob_parameter_hash r = ar_parameter_hash req
     \<and> (\<exists>n \<in> set (ar_verification_needs req). vn_need_id n = ob_verification_need_id r)
     \<and> (\<exists>p \<in> set (ar_postconditions req). pc_postcondition_id p = ob_postcondition_id r
            \<and> pc_verification_need_id p = ob_verification_need_id r)
     \<and> verifySignature T (ob_signature r) kid key (observation_signing_payload T r) = None"
  by (auto simp: VerifyObservationReceipt_def find_None_all list_ex_iff)

lemma check_each_indexed_None:
  "check_each (\<lambda>i x. map_option (F i) (f x)) i xs = None \<longleftrightarrow> (\<forall>x \<in> set xs. f x = None)"
  by (induction xs arbitrary: i) (auto split: option.splits)

lemma action_request_validate_None_iff:
  "action_request_validate r = None \<longleftrightarrow>
     \<not> blank (ar_action_id r) \<and> \<not> blank (ar_work_case_id r) \<and> \<not> blank (ar_actor r)
     \<and> \<not> blank (ar_org_scope r) \<and> \<not> blank (ar_capability r)
     \<and> ValidateSHA256Ref (ar_parameter_hash r) = None
     \<and> (\<forall>p \<in> set (ar_preconditions r). precondition_validate p = None)
     \<and> (\<forall>n \<in> set (ar_verification_needs r). verification_need_validate n = None)
     \<and> (\<forall>p \<in> set (ar_postconditions r). postcondition_validate p = None
            \<and> pc_verification_need_id p \<in> vn_need_id ` set (ar_verification_needs r))
     \<and> nexus_risk_valid (ar_risk r) \<and> validateIdempotencyKey (ar_idempotency_key r) = None
     \<and> \<not> time_is_zero (ar_expires_at r) \<and> \<not> blank (ar_execution_receipt_schema r)"
  by (simp add: action_request_validate_def requireNonEmpty_def check_each_indexed_None Let_def)

lemma grant_binding_check_None_iff:
  "grant_binding_check req g now = None \<longleftrightarrow>
     gr_action_id g = ar_action_id req \<and> gr_work_case_id g = ar_work_case_id req
     \<and> gr_actor g = ar_actor req \<and> gr_org_scope g = ar_org_scope req
     \<and> gr_capability g = ar_capability req \<and> gr_parameter_hash g = ar_parameter_hash req
     \<and> gr_one_use g \<and> now < gr_expires_at g"
  by (auto simp: grant_binding_check_def)

lemma VerifyActionGrant_tracked:
  "VerifyActionGrant req g (Some t) now =
     (if grant_binding_check req g now = None
      then if t (gr_grant_id g) then (Some ErrGrantReplayed, Some t)
           else (None, Some (t(gr_grant_id g := True)))
      else (grant_binding_check req g now, Some t))"
  by (auto simp: VerifyActionGrant_def Consume_def split: option.splits)

definition accepted_with_id :: "string \<Rightarrow> (action_request \<times> action_grant \<times> go_time) \<times> nexus_err option \<Rightarrow> bool" where
  "accepted_with_id gid xe \<longleftrightarrow> snd xe = None \<and> gr_grant_id (fst (snd (fst xe))) = gid"

lemma verify_grants_used:
  "t gid \<Longrightarrow> filter (accepted_with_id gid) (zip xs (fst (verify_grants xs t))) = []"
proof (induction xs t rule: verify_grants.induct)
  case (1 t)
  then show ?case by simp
next
  case (2 req g now rest t)
  have keep: "(the (snd (VerifyActionGrant req g (Some t) now))) gid"
    using "2.prems" by (simp add: VerifyActionGrant_tracked)
  have "\<not> accepted_with_id gid ((req, g, now), fst (VerifyActionGrant req g (Some t) now))"
    using "2.prems" by (auto simp: accepted_with_id_def VerifyActionGrant_tracked)
  with "2.IH" [OF refl prod.collapse keep] show ?case
    by (simp add: Let_def split_beta)
qed

lemma verify_grants_at_most_one:
  "length (filter (accepted_with_id gid) (zip xs (fst (verify_grants xs t)))) \<le> 1"
proof (induction xs t rule: verify_grants.induct)
  case (1 t)
  then show ?case by simp
next
  case (2 req g now rest t)
  let ?t' = "the (snd (VerifyActionGrant req g (Some t) now))"
  show ?case
  proof (cases "accepted_with_id gid ((req, g, now), fst (VerifyActionGrant req g (Some t) now))")
    case True
    then have "?t' gid"
      by (auto simp: accepted_with_id_def VerifyActionGrant_tracked split: if_splits)
    then have "filter (accepted_with_id gid) (zip rest (fst (verify_grants rest ?t'))) = []"
      by (rule verify_grants_used)
    then show ?thesis by (simp add: Let_def split_beta)
  next
    case False
    with "2.IH" [OF refl prod.collapse] show ?thesis
      by (simp add: Let_def split_beta)
  qed
qed

subsection \<open>Properties\<close>

text \<open>
  C1: a one-use grant authorizes at most once.  Over any sequence of \<open>VerifyActionGrant\<close> calls
  sharing one tracker, at most one call accepts a given grant id, and every accepted call binds
  the exact action, work case, actor, org scope, capability and parameter hash before expiry.
\<close>

theorem grant_accepted_at_most_once:
  "length (filter (accepted_with_id gid) (zip xs (fst (verify_grants xs t)))) \<le> 1
   \<and> (\<forall>req g now t'. fst (VerifyActionGrant req g t' now) = None \<longrightarrow>
        gr_action_id g = ar_action_id req \<and> gr_work_case_id g = ar_work_case_id req
        \<and> gr_actor g = ar_actor req \<and> gr_org_scope g = ar_org_scope req
        \<and> gr_capability g = ar_capability req \<and> gr_parameter_hash g = ar_parameter_hash req
        \<and> gr_one_use g \<and> now < gr_expires_at g)"
proof -
  have "grant_binding_check req g now = None" if "fst (VerifyActionGrant req g t' now) = None" for req g now t'
    using that by (auto simp: VerifyActionGrant_def split: option.splits)
  then show ?thesis
    using verify_grants_at_most_one by (simp add: grant_binding_check_None_iff)
qed

text \<open>A concrete request, grant and receipt for the witnesses of this theory and its clients.\<close>

definition sample_hash :: string where
  "sample_hash = ''sha256:'' @ replicate 64 (CHR ''a'')"

definition sample_request :: action_request where
  "sample_request = \<lparr>ar_action_id = ''act-1'', ar_goal_ref = ''goal'', ar_outcome_ref = ''out'',
     ar_work_case_id = ''case-1'', ar_work_plan_revision = 1, ar_actor = ''alice'', ar_org_scope = ''org'',
     ar_capability = ''erp.post'', ar_parameter_hash = sample_hash, ar_preconditions = [],
     ar_postconditions = [\<lparr>pc_postcondition_id = ''pc-1'', pc_description = ''posted'', pc_verification_need_id = ''need-1''\<rparr>],
     ar_verification_needs = [\<lparr>vn_need_id = ''need-1'', vn_source = ''erp'', vn_authority = ''ledger'', vn_max_age = 60\<rparr>],
     ar_risk = NexusRiskLow, ar_approval_refs = [], ar_idempotency_key = replicate 16 (CHR ''k''),
     ar_expires_at = 1000, ar_execution_receipt_schema = ''schema'', ar_compensation_ref = []\<rparr>"

definition sample_grant :: action_grant where
  "sample_grant = \<lparr>gr_grant_id = ''g-1'', gr_action_id = ''act-1'', gr_work_case_id = ''case-1'', gr_actor = ''alice'',
     gr_org_scope = ''org'', gr_capability = ''erp.post'', gr_parameter_hash = sample_hash, gr_one_use = True,
     gr_issued_at = 1, gr_expires_at = 1000\<rparr>"

theorem grant_accepted_at_most_once_witness:
  "fst (verify_grants [(sample_request, sample_grant, 5), (sample_request, sample_grant, 6)] NewGrantUsageTracker)
     = [None, Some ErrGrantReplayed]
   \<and> gr_one_use sample_grant
   \<and> length (filter (accepted_with_id ''g-1'')
        (zip [(sample_request, sample_grant, 5), (sample_request, sample_grant, 6)]
          (fst (verify_grants [(sample_request, sample_grant, 5), (sample_request, sample_grant, 6)]
            NewGrantUsageTracker)))) \<le> 1"
proof -
  have run: "fst (verify_grants [(sample_request, sample_grant, 5), (sample_request, sample_grant, 6)]
      NewGrantUsageTracker) = [None, Some ErrGrantReplayed]"
    by (simp add: VerifyActionGrant_tracked grant_binding_check_None_iff sample_request_def
        sample_grant_def NewGrantUsageTracker_def)
  have acc: "fst (VerifyActionGrant sample_request sample_grant None 5) = None"
    by (simp add: VerifyActionGrant_def grant_binding_check_def sample_request_def sample_grant_def)
  show ?thesis
    using run acc grant_accepted_at_most_once [of "''g-1''"
      "[(sample_request, sample_grant, 5), (sample_request, sample_grant, 6)]" NewGrantUsageTracker]
    by blast
qed

text \<open>
  C3: a receipt is accepted exactly when it is bound to the request (same action id and parameter
  hash, a well-formed \<open>sha256:\<close> digest) and carries a non-empty ed25519 signature by the configured
  key id whose base64 value verifies, under a 32-byte trusted key, over the receipt without its
  signature.  Hence an accepted receipt that the key never signed is impossible, whatever the other
  fields say.
\<close>

theorem action_receipt_accepted_iff:
  "VerifyActionReceipt T req r kid key = None \<longleftrightarrow>
     rc_action_id r = ar_action_id req \<and> rc_parameter_hash r = ar_parameter_hash req
     \<and> ValidateSHA256Ref (rc_parameter_hash r) = None
     \<and> (\<exists>s raw. rc_signature r = Some s \<and> sig_algorithm s = ''ed25519'' \<and> sig_key_id s = kid
          \<and> base64_std_decode (sig_value s) = Some raw \<and> length key = 32
          \<and> ed25519_verify T key (marshal_action_receipt T (r\<lparr>rc_signature := None\<rparr>)) raw)"
  by (auto simp: VerifyActionReceipt_None_iff verifySignature_None_iff signature_empty_def
      SignatureAlgorithmEd25519_def ed25519_public_key_size_def action_signing_payload_def)

end
