(* ===== verification/WcModel.thy ===== *)
theory WcModel
  imports Prelude
begin

text \<open>
  The WorkCase contract of \<^verbatim>\<open>sdk/go/workcase/model.go\<close>: cases, immutable plan revisions, steps and
  actions, and \<open>ValidatePlan\<close>.  A nil pointer is \<open>None\<close>; a nil and an empty slice are both the
  empty list.  Values are HOL values, so the deep copies \<open>cloneCase\<close>, \<open>clonePlan\<close> and \<open>cloneStep\<close>
  of the store are identities here.
\<close>

datatype wc_status =
    StatusDraft | StatusReviewing | StatusExecuting | StatusCompleted | StatusTerminated
  | StatusOther string

datatype step_status =
    StepUnset
  | StepPending | StepRunning | StepCompleted | StepFailed
  | StepOther string

fun step_status_text :: "step_status \<Rightarrow> string" where
  "step_status_text StepUnset = []"
| "step_status_text StepPending = ''pending''"
| "step_status_text StepRunning = ''running''"
| "step_status_text StepCompleted = ''completed''"
| "step_status_text StepFailed = ''failed''"
| "step_status_text (StepOther s) = s"

record wc_precondition =
  wp_kind :: string
  wp_value_hash :: string

record wc_evidence_ref =
  we_handle :: string
  we_content_hash :: string
  we_authority :: string

record action_spec =
  as_kind :: string
  as_business_capability :: string
  as_parameters_hash :: string
  as_risk :: string
  as_idempotency_key :: string
  as_preconditions :: "wc_precondition list"
  as_expires_at :: go_time
  as_expected_receipt_schema :: string
  as_compensation_action_id :: "string option"
  as_failure_policy :: string

record wc_step =
  st_id :: string
  st_status :: step_status
  st_evidence :: "wc_evidence_ref list"
  st_action :: "action_spec option"

record work_plan =
  pl_revision :: uint64
  pl_steps :: "wc_step list"

record work_case =
  wc_id :: string
  wc_enterprise_id :: string
  wc_org_scope :: string
  wc_actor_ref :: string
  wc_status :: wc_status
  wc_revision :: uint64
  wc_plans :: "work_plan list"

definition zero_case :: work_case where
  "zero_case = \<lparr>wc_id = [], wc_enterprise_id = [], wc_org_scope = [], wc_actor_ref = [],
     wc_status = StatusOther [], wc_revision = 0, wc_plans = []\<rparr>"

datatype plan_err = ErrMissingFailurePolicy

definition write_without_policy :: "wc_step \<Rightarrow> bool" where
  "write_without_policy s =
     (case st_action s of None \<Rightarrow> False
      | Some a \<Rightarrow> as_kind a = ''write'' \<and> as_failure_policy a = [])"

fun ValidatePlan_steps :: "wc_step list \<Rightarrow> plan_err option" where
  "ValidatePlan_steps [] = None"
| "ValidatePlan_steps (s # ss) =
     (if write_without_policy s then Some ErrMissingFailurePolicy else ValidatePlan_steps ss)"

definition ValidatePlan :: "work_plan \<Rightarrow> plan_err option" where
  "ValidatePlan p = ValidatePlan_steps (pl_steps p)"

lemma ValidatePlan_None_iff: "ValidatePlan p = None \<longleftrightarrow> (\<forall>s \<in> set (pl_steps p). \<not> write_without_policy s)"
proof -
  have "ValidatePlan_steps ss = None \<longleftrightarrow> (\<forall>s \<in> set ss. \<not> write_without_policy s)" for ss
    by (induction ss) auto
  then show ?thesis by (simp add: ValidatePlan_def)
qed

end
