(* ===== verification/RunLedger.thy ===== *)
theory RunLedger
  imports ActionState NexusAction WcModel
begin

text \<open>
  The run ledger of the orchestrator, the first part of \<^verbatim>\<open>internal/workcase/orchestrator.go\<close>: the ledger
  of a case, the updates the orchestrator makes inside one store transaction, and the in-memory run
  store.

  The closures the code passes to \<open>RunStore.Transform\<close> are the constructors of \<open>ledger_update\<close>, and
  \<open>apply_update\<close> is what they do.  A reason is the fixed part of the code's text: the text of a
  wrapped error is left out.
\<close>

subsection \<open>The ledger\<close>

record action_run =
  rn_step_id :: string
  rn_action_id :: string
  rn_kind :: string
  rn_risk :: string
  rn_state :: action_state
  rn_attempts :: int
  rn_reconcile_attempts :: int
  rn_idempotency_key :: string
  rn_receipt_id :: string
  rn_outcome :: action_outcome

record decision_record =
  dr_seq :: int
  dr_step_id :: string
  dr_from :: action_state
  dr_to :: action_state
  dr_reason :: string
  dr_audit_ref :: string
  dr_at :: go_time

record queued_need =
  qn_step_id :: string
  qn_action_id :: string
  qn_need_id :: string
  qn_source :: string
  qn_authority :: string
  qn_parameter_hash :: string

record run_ledger =
  rl_case_id :: string
  rl_enterprise_id :: string
  rl_org_scope :: string
  rl_actor_ref :: string
  rl_revision :: uint64
  rl_plan_revision :: uint64
  rl_replans :: int
  rl_runs :: "action_run list"
  rl_decisions :: "decision_record list"
  rl_verify :: "queued_need list"

datatype run_err = ErrRunNotFound | ErrAuditSink

definition topPlan :: "work_case \<Rightarrow> uint64 \<times> wc_step list" where
  "topPlan wc = (if wc_plans wc = [] then (0, []) else (pl_revision (last (wc_plans wc)), pl_steps (last (wc_plans wc))))"

definition seed_run :: "string \<Rightarrow> wc_step \<Rightarrow> action_run" where
  "seed_run caseID st =
     (let run = \<lparr>rn_step_id = st_id st, rn_action_id = caseID @ ''::'' @ st_id st, rn_kind = [], rn_risk = [],
                 rn_state = ActionPending, rn_attempts = 0, rn_reconcile_attempts = 0, rn_idempotency_key = [],
                 rn_receipt_id = [], rn_outcome = ActionOutcomeUnknown\<rparr>
      in case st_action st of None \<Rightarrow> run\<lparr>rn_state := ActionHumanTakeover\<rparr>
         | Some a \<Rightarrow> run\<lparr>rn_kind := as_kind a, rn_risk := as_risk a\<rparr>)"

definition seedRuns :: "run_ledger \<Rightarrow> work_case \<Rightarrow> run_ledger" where
  "seedRuns l wc = l\<lparr>rl_plan_revision := fst (topPlan wc), rl_runs := map (seed_run (wc_id wc)) (snd (topPlan wc))\<rparr>"

definition currentActionableRun :: "run_ledger \<Rightarrow> action_run option" where
  "currentActionableRun l = find (\<lambda>r. rn_state r \<noteq> ActionCompleted) (rl_runs l)"

definition isQuiescent :: "run_ledger \<Rightarrow> bool" where
  "isQuiescent l =
     (case currentActionableRun l of None \<Rightarrow> True
      | Some run \<Rightarrow> rn_state run \<in> {ActionCompleted, ActionCompensated, ActionHumanTakeover, ActionTerminated})"

definition indexRun :: "run_ledger \<Rightarrow> string \<Rightarrow> nat option" where
  "indexRun l stepID = find_index (\<lambda>r. rn_step_id r = stepID) (rl_runs l)"

definition runByID :: "run_ledger \<Rightarrow> string \<Rightarrow> action_run option" where
  "runByID l stepID = map_option (\<lambda>i. rl_runs l ! i) (indexRun l stepID)"

definition verifyQueued :: "run_ledger \<Rightarrow> string \<Rightarrow> string \<Rightarrow> bool" where
  "verifyQueued l stepID needID = list_ex (\<lambda>q. qn_step_id q = stepID \<and> qn_need_id q = needID) (rl_verify l)"

subsection \<open>Updates\<close>

datatype run_effect =
    NoEffect
  | ClaimDispatch string
  | RecordCompletion action_request action_receipt
  | RecordReversal action_request action_receipt

datatype ledger_update =
    Move string action_state string run_effect
  | BumpReconcile int string
  | CountReplan
  | Reseed work_case

definition update_run :: "nat \<Rightarrow> (action_run \<Rightarrow> action_run) \<Rightarrow> run_ledger \<Rightarrow> run_ledger" where
  "update_run i f l = l\<lparr>rl_runs := (rl_runs l)[i := f (rl_runs l ! i)]\<rparr>"

fun queue_needs :: "string \<Rightarrow> action_request \<Rightarrow> verification_need list \<Rightarrow> run_ledger \<Rightarrow> run_ledger" where
  "queue_needs stepID req [] l = l"
| "queue_needs stepID req (n # ns) l =
     queue_needs stepID req ns
       (if verifyQueued l stepID (vn_need_id n) then l
        else l\<lparr>rl_verify := rl_verify l @ [\<lparr>qn_step_id = stepID, qn_action_id = ar_action_id req, qn_need_id = vn_need_id n,
               qn_source = vn_source n, qn_authority = vn_authority n, qn_parameter_hash = ar_parameter_hash req\<rparr>]\<rparr>)"

fun apply_effect :: "run_effect \<Rightarrow> string \<Rightarrow> nat \<Rightarrow> run_ledger \<Rightarrow> run_ledger" where
  "apply_effect NoEffect stepID i l = l"
| "apply_effect (ClaimDispatch key) stepID i l =
     update_run i (\<lambda>r. r\<lparr>rn_attempts := rn_attempts r + 1, rn_idempotency_key := key\<rparr>) l"
| "apply_effect (RecordCompletion req receipt) stepID i l =
     queue_needs stepID req (ar_verification_needs req)
       (update_run i (\<lambda>r. r\<lparr>rn_receipt_id := rc_receipt_id receipt, rn_outcome := ActionOutcomeUnverified\<rparr>) l)"
| "apply_effect (RecordReversal req receipt) stepID i l =
     update_run i (\<lambda>r. r\<lparr>rn_receipt_id := rc_receipt_id receipt\<rparr>) l"

definition shortHash :: "string \<Rightarrow> string" where
  "shortHash s = hex_encode (take 16 (sha256 s))"

text \<open>What a transaction reads besides the ledger: the clock, the optional audit sink, and the time format.\<close>

record ledger_env =
  lv_now :: go_time
  lv_audit :: "(string \<Rightarrow> decision_record \<Rightarrow> string option) option"
  lv_rfc3339 :: "go_time \<Rightarrow> string"

definition recordAudit :: "ledger_env \<Rightarrow> string \<Rightarrow> decision_record \<Rightarrow> run_err + string" where
  "recordAudit env caseID dec =
     (case lv_audit env of
        Some sink \<Rightarrow> (case sink caseID dec of None \<Rightarrow> Inl ErrAuditSink | Some ref \<Rightarrow> Inr ref)
      | None \<Rightarrow> Inr (''audit-'' @ shortHash (caseID @ '':'' @ dr_step_id dec @ '':'' @ action_state_text (dr_to dec)
                 @ '':'' @ lv_rfc3339 env (dr_at dec))))"

definition apply_move ::
    "ledger_env \<Rightarrow> string \<Rightarrow> string \<Rightarrow> action_state \<Rightarrow> string \<Rightarrow> run_effect \<Rightarrow> run_ledger \<Rightarrow> run_err + (run_ledger \<times> bool)" where
  "apply_move env caseID stepID to reason eff l =
     (case indexRun l stepID of None \<Rightarrow> Inl ErrRunNotFound
      | Some i \<Rightarrow>
          (let from = rn_state (rl_runs l ! i)
           in if \<not> CanTransitionTo from to then Inr (l, False)
              else
                (let l1 = apply_effect eff stepID i (update_run i (\<lambda>r. r\<lparr>rn_state := to\<rparr>) l);
                     dec = \<lparr>dr_seq = int (length (rl_decisions l1)) + 1, dr_step_id = stepID, dr_from = from, dr_to = to,
                            dr_reason = reason, dr_audit_ref = [], dr_at = lv_now env\<rparr>
                 in case recordAudit env caseID dec of
                      Inl e \<Rightarrow> Inl e
                    | Inr ref \<Rightarrow> Inr (l1\<lparr>rl_decisions := rl_decisions l1 @ [dec\<lparr>dr_audit_ref := ref\<rparr>]\<rparr>, True))))"

fun apply_update :: "ledger_env \<Rightarrow> string \<Rightarrow> ledger_update \<Rightarrow> run_ledger \<Rightarrow> run_err + (run_ledger \<times> bool)" where
  "apply_update env caseID (Move stepID to reason eff) l = apply_move env caseID stepID to reason eff l"
| "apply_update env caseID (BumpReconcile maxAttempts stepID) l =
     (case indexRun l stepID of None \<Rightarrow> Inl ErrRunNotFound
      | Some i \<Rightarrow>
          (let l1 = update_run i (\<lambda>r. r\<lparr>rn_reconcile_attempts := rn_reconcile_attempts r + 1\<rparr>) l
           in Inr (l1, rn_reconcile_attempts (rl_runs l1 ! i) \<ge> maxAttempts)))"
| "apply_update env caseID CountReplan l = Inr (l\<lparr>rl_replans := rl_replans l + 1\<rparr>, True)"
| "apply_update env caseID (Reseed wc) l =
     (if rl_plan_revision l = fst (topPlan wc) \<and> rl_runs l \<noteq> [] then Inr (l, False) else Inr (seedRuns l wc, True))"

subsection \<open>The in-memory run store\<close>

type_synonym run_store = "string \<Rightarrow> run_ledger option"

definition NewMemoryRunStore :: run_store where
  "NewMemoryRunStore = (\<lambda>_. None)"

definition run_load :: "string \<Rightarrow> run_store \<Rightarrow> run_err + run_ledger" where
  "run_load caseID s = (case s caseID of None \<Rightarrow> Inl ErrRunNotFound | Some l \<Rightarrow> Inr l)"

definition run_save :: "run_ledger \<Rightarrow> run_store \<Rightarrow> run_store" where
  "run_save l s = s(rl_case_id l := Some (l\<lparr>rl_revision := rl_revision l + 1\<rparr>))"

definition run_transform ::
    "ledger_env \<Rightarrow> string \<Rightarrow> ledger_update \<Rightarrow> run_store \<Rightarrow> (run_err + (run_ledger \<times> bool)) \<times> run_store" where
  "run_transform env caseID u s =
     (case s caseID of None \<Rightarrow> (Inl ErrRunNotFound, s)
      | Some l \<Rightarrow>
          (case apply_update env caseID u l of
             Inl e \<Rightarrow> (Inl e, s)
           | Inr (l1, flag) \<Rightarrow>
               (let stored = l1\<lparr>rl_revision := rl_revision l + 1\<rparr>
                in (Inr (stored, flag), s(caseID := Some stored)))))"

subsection \<open>What an update does\<close>

lemma queue_needs_simps [simp]:
  "rl_runs (queue_needs s req ns l) = rl_runs l" "rl_decisions (queue_needs s req ns l) = rl_decisions l"
  "rl_plan_revision (queue_needs s req ns l) = rl_plan_revision l" "rl_replans (queue_needs s req ns l) = rl_replans l"
  by (induction ns arbitrary: l) simp_all

lemma update_run_simps [simp]:
  "rl_runs (update_run i f l) = (rl_runs l)[i := f (rl_runs l ! i)]" "rl_decisions (update_run i f l) = rl_decisions l"
  "rl_plan_revision (update_run i f l) = rl_plan_revision l" "rl_replans (update_run i f l) = rl_replans l"
  by (simp_all add: update_run_def)

text \<open>The effect of a move on its run, besides the state.\<close>

fun effect_run :: "run_effect \<Rightarrow> action_run \<Rightarrow> action_run" where
  "effect_run NoEffect r = r"
| "effect_run (ClaimDispatch key) r = r\<lparr>rn_attempts := rn_attempts r + 1, rn_idempotency_key := key\<rparr>"
| "effect_run (RecordCompletion req receipt) r =
     r\<lparr>rn_receipt_id := rc_receipt_id receipt, rn_outcome := ActionOutcomeUnverified\<rparr>"
| "effect_run (RecordReversal req receipt) r = r\<lparr>rn_receipt_id := rc_receipt_id receipt\<rparr>"

lemma effect_run_simps [simp]:
  "rn_step_id (effect_run eff r) = rn_step_id r" "rn_state (effect_run eff r) = rn_state r"
  "rn_reconcile_attempts (effect_run eff r) = rn_reconcile_attempts r"
  by (cases eff; simp)+

lemma apply_effect_simps [simp]:
  "i < length (rl_runs l) \<Longrightarrow> rl_runs (apply_effect eff s i l) = (rl_runs l)[i := effect_run eff (rl_runs l ! i)]"
  "rl_decisions (apply_effect eff s i l) = rl_decisions l"
  "rl_plan_revision (apply_effect eff s i l) = rl_plan_revision l" "rl_replans (apply_effect eff s i l) = rl_replans l"
  by (cases eff; simp)+

lemma indexRun_Some: "indexRun l s = Some i \<Longrightarrow> i < length (rl_runs l) \<and> rn_step_id (rl_runs l ! i) = s"
  unfolding indexRun_def by (drule find_index_Some) simp

lemma find_index_update:
  "(\<And>x. p (f x) = p x) \<Longrightarrow> find_index p (xs[i := f (xs ! i)]) = find_index p xs"
proof (induction xs arbitrary: i)
  case (Cons x xs)
  then show ?case by (cases i) simp_all
qed simp

text \<open>A move that applies: its run takes the new state and the effect, and one decision is appended.\<close>

lemma apply_move_applied:
  assumes "apply_move env cid s to reason eff l = Inr (l', True)"
  obtains i dec where "indexRun l s = Some i" "CanTransitionTo (rn_state (rl_runs l ! i)) to"
    "rl_runs l' = (rl_runs l)[i := effect_run eff ((rl_runs l ! i)\<lparr>rn_state := to\<rparr>)]"
    "rl_decisions l' = rl_decisions l @ [dec]" "dr_seq dec = int (length (rl_decisions l)) + 1" "dr_step_id dec = s"
    "dr_from dec = rn_state (rl_runs l ! i)" "dr_to dec = to" "rl_plan_revision l' = rl_plan_revision l"
proof -
  obtain i where i: "indexRun l s = Some i" "CanTransitionTo (rn_state (rl_runs l ! i)) to"
    using assms by (auto simp: apply_move_def Let_def split: option.splits if_splits)
  have b: "i < length (rl_runs l)" using indexRun_Some [OF i(1)] by simp
  let ?l1 = "apply_effect eff s i (update_run i (\<lambda>r. r\<lparr>rn_state := to\<rparr>) l)"
  let ?dec = "\<lparr>dr_seq = int (length (rl_decisions ?l1)) + 1, dr_step_id = s, dr_from = rn_state (rl_runs l ! i), dr_to = to,
      dr_reason = reason, dr_audit_ref = [], dr_at = lv_now env\<rparr>"
  obtain ref where "l' = ?l1\<lparr>rl_decisions := rl_decisions ?l1 @ [?dec\<lparr>dr_audit_ref := ref\<rparr>]\<rparr>"
    using assms i by (auto simp: apply_move_def Let_def split: sum.splits)
  then show thesis using i b by (intro that [of i "?dec\<lparr>dr_audit_ref := ref\<rparr>"]) simp_all
qed

lemma apply_move_refused:
  assumes "apply_move env cid s to reason eff l = Inr (l', False)"
  shows "l' = l \<and> (\<exists>i. indexRun l s = Some i \<and> \<not> CanTransitionTo (rn_state (rl_runs l ! i)) to)"
  using assms by (auto simp: apply_move_def Let_def split: option.splits if_splits sum.splits)

subsection \<open>The decision log\<close>

definition run_state :: "run_ledger \<Rightarrow> string \<Rightarrow> action_state option" where
  "run_state l s = map_option rn_state (runByID l s)"

definition step_decisions :: "string \<Rightarrow> run_ledger \<Rightarrow> decision_record list" where
  "step_decisions s l = filter (\<lambda>d. dr_step_id d = s) (rl_decisions l)"

text \<open>
  The log of a ledger is well formed: numbered 1, 2, 3, ..., along edges of the graph; the decisions of
  one step form paths, each starting at \<open>pending\<close>; and a run is where its last decision put it, unless
  the plan was seeded afresh since.
\<close>

definition follows :: "decision_record \<Rightarrow> decision_record \<Rightarrow> bool" where
  "follows d e \<longleftrightarrow> dr_from e = dr_to d \<or> dr_from e = ActionPending"

definition ledger_ok :: "run_ledger \<Rightarrow> bool" where
  "ledger_ok l \<longleftrightarrow>
     map dr_seq (rl_decisions l) = map (\<lambda>i. int i + 1) [0..<length (rl_decisions l)]
   \<and> list_all (\<lambda>d. CanTransitionTo (dr_from d) (dr_to d)) (rl_decisions l)
   \<and> (\<forall>s. successively follows (step_decisions s l)
        \<and> (step_decisions s l = [] \<or> dr_from (hd (step_decisions s l)) = ActionPending)
        \<and> (case run_state l s of None \<Rightarrow> True
           | Some st \<Rightarrow> st = ActionPending \<or> st = ActionHumanTakeover
               \<or> (step_decisions s l \<noteq> [] \<and> dr_to (last (step_decisions s l)) = st)))"

lemma same_states_ok:
  assumes "ledger_ok l" and "rl_decisions l' = rl_decisions l" and "\<And>s. run_state l' s = run_state l s"
  shows "ledger_ok l'"
proof -
  have sd: "step_decisions s l' = step_decisions s l" for s using assms(2) by (simp add: step_decisions_def)
  show ?thesis using assms(1) unfolding ledger_ok_def sd assms(2,3) .
qed

lemma ledger_ok_revision [simp]: "ledger_ok (l\<lparr>rl_revision := r\<rparr>) = ledger_ok l"
  using same_states_ok [of l "l\<lparr>rl_revision := r\<rparr>"] same_states_ok [of "l\<lparr>rl_revision := r\<rparr>" l]
  by (auto simp: run_state_def runByID_def indexRun_def)

lemma run_state_update:
  assumes "\<And>r. rn_step_id (f r) = rn_step_id r" and "indexRun l s = Some i"
    and "rl_runs l' = (rl_runs l)[i := f (rl_runs l ! i)]"
  shows "run_state l' t = (if t = s then Some (rn_state (f (rl_runs l ! i))) else run_state l t)"
proof -
  have idx: "indexRun l' t = indexRun l t" for t
    unfolding indexRun_def assms(3) by (rule find_index_update) (simp add: assms(1))
  have i: "i < length (rl_runs l)" "rn_step_id (rl_runs l ! i) = s" using indexRun_Some [OF assms(2)] by auto
  show ?thesis
  proof (cases "t = s")
    case True
    then show ?thesis using assms(2,3) i idx by (simp add: run_state_def runByID_def)
  next
    case False
    have "j \<noteq> i" if "indexRun l t = Some j" for j using indexRun_Some [OF that] i(2) False by auto
    then show ?thesis using False idx assms(3)
      by (cases "indexRun l t") (auto simp: run_state_def runByID_def nth_list_update)
  qed
qed

lemma run_state_seeded:
  assumes "run_state (seedRuns l wc) s = Some st"
  shows "st = ActionPending \<or> st = ActionHumanTakeover"
proof -
  obtain i where "indexRun (seedRuns l wc) s = Some i" "st = rn_state (rl_runs (seedRuns l wc) ! i)"
    using assms by (auto simp: run_state_def runByID_def)
  then show ?thesis
    using indexRun_Some [of "seedRuns l wc" s i]
    by (auto simp: seedRuns_def seed_run_def Let_def split: option.splits)
qed

lemma move_ok:
  assumes ok: "ledger_ok l" and m: "apply_move env cid s to reason eff l = Inr (l', True)"
  shows "ledger_ok l'"
proof (rule apply_move_applied [OF m])
  fix i dec
  assume i: "indexRun l s = Some i" and c: "CanTransitionTo (rn_state (rl_runs l ! i)) to"
    and runs: "rl_runs l' = (rl_runs l)[i := effect_run eff ((rl_runs l ! i)\<lparr>rn_state := to\<rparr>)]"
    and d: "rl_decisions l' = rl_decisions l @ [dec]" "dr_seq dec = int (length (rl_decisions l)) + 1" "dr_step_id dec = s"
      "dr_from dec = rn_state (rl_runs l ! i)" "dr_to dec = to"
  have sd: "step_decisions t l' = step_decisions t l @ (if t = s then [dec] else [])" for t
    using d by (simp add: step_decisions_def)
  have rs: "run_state l' t = (if t = s then Some to else run_state l t)" for t
    using run_state_update [where f = "\<lambda>r. effect_run eff (r\<lparr>rn_state := to\<rparr>)", OF _ i runs] by simp
  have cur: "run_state l s = Some (rn_state (rl_runs l ! i))" using i by (simp add: run_state_def runByID_def)
  have start: "dr_from dec = ActionPending \<or> (step_decisions s l \<noteq> [] \<and> dr_to (last (step_decisions s l)) = dr_from dec)"
    using ok cur c d(4) terminal_no_edge [of ActionHumanTakeover to]
    by (auto simp: ledger_ok_def Terminal_def dest!: spec [of _ s] split: option.splits)
  show ?thesis
    unfolding ledger_ok_def
  proof (intro conjI allI)
    show "map dr_seq (rl_decisions l') = map (\<lambda>i. int i + 1) [0..<length (rl_decisions l')]"
      using ok d by (simp add: ledger_ok_def)
    show "list_all (\<lambda>d. CanTransitionTo (dr_from d) (dr_to d)) (rl_decisions l')"
      using ok d c by (simp add: ledger_ok_def)
    fix t
    have old: "successively follows (step_decisions t l)"
      "step_decisions t l = [] \<or> dr_from (hd (step_decisions t l)) = ActionPending"
      "case run_state l t of None \<Rightarrow> True | Some st \<Rightarrow> st = ActionPending \<or> st = ActionHumanTakeover
               \<or> (step_decisions t l \<noteq> [] \<and> dr_to (last (step_decisions t l)) = st)"
      using ok by (simp_all add: ledger_ok_def)
    show "successively follows (step_decisions t l')"
      using old(1) start unfolding sd by (auto simp: successively_append_iff follows_def)
    show "step_decisions t l' = [] \<or> dr_from (hd (step_decisions t l')) = ActionPending"
      using old(2) start unfolding sd by (cases "step_decisions t l") auto
    show "case run_state l' t of None \<Rightarrow> True | Some st \<Rightarrow> st = ActionPending \<or> st = ActionHumanTakeover
               \<or> (step_decisions t l' \<noteq> [] \<and> dr_to (last (step_decisions t l')) = st)"
      using old(3) d(5) unfolding sd rs by (cases "t = s") (simp_all only: if_True if_False append_Nil2, simp)
  qed
qed

lemma update_ok:
  assumes ok: "ledger_ok l" and u: "apply_update env cid u l = Inr (l', flag)"
  shows "ledger_ok l'"
proof (cases u)
  case (Move s to reason eff)
  show ?thesis
  proof (cases flag)
    case True
    then show ?thesis using move_ok [OF ok] u Move by simp
  next
    case False
    then show ?thesis using apply_move_refused ok u Move by fastforce
  qed
next
  case (BumpReconcile m s)
  then obtain i where i: "indexRun l s = Some i"
    and l': "l' = update_run i (\<lambda>r. r\<lparr>rn_reconcile_attempts := rn_reconcile_attempts r + 1\<rparr>) l"
    using u by (auto simp: Let_def split: option.splits)
  have "run_state l' t = run_state l t" for t
    using run_state_update [where f = "\<lambda>r. r\<lparr>rn_reconcile_attempts := rn_reconcile_attempts r + 1\<rparr>", OF _ i] i
    by (simp add: l') (simp add: run_state_def runByID_def)
  then show ?thesis using same_states_ok [OF ok] l' by simp
next
  case CountReplan
  then show ?thesis using ok u same_states_ok [OF ok, of l'] by (auto simp: run_state_def runByID_def indexRun_def)
next
  case (Reseed wc)
  show ?thesis
  proof (cases "rl_plan_revision l = fst (topPlan wc) \<and> rl_runs l \<noteq> []")
    case True
    then show ?thesis using ok u Reseed by auto
  next
    case False
    then have l': "l' = seedRuns l wc" using u Reseed by auto
    have sd: "step_decisions t l' = step_decisions t l" for t by (simp add: l' step_decisions_def seedRuns_def)
    have "case run_state l' t of None \<Rightarrow> True | Some st \<Rightarrow> st = ActionPending \<or> st = ActionHumanTakeover" for t
      using run_state_seeded [of l wc t] l' by (auto split: option.splits)
    then show ?thesis
      using ok unfolding ledger_ok_def sd by (fastforce simp: l' seedRuns_def split: option.splits)
  qed
qed

end
