(* ===== verification/UpwardReview.thy ===== *)
theory UpwardReview
  imports Prelude
begin

text \<open>
  The upward-review rule of \<^verbatim>\<open>services/agentatlas/internal/governance/upward_review.go\<close>: how many,
  and which, reviewers a governed side effect needs.  \<open>Evaluate\<close> is the code's loop over the
  reviewers; \<open>upward_review_accepts_iff\<close> shows it decides the rule the package states.
\<close>

datatype risk_level = RiskLow | RiskHigh | RiskOther string

datatype review_err =
    ErrNoUpwardReviewer
  | ErrReviewerIsSubmitter
  | ErrReviewerIsPeer
  | ErrReviewerIsSubordinate
  | ErrDuplicateReviewer
  | ErrStaleOrgReviewer
  | ErrReviewerNotUpward
  | ErrUnknownRisk

record party =
  pt_user_id :: string
  pt_org_unit_id :: string
  pt_org_path :: "string list"
  pt_org_version :: int

record approval_parties =
  ap_submitter :: party
  ap_reviewers :: "party list"

record upward_review_policy =
  up_current_org_version :: int

fun Required :: "risk_level \<Rightarrow> review_err + nat" where
  "Required RiskLow = Inr 1"
| "Required RiskHigh = Inr 2"
| "Required (RiskOther _) = Inl ErrUnknownRisk"

definition isAncestorOf :: "string \<Rightarrow> string list \<Rightarrow> bool" where
  "isAncestorOf unit path = list_ex (\<lambda>u. u = unit) path"

fun review_loop :: "int \<Rightarrow> party \<Rightarrow> string list \<Rightarrow> nat \<Rightarrow> party list \<Rightarrow> review_err + nat" where
  "review_loop cur sub seen eligible [] = Inr eligible"
| "review_loop cur sub seen eligible (r # rs) =
     (if pt_user_id r = pt_user_id sub then Inl ErrReviewerIsSubmitter
      else if pt_user_id r \<in> set seen then Inl ErrDuplicateReviewer
      else if pt_org_version r \<noteq> cur then Inl ErrStaleOrgReviewer
      else if pt_org_unit_id r = pt_org_unit_id sub then Inl ErrReviewerIsPeer
      else if isAncestorOf (pt_org_unit_id sub) (pt_org_path r) then Inl ErrReviewerIsSubordinate
      else if isAncestorOf (pt_org_unit_id r) (pt_org_path sub)
        then review_loop cur sub (pt_user_id r # seen) (Suc eligible) rs
      else Inl ErrReviewerNotUpward)"

definition Evaluate :: "upward_review_policy \<Rightarrow> approval_parties \<Rightarrow> risk_level \<Rightarrow> review_err option" where
  "Evaluate p parties risk =
     (case Required risk of
        Inl e \<Rightarrow> Some e
      | Inr required \<Rightarrow>
          (if up_current_org_version p \<le> 0 then Some ErrStaleOrgReviewer
           else if pt_org_version (ap_submitter parties) \<noteq> up_current_org_version p then Some ErrStaleOrgReviewer
           else case review_loop (up_current_org_version p) (ap_submitter parties) [] 0 (ap_reviewers parties) of
             Inl e \<Rightarrow> Some e
           | Inr eligible \<Rightarrow> if eligible < required then Some ErrNoUpwardReviewer else None))"

subsection \<open>The rule\<close>

definition eligible_reviewer :: "int \<Rightarrow> party \<Rightarrow> party \<Rightarrow> bool" where
  "eligible_reviewer cur sub r \<longleftrightarrow>
     pt_user_id r \<noteq> pt_user_id sub \<and> pt_org_version r = cur
     \<and> pt_org_unit_id r \<noteq> pt_org_unit_id sub
     \<and> pt_org_unit_id sub \<notin> set (pt_org_path r)
     \<and> pt_org_unit_id r \<in> set (pt_org_path sub)"

lemma isAncestorOf_iff [simp]: "isAncestorOf u path \<longleftrightarrow> u \<in> set path"
  by (auto simp: isAncestorOf_def list_ex_iff)

lemma review_loop_Inr_iff:
  "review_loop cur sub seen n rs = Inr m \<longleftrightarrow>
     (\<forall>r \<in> set rs. eligible_reviewer cur sub r) \<and> distinct (map pt_user_id rs)
     \<and> pt_user_id ` set rs \<inter> set seen = {} \<and> m = n + length rs"
  by (induction rs arbitrary: seen n) (auto simp: eligible_reviewer_def)

definition required_reviewers :: "risk_level \<Rightarrow> nat option" where
  "required_reviewers risk = (case risk of RiskLow \<Rightarrow> Some 1 | RiskHigh \<Rightarrow> Some 2 | RiskOther _ \<Rightarrow> None)"

lemma Required_Inr_iff: "Required risk = Inr n \<longleftrightarrow> required_reviewers risk = Some n"
  by (cases risk) (auto simp: required_reviewers_def)

text \<open>
  C2: \<open>UpwardReviewPolicy.Evaluate\<close> accepts exactly when the risk tier is known, the policy has an
  authoritative org version, the submitter and every reviewer decided against that version, no
  reviewer is the submitter, a peer, a subordinate or from an unrelated branch, the reviewers are
  pairwise distinct people, and there are at least as many as the tier needs (one for low risk, two
  for high).
\<close>

theorem upward_review_accepts_iff:
  "Evaluate p parties risk = None \<longleftrightarrow>
     (\<exists>n. required_reviewers risk = Some n \<and> n \<le> length (ap_reviewers parties))
     \<and> 0 < up_current_org_version p
     \<and> pt_org_version (ap_submitter parties) = up_current_org_version p
     \<and> (\<forall>r \<in> set (ap_reviewers parties). eligible_reviewer (up_current_org_version p) (ap_submitter parties) r)
     \<and> distinct (map pt_user_id (ap_reviewers parties))"
proof (cases "Required risk")
  case (Inl e)
  then show ?thesis by (cases risk) (simp_all add: Evaluate_def required_reviewers_def)
next
  case (Inr n)
  then have req: "required_reviewers risk = Some n" by (simp add: Required_Inr_iff)
  show ?thesis
  proof (cases "review_loop (up_current_org_version p) (ap_submitter parties) [] 0 (ap_reviewers parties)")
    case (Inl e)
    then have "\<not> ((\<forall>r \<in> set (ap_reviewers parties). eligible_reviewer (up_current_org_version p) (ap_submitter parties) r)
        \<and> distinct (map pt_user_id (ap_reviewers parties)))"
      using review_loop_Inr_iff [of "up_current_org_version p" "ap_submitter parties" "[]" 0
          "ap_reviewers parties" "length (ap_reviewers parties)"]
      by auto
    with Inl Inr show ?thesis by (auto simp: Evaluate_def)
  next
    case (Inr m)
    then have "(\<forall>r \<in> set (ap_reviewers parties). eligible_reviewer (up_current_org_version p) (ap_submitter parties) r)
        \<and> distinct (map pt_user_id (ap_reviewers parties)) \<and> m = length (ap_reviewers parties)"
      by (simp add: review_loop_Inr_iff)
    with Inr req \<open>Required risk = Inr n\<close> show ?thesis by (auto simp: Evaluate_def)
  qed
qed

definition sample_submitter :: party where
  "sample_submitter = \<lparr>pt_user_id = ''alice'', pt_org_unit_id = ''team'', pt_org_path = [''root'', ''dept''], pt_org_version = 7\<rparr>"

definition sample_reviewer :: party where
  "sample_reviewer = \<lparr>pt_user_id = ''bob'', pt_org_unit_id = ''dept'', pt_org_path = [''root''], pt_org_version = 7\<rparr>"

theorem upward_review_accepts_iff_witness:
  "Evaluate \<lparr>up_current_org_version = 7\<rparr> \<lparr>ap_submitter = sample_submitter, ap_reviewers = [sample_reviewer]\<rparr> RiskLow = None
   \<and> Evaluate \<lparr>up_current_org_version = 7\<rparr> \<lparr>ap_submitter = sample_submitter, ap_reviewers = [sample_reviewer]\<rparr> RiskHigh \<noteq> None"
  by (simp add: upward_review_accepts_iff required_reviewers_def eligible_reviewer_def sample_submitter_def sample_reviewer_def)

end
