(* ===== verification/LeakGuard.thy ===== *)
theory LeakGuard
  imports GoText
begin

text \<open>
  The opaque-content guard of \<^verbatim>\<open>sdk/go/outcome/model.go\<close>: the forbidden-shape pattern
  \<open>connectorShapePattern\<close> and the search for it in a marshaled record (\<open>NoRawContentLeak\<close>).
  Patterns are matched over runes, with the search semantics of Go's \<open>regexp\<close> (does any match
  exist).  Every repetition of the pattern is over one character class, so a match is structural
  recursion over the text.  \<open>json.Marshal\<close> of a record is an argument: the text it returns, or no
  text where it fails.
\<close>

type_synonym rclass = "nat \<Rightarrow> bool"

datatype rx =
    Cls rclass
  | StarC rclass
  | UpTo nat rclass
  | Sq rx rx
  | Alt rx rx
  | WordB
  | Begin

type_synonym rx_cont = "nat option \<Rightarrow> nat list \<Rightarrow> bool"

fun star_match :: "rclass \<Rightarrow> rx_cont \<Rightarrow> nat option \<Rightarrow> nat list \<Rightarrow> bool" where
  "star_match p k pr [] = k pr []"
| "star_match p k pr (x # xs) = (k pr (x # xs) \<or> (p x \<and> star_match p k (Some x) xs))"

fun upto_match :: "nat \<Rightarrow> rclass \<Rightarrow> rx_cont \<Rightarrow> nat option \<Rightarrow> nat list \<Rightarrow> bool" where
  "upto_match 0 p k pr xs = k pr xs"
| "upto_match (Suc n) p k pr [] = k pr []"
| "upto_match (Suc n) p k pr (x # xs) =
     (k pr (x # xs) \<or> (p x \<and> upto_match n p k (Some x) xs))"

definition word_rune :: rclass where
  "word_rune x \<longleftrightarrow> (48 \<le> x \<and> x \<le> 57) \<or> (65 \<le> x \<and> x \<le> 90) \<or> (97 \<le> x \<and> x \<le> 122) \<or> x = 95"

definition is_word_opt :: "nat option \<Rightarrow> bool" where
  "is_word_opt o' = (case o' of None \<Rightarrow> False | Some x \<Rightarrow> word_rune x)"

definition next_rune :: "nat list \<Rightarrow> nat option" where
  "next_rune xs = (case xs of [] \<Rightarrow> None | x # _ \<Rightarrow> Some x)"

fun rx_match :: "rx \<Rightarrow> rx_cont \<Rightarrow> nat option \<Rightarrow> nat list \<Rightarrow> bool" where
  "rx_match (Cls p) k pr xs = (case xs of [] \<Rightarrow> False | x # xs' \<Rightarrow> p x \<and> k (Some x) xs')"
| "rx_match (StarC p) k pr xs = star_match p k pr xs"
| "rx_match (UpTo n p) k pr xs = upto_match n p k pr xs"
| "rx_match (Sq r s) k pr xs = rx_match r (rx_match s k) pr xs"
| "rx_match (Alt r s) k pr xs = (rx_match r k pr xs \<or> rx_match s k pr xs)"
| "rx_match WordB k pr xs = (is_word_opt pr \<noteq> is_word_opt (next_rune xs) \<and> k pr xs)"
| "rx_match Begin k pr xs = (pr = None \<and> k pr xs)"

fun rx_search :: "rx \<Rightarrow> nat option \<Rightarrow> nat list \<Rightarrow> bool" where
  "rx_search r pr [] = rx_match r (\<lambda>_ _. True) pr []"
| "rx_search r pr (x # xs) = (rx_match r (\<lambda>_ _. True) pr (x # xs) \<or> rx_search r (Some x) xs)"

subsection \<open>The forbidden shapes\<close>

text \<open>
  Case-insensitive literals: an ASCII letter also matches its other case, and \<open>s\<close> and \<open>k\<close> also
  match U+017F and U+212A, as simple folding in Go's \<open>regexp\<close> does.
\<close>

definition lower_rune :: "nat \<Rightarrow> nat" where
  "lower_rune x =
     (if 65 \<le> x \<and> x \<le> 90 then x + 32 else if x = 0x17F then 115 else if x = 0x212A then 107 else x)"

definition ci_rune :: "nat \<Rightarrow> rclass" where
  "ci_rune c x \<longleftrightarrow> lower_rune x = c"

definition alpha :: rclass where
  "alpha x \<longleftrightarrow> 97 \<le> lower_rune x \<and> lower_rune x \<le> 122"

definition digit_rune :: rclass where
  "digit_rune x \<longleftrightarrow> 48 \<le> x \<and> x \<le> 57"

definition space_rune :: rclass where
  "space_rune x \<longleftrightarrow> x = 9 \<or> x = 10 \<or> x = 12 \<or> x = 13 \<or> x = 32"

fun lit :: "string \<Rightarrow> rx \<Rightarrow> rx" where
  "lit [] r = r"
| "lit (c # cs) r = Sq (Cls (ci_rune (byte c))) (lit cs r)"

definition eps :: rx where
  "eps = UpTo 0 (\<lambda>_. False)"

definition backslash :: rx where
  "backslash = Cls (\<lambda>x. x = 92)"

definition boundary_or_escape :: rx where
  "boundary_or_escape =
     Alt WordB (Sq backslash (Cls (\<lambda>x. ci_rune 110 x \<or> ci_rune 114 x \<or> ci_rune 116 x)))"

definition rx_scheme :: rx where
  "rx_scheme =
     Sq (Cls alpha) (Sq (StarC (\<lambda>x. alpha x \<or> digit_rune x \<or> x = 43 \<or> x = 46 \<or> x = 45)) (lit ''://'' eps))"

definition rx_select_from :: rx where
  "rx_select_from =
     Sq boundary_or_escape (lit ''select'' (Sq WordB (Sq (UpTo 300 (\<lambda>_. True))
       (Sq boundary_or_escape (lit ''from'' WordB)))))"

definition rx_api :: rx where
  "rx_api = Sq (Alt Begin (Cls (\<lambda>x. \<not> (alpha x \<or> digit_rune x \<or> x = 95)))) (lit ''api/'' eps)"

definition assign :: "string \<Rightarrow> rx" where
  "assign name = lit name (Sq (StarC space_rune) (lit ''='' eps))"

definition rx_credential :: rx where
  "rx_credential = Sq WordB (Alt (assign ''user id'') (Alt (assign ''uid'') (assign ''pwd'')))"

definition rx_dsn :: rx where
  "rx_dsn =
     Sq WordB (Alt (assign ''data source'') (Alt (assign ''initial catalog'') (assign ''integrated security'')))"

definition rx_share :: rx where
  "rx_share =
     Sq backslash (Sq backslash (Sq (Cls (\<lambda>x. x \<noteq> 92)) (Sq (StarC (\<lambda>x. x \<noteq> 92)) (Sq backslash backslash))))"

definition rx_bearer :: rx where
  "rx_bearer = lit ''authorization:'' (Sq (StarC space_rune) (lit ''bearer'' eps))"

definition connectorShapePattern :: rx where
  "connectorShapePattern =
     Alt rx_scheme (Alt (lit ''jdbc:'' eps) (Alt rx_select_from (Alt (lit ''select*from'' eps)
       (Alt rx_api (Alt (assign ''password'') (Alt rx_credential (Alt rx_dsn
         (Alt rx_share rx_bearer))))))))"

definition leak_shape :: "string \<Rightarrow> bool" where
  "leak_shape raw = rx_search connectorShapePattern None (runes raw)"

datatype leak_err = ErrMarshal | ErrRawContentLeak

definition NoRawContentLeak :: "('a \<Rightarrow> string option) \<Rightarrow> 'a \<Rightarrow> leak_err option" where
  "NoRawContentLeak marshal v =
     (case marshal v of
        None \<Rightarrow> Some ErrMarshal
      | Some raw \<Rightarrow> if leak_shape raw then Some ErrRawContentLeak else None)"

subsection \<open>Lemmas\<close>

lemma rx_search_append:
  "rx_match r (\<lambda>_ _. True) (if xs = [] then pr else Some (last xs)) ys \<Longrightarrow> rx_search r pr (xs @ ys)"
proof (induction xs arbitrary: pr)
  case Nil
  then show ?case by (cases ys) simp_all
next
  case (Cons x xs)
  then show ?case by (cases "xs = []") auto
qed

lemma rx_match_mono:
  "(\<And>p zs. k p zs \<Longrightarrow> k' p zs) \<Longrightarrow> rx_match r k pr xs \<Longrightarrow> rx_match r k' pr xs"
proof (induction r arbitrary: k k' pr xs)
  case (Cls p)
  then show ?case by (auto split: list.splits)
next
  case (StarC p)
  have "star_match p k pr xs \<Longrightarrow> star_match p k' pr xs"
    using StarC.prems(1) by (induction p k pr xs rule: star_match.induct) auto
  with StarC.prems(2) show ?case by simp
next
  case (UpTo n p)
  have "upto_match n p k pr xs \<Longrightarrow> upto_match n p k' pr xs"
    using UpTo.prems(1) by (induction n p k pr xs rule: upto_match.induct) auto
  with UpTo.prems(2) show ?case by simp
next
  case (Sq r s)
  from Sq.prems have "rx_match r (rx_match s k) pr xs" by simp
  then have "rx_match r (rx_match s k') pr xs"
    by (rule Sq.IH(1) [rotated]) (rule Sq.IH(2) [OF Sq.prems(1)])
  then show ?case by simp
next
  case (Alt r s)
  then show ?case by (metis rx_match.simps(5))
qed auto

lemma rx_match_eps [simp]: "rx_match eps k pr xs = k pr xs"
  by (simp add: eps_def)

lemma rx_match_lit:
  "list_all2 (\<lambda>x c. ci_rune (byte c) x) us s \<Longrightarrow>
   rx_match r k (if us = [] then pr else Some (last us)) xs \<Longrightarrow> rx_match (lit s r) k pr (us @ xs)"
proof (induction us s arbitrary: pr rule: list_all2_induct)
  case Nil
  then show ?case by simp
next
  case (Cons u us c s)
  then show ?case by (cases "us = []") auto
qed

lemma leak_shape_alt:
  assumes "rx_match r (\<lambda>_ _. True) (if a = [] then None else Some (last a)) b"
    and "\<And>k pr xs. rx_match r k pr xs \<Longrightarrow> rx_match connectorShapePattern k pr xs"
  shows "rx_search connectorShapePattern None (a @ b)"
  by (rule rx_search_append) (rule assms(2) [OF assms(1)])


subsection \<open>What a match needs\<close>

text \<open>A text the guard refuses contains one of these words, in some letter case.\<close>

definition leak_words :: "string list" where
  "leak_words = [''://'', ''jdbc:'', ''select'', ''api/'', ''password'', ''user id'', ''uid'', ''pwd'', ''data source'',
     ''initial catalog'', ''integrated security'', [CHR 0x5C], ''authorization:'']"

fun starts_with :: "'a list \<Rightarrow> 'a list \<Rightarrow> bool" where
  "starts_with [] xs = True"
| "starts_with (w # ws) [] = False"
| "starts_with (w # ws) (x # xs) = (x = w \<and> starts_with ws xs)"

fun occurs :: "'a list \<Rightarrow> 'a list \<Rightarrow> bool" where
  "occurs w [] = (w = [])"
| "occurs w (x # xs) = (starts_with w (x # xs) \<or> occurs w xs)"

definition has_leak_word :: "nat list \<Rightarrow> bool" where
  "has_leak_word xs \<longleftrightarrow> list_ex (\<lambda>w. occurs (map byte w) (map lower_rune xs)) leak_words"

definition needs_word :: "rx \<Rightarrow> bool" where
  "needs_word r \<longleftrightarrow> (\<forall>k pr xs. rx_match r k pr xs \<longrightarrow> has_leak_word xs)"

lemma starts_with_occurs: "starts_with w xs \<Longrightarrow> occurs w xs"
  by (cases xs; cases w) simp_all

lemma occurs_append: "occurs w xs \<Longrightarrow> w \<noteq> [] \<Longrightarrow> occurs w (ys @ xs)"
  by (induction ys) auto

lemma has_leak_word_append: "has_leak_word xs \<Longrightarrow> has_leak_word (ys @ xs)"
  by (auto simp: has_leak_word_def leak_words_def intro: occurs_append)

lemma rx_match_suffix: "rx_match r k pr xs \<Longrightarrow> \<exists>pr' us ys. xs = us @ ys \<and> k pr' ys"
proof (induction r arbitrary: k pr xs)
  case (Cls p)
  then obtain x ys where "xs = [x] @ ys" "k (Some x) ys" by (auto split: list.splits)
  then show ?case by blast
next
  case (StarC p)
  have "star_match p k pr xs \<Longrightarrow> \<exists>pr' us ys. xs = us @ ys \<and> k pr' ys"
  proof (induction p k pr xs rule: star_match.induct)
    case (2 p k pr x xs)
    show ?case
    proof (cases "k pr (x # xs)")
      case False
      with 2 obtain pr' us ys where "xs = us @ ys" "k pr' ys" by auto
      then have "x # xs = (x # us) @ ys \<and> k pr' ys" by simp
      then show ?thesis by blast
    qed (metis append_Nil)
  qed auto
  with StarC show ?case by simp
next
  case (UpTo n p)
  have "upto_match n p k pr xs \<Longrightarrow> \<exists>pr' us ys. xs = us @ ys \<and> k pr' ys"
  proof (induction n p k pr xs rule: upto_match.induct)
    case (1 p k pr xs)
    then have "xs = [] @ xs \<and> k pr xs" by simp
    then show ?case by blast
  next
    case (3 n p k pr x xs)
    show ?case
    proof (cases "k pr (x # xs)")
      case False
      with 3 obtain pr' us ys where "xs = us @ ys" "k pr' ys" by auto
      then have "x # xs = (x # us) @ ys \<and> k pr' ys" by simp
      then show ?thesis by blast
    qed (metis append_Nil)
  qed auto
  with UpTo show ?case by simp
next
  case (Sq r s)
  from Sq.prems have "rx_match r (rx_match s k) pr xs" by simp
  from Sq.IH(1) [OF this] obtain pr' us ys where "xs = us @ ys" "rx_match s k pr' ys" by blast
  with Sq.IH(2) show ?case by (metis append.assoc)
next
  case (Alt r s)
  then show ?case by (metis rx_match.simps(5))
next
  case WordB
  then have "xs = [] @ xs \<and> k pr xs" by simp
  then show ?case by blast
next
  case Begin
  then have "xs = [] @ xs \<and> k pr xs" by auto
  then show ?case by blast
qed

lemma rx_lit_prefix: "rx_match (lit w r) k pr xs \<Longrightarrow> starts_with (map byte w) (map lower_rune xs)"
proof (induction w arbitrary: pr xs)
  case (Cons c w)
  then show ?case by (cases xs) (auto simp: ci_rune_def)
qed simp

lemma needs_lit: "w \<in> set leak_words \<Longrightarrow> needs_word (lit w r)"
  by (auto simp: needs_word_def has_leak_word_def list_ex_iff intro: starts_with_occurs dest: rx_lit_prefix)

lemma needs_assign: "w \<in> set leak_words \<Longrightarrow> needs_word (assign w)"
  by (simp add: assign_def needs_lit)

lemma needs_Sq_left: "needs_word r \<Longrightarrow> needs_word (Sq r s)"
  by (auto simp: needs_word_def)

lemma needs_Sq_right: "needs_word s \<Longrightarrow> needs_word (Sq r s)"
  using rx_match_suffix has_leak_word_append by (fastforce simp: needs_word_def)

lemma needs_Alt: "needs_word r \<Longrightarrow> needs_word s \<Longrightarrow> needs_word (Alt r s)"
  by (auto simp: needs_word_def)

lemma needs_backslash: "needs_word backslash"
  by (auto simp: needs_word_def backslash_def has_leak_word_def leak_words_def lower_rune_def byte_def split: list.splits)

lemma lit_take: "lit (u @ v) r = lit u (lit v r)"
  by (induction u) simp_all

lemma pattern_needs_word: "needs_word connectorShapePattern"
proof -
  have words: "w \<in> set leak_words"
    if "w \<in> {''://'', ''jdbc:'', ''select'', ''api/'', ''password'', ''user id'', ''uid'', ''pwd'', ''data source'',
     ''initial catalog'', ''integrated security'', ''authorization:''}" for w
    using that by (auto simp: leak_words_def)
  have star: "lit ''select*from'' eps = lit ''select'' (lit ''*from'' eps)"
    using lit_take [of "''select''" "''*from''" eps] by simp
  have "needs_word rx_scheme" unfolding rx_scheme_def by (intro needs_Sq_right needs_lit words) simp
  moreover have "needs_word rx_select_from" unfolding rx_select_from_def by (rule needs_Sq_right, rule needs_lit, rule words) simp
  moreover have "needs_word rx_api" unfolding rx_api_def by (intro needs_Sq_right needs_lit words) simp
  moreover have "needs_word rx_credential" unfolding rx_credential_def by (intro needs_Sq_right needs_Alt needs_assign words) simp_all
  moreover have "needs_word rx_dsn" unfolding rx_dsn_def by (intro needs_Sq_right needs_Alt needs_assign words) simp_all
  moreover have "needs_word rx_share" unfolding rx_share_def by (intro needs_Sq_left needs_backslash)
  moreover have "needs_word rx_bearer" unfolding rx_bearer_def by (rule needs_lit, rule words) simp
  moreover have "needs_word (lit ''jdbc:'' eps)" by (rule needs_lit, rule words) simp
  moreover have "needs_word (lit ''select*from'' eps)" unfolding star by (rule needs_lit, rule words) simp
  moreover have "needs_word (assign ''password'')" by (rule needs_assign, rule words) simp
  ultimately show ?thesis
    unfolding connectorShapePattern_def by (simp add: needs_Alt)
qed

text \<open>The guard raises no alarm on a text without any of the words.\<close>

lemma no_leak_word: "\<not> has_leak_word (runes raw) \<Longrightarrow> \<not> leak_shape raw"
proof -
  have "rx_search connectorShapePattern pr xs \<Longrightarrow> has_leak_word xs" for pr xs
  proof (induction connectorShapePattern pr xs rule: rx_search.induct)
    case (2 pr x xs)
    then show ?case
      using pattern_needs_word has_leak_word_append [of xs "[x]"] by (auto simp: needs_word_def)
  qed (use pattern_needs_word in \<open>auto simp: needs_word_def\<close>)
  then show "\<not> has_leak_word (runes raw) \<Longrightarrow> \<not> leak_shape raw" by (auto simp: leak_shape_def)
qed

end
