(* ===== verification/GoFloat.thy ===== *)
theory GoFloat
  imports Complex_Main Prelude
begin

text \<open>
  Go's \<open>float64\<close> as the source uses it: comparison with constants, a quotient of two machine
  integers and a difference.  A finite value is the rational it denotes; a computed result is
  rounded to 53 significant bits, ties to even.
\<close>

datatype f64 = Fin rat | NaN | PosInf | NegInf

fun f64_less :: "f64 \<Rightarrow> f64 \<Rightarrow> bool" where
  "f64_less (Fin a) (Fin b) = (a < b)"
| "f64_less (Fin a) PosInf = True"
| "f64_less NegInf (Fin b) = True"
| "f64_less NegInf PosInf = True"
| "f64_less _ _ = False"

definition round_half_even :: "rat \<Rightarrow> int" where
  "round_half_even x =
     (let f = \<lfloor>x\<rfloor>; d = x - of_int f
      in if d < 1 / 2 then f else if 1 / 2 < d then f + 1 else if even f then f else f + 1)"

fun bit_len :: "nat \<Rightarrow> nat" where
  "bit_len n = (if n = 0 then 0 else Suc (bit_len (n div 2)))"

declare bit_len.simps [simp del]

text \<open>The exponent of a positive rational: the greatest \<open>k\<close> with \<open>2 ^ k \<le> q\<close>.\<close>

definition pow2 :: "int \<Rightarrow> rat" where
  "pow2 k = (if 0 \<le> k then 2 ^ nat k else 1 / 2 ^ nat (- k))"

definition ilog2 :: "rat \<Rightarrow> int" where
  "ilog2 q =
     (let (n, d) = quotient_of q; k = int (bit_len (nat n)) - int (bit_len (nat d))
      in if pow2 k \<le> q then k else k - 1)"

definition f64_ulp :: "rat \<Rightarrow> int" where
  "f64_ulp q = max (ilog2 q - 52) (- 1074)"

text \<open>The nearest double of a rational in the unit interval (the only range the source rounds in).\<close>

definition f64_round :: "rat \<Rightarrow> rat" where
  "f64_round q =
     (if q = 0 then 0
      else let e = min (f64_ulp \<bar>q\<bar>) 0 in sgn q * of_int (round_half_even (\<bar>q\<bar> / pow2 e)) * pow2 e)"

definition f64_div_int :: "int \<Rightarrow> int \<Rightarrow> rat" where
  "f64_div_int n d = f64_round (of_int n / of_int d)"

lemma pow2_pos [simp]: "0 < pow2 k"
  by (simp add: pow2_def)

lemma pow2_nonzero [simp]: "pow2 k \<noteq> 0"
  by (simp add: pow2_def)

lemma round_half_even_nonneg: "0 \<le> x \<Longrightarrow> 0 \<le> round_half_even x"
  by (auto simp: round_half_even_def Let_def)

lemma round_half_even_le_int: "x \<le> of_int n \<Longrightarrow> round_half_even x \<le> n"
proof -
  assume le: "x \<le> of_int n"
  show ?thesis
  proof (cases "\<lfloor>x\<rfloor> < n")
    case True
    then show ?thesis by (auto simp: round_half_even_def Let_def)
  next
    case False
    with le have "\<lfloor>x\<rfloor> = n" and "x = of_int n"
      using of_int_floor_le [of x] le floor_mono [OF le] by (linarith, simp)
        (metis False floor_of_int floor_mono le le_less_linear nle_le of_int_floor_le order.trans of_int_le_iff)
    then show ?thesis by (simp add: round_half_even_def Let_def)
  qed
qed

lemma round_half_even_of_int [simp]: "round_half_even (of_int n) = n"
  by (simp add: round_half_even_def Let_def)

lemma f64_round_0 [simp]: "f64_round 0 = 0"
  by (simp add: f64_round_def)

lemma f64_round_nonneg: "0 \<le> q \<Longrightarrow> 0 \<le> f64_round q"
  by (auto simp: f64_round_def Let_def round_half_even_nonneg less_imp_le)

lemma inverse_pow2_int: "e \<le> 0 \<Longrightarrow> 1 / pow2 e = of_int (2 ^ nat (- e))"
  by (cases "e = 0") (auto simp: pow2_def)

lemma f64_round_le_1:
  assumes "0 \<le> q" and "q \<le> 1"
  shows "f64_round q \<le> 1"
proof (cases "q = 0")
  case True
  then show ?thesis by simp
next
  case False
  define e where "e = min (f64_ulp \<bar>q\<bar>) 0"
  have e: "e \<le> 0" by (simp add: e_def)
  have "\<bar>q\<bar> / pow2 e \<le> 1 / pow2 e"
    using assms by (simp add: divide_right_mono less_imp_le)
  then have "\<bar>q\<bar> / pow2 e \<le> of_int (2 ^ nat (- e))"
    by (simp only: inverse_pow2_int [OF e])
  then have "round_half_even (\<bar>q\<bar> / pow2 e) \<le> 2 ^ nat (- e)"
    by (rule round_half_even_le_int)
  then have "(of_int (round_half_even (\<bar>q\<bar> / pow2 e)) :: rat) \<le> of_int (2 ^ nat (- e))"
    by (simp only: of_int_le_iff)
  also have "\<dots> = 1 / pow2 e" by (rule inverse_pow2_int [OF e, symmetric])
  finally have "of_int (round_half_even (\<bar>q\<bar> / pow2 e)) * pow2 e \<le> (1 / pow2 e) * pow2 e"
    by (rule mult_right_mono) (simp add: less_imp_le)
  then show ?thesis
    using False assms by (simp add: f64_round_def Let_def e_def)
qed

lemma f64_round_1 [simp]: "f64_round 1 = 1"
proof -
  define e where "e = min (f64_ulp 1) 0"
  have e: "e \<le> 0" by (simp add: e_def)
  have "round_half_even (1 / pow2 e) = 2 ^ nat (- e)"
    by (simp only: inverse_pow2_int [OF e] round_half_even_of_int)
  moreover have "of_int (2 ^ nat (- e)) * pow2 e = (1 / pow2 e) * pow2 e"
    by (simp only: inverse_pow2_int [OF e])
  ultimately show ?thesis
    by (simp add: f64_round_def Let_def e_def)
qed

end
