(* ===== verification/GoJson.thy ===== *)
theory GoJson
  imports LeakGuard GoFloat
begin

text \<open>
  The output of \<open>json.Marshal\<close> for the records the source marshals: objects with their fields in
  order, arrays, strings with Go's escaping (HTML characters, control characters, U+2028/2029 and
  invalid UTF-8), integers.  The digits of a \<open>float64\<close> and of a \<open>time.Time\<close> are arguments
  (\<open>json_fmt\<close>); they give no text where \<open>Marshal\<close> fails (NaN, infinities, years past 9999).  A value
  that fails makes the whole document fail.

  \<open>leaks_secret\<close> says, of a field as it is before marshaling, which connector, query and credential
  shapes it holds; it names one shape for each alternative of the guard's pattern and does not mention
  the pattern.  The lemmas show that a marshaled document holding such a field anywhere matches, so the
  escaping never hides it.
\<close>

record json_fmt =
  jf_float :: "f64 \<Rightarrow> string option"
  jf_time :: "go_time \<Rightarrow> string option"

definition hex_char :: "nat \<Rightarrow> char" where
  "hex_char d = (if d < 10 then char_of (48 + d) else char_of (87 + d))"

definition json_escape_byte :: "char \<Rightarrow> string" where
  "json_escape_byte c =
     (if c = CHR 0x22 \<or> c = CHR 0x5C then [CHR 0x5C, c]
      else if byte c = 8 then [CHR 0x5C, CHR ''b'']
      else if byte c = 12 then [CHR 0x5C, CHR ''f'']
      else if byte c = 10 then [CHR 0x5C, CHR ''n'']
      else if byte c = 13 then [CHR 0x5C, CHR ''r'']
      else if byte c = 9 then [CHR 0x5C, CHR ''t'']
      else if byte c < 32 \<or> c = CHR ''<'' \<or> c = CHR ''>'' \<or> c = CHR ''&''
      then CHR 0x5C # ''u00'' @ [hex_char (byte c div 16), hex_char (byte c mod 16)]
      else [c])"

definition json_escape_rune :: "string \<Rightarrow> string" where
  "json_escape_rune r =
     (case r of
        [c] \<Rightarrow> if byte c < 128 then json_escape_byte c else CHR 0x5C # ''ufffd''
      | _ \<Rightarrow> if r = [CHR 0xE2, CHR 0x80, CHR 0xA8] then CHR 0x5C # ''u2028''
             else if r = [CHR 0xE2, CHR 0x80, CHR 0xA9] then CHR 0x5C # ''u2029''
             else r)"

function json_escape :: "string \<Rightarrow> string" where
  "json_escape [] = []"
| "json_escape (c # cs) =
     json_escape_rune (take (rune_width (c # cs)) (c # cs)) @ json_escape (drop (rune_width (c # cs)) (c # cs))"
  by pat_completeness auto
termination
proof (relation "measure length", goal_cases)
  case 1
  then show ?case by simp
next
  case (2 c cs)
  then show ?case using rune_width_pos [of c cs] by (simp del: rune_width.simps)
qed

declare json_escape.simps(2) [simp del]

definition json_quote :: "string \<Rightarrow> string" where
  "json_quote s = CHR 0x22 # json_escape s @ [CHR 0x22]"

fun json_join :: "string list \<Rightarrow> string" where
  "json_join [] = []"
| "json_join [t] = t"
| "json_join (t # ts) = t @ CHR '','' # json_join ts"

fun all_texts :: "string option list \<Rightarrow> string list option" where
  "all_texts [] = Some []"
| "all_texts (t # ts) =
     (case t of None \<Rightarrow> None | Some x \<Rightarrow> (case all_texts ts of None \<Rightarrow> None | Some xs \<Rightarrow> Some (x # xs)))"

definition json_str :: "string \<Rightarrow> string option" where
  "json_str s = Some (json_quote s)"

definition json_uint :: "uint64 \<Rightarrow> string option" where
  "json_uint n = Some (format_uint n)"

definition json_int :: "int \<Rightarrow> string option" where
  "json_int n = Some (format_int n)"

definition json_arr :: "string option list \<Rightarrow> string option" where
  "json_arr ts = map_option (\<lambda>xs. CHR ''['' # json_join xs @ '']'') (all_texts ts)"

definition json_field :: "string \<times> string option \<Rightarrow> string option" where
  "json_field f = map_option (\<lambda>t. json_quote (fst f) @ CHR '':'' # t) (snd f)"

definition json_obj :: "(string \<times> string option) list \<Rightarrow> string option" where
  "json_obj fs = map_option (\<lambda>xs. CHR ''{'' # json_join xs @ ''}'') (all_texts (map json_field fs))"

text \<open>A field with \<open>omitempty\<close>.\<close>

definition json_omit :: "bool \<Rightarrow> string \<Rightarrow> string option \<Rightarrow> (string \<times> string option) list" where
  "json_omit absent k t = (if absent then [] else [(k, t)])"

subsection \<open>Runes and escapes at an ASCII byte\<close>

lemma rune_width_append:
  assumes "byte d < 128" and "u \<noteq> []"
  shows "rune_width (u @ d # v) = rune_width u"
proof -
  have d: "\<not> byte_in 0x80 0xBF d" "\<not> byte_in 0xA0 0xBF d" "\<not> byte_in 0x90 0xBF d" "\<not> byte_in 0x80 0x9F d" "\<not> byte_in 0x80 0x8F d"
    using assms(1) by (auto simp: byte_in_def)
  from assms(2) obtain c cs where u: "u = c # cs" by (cases u) auto
  show ?thesis
  proof (cases cs)
    case Nil
    with u d show ?thesis by (auto simp: Let_def split: list.splits)
  next
    case (Cons c1 cs')
    show ?thesis
    proof (cases cs')
      case Nil
      with Cons u d show ?thesis by (auto simp: Let_def split: list.splits)
    next
      case (Cons c2 cs'')
      with \<open>cs = c1 # cs'\<close> u d show ?thesis by (cases cs'') (auto simp: Let_def split: list.splits)
    qed
  qed
qed

lemma json_escape_eq:
  "s \<noteq> [] \<Longrightarrow> json_escape s = json_escape_rune (take (rune_width s) s) @ json_escape (drop (rune_width s) s)"
  by (cases s) (simp_all add: json_escape.simps(2) del: rune_width.simps)

lemma runes_eq: "s \<noteq> [] \<Longrightarrow> runes s = rune_value (take (rune_width s) s) # runes (drop (rune_width s) s)"
  by (cases s) (simp_all add: runes.simps(2) del: rune_width.simps)

lemma rune_width_Suc: "s \<noteq> [] \<Longrightarrow> 0 < rune_width s"
  using rune_width_pos by (cases s) (simp_all del: rune_width.simps)

lemma json_escape_append:
  assumes "byte d < 128"
  shows "json_escape (u @ d # v) = json_escape u @ json_escape (d # v)"
proof (induction u rule: measure_induct_rule [of length])
  case (less u)
  show ?case
  proof (cases "u = []")
    case False
    with less.IH [of "drop (rune_width u) u"] rune_width_Suc [OF False] show ?thesis
      by (simp add: json_escape_eq [of u] json_escape_eq [of "u @ d # v"] rune_width_append [OF assms False]
          rune_width_le_length)
  qed simp
qed

lemma runes_append:
  assumes "byte d < 128"
  shows "runes (u @ d # v) = runes u @ runes (d # v)"
proof (induction u rule: measure_induct_rule [of length])
  case (less u)
  show ?case
  proof (cases "u = []")
    case False
    with less.IH [of "drop (rune_width u) u"] rune_width_Suc [OF False] show ?thesis
      by (simp add: runes_eq [of u] runes_eq [of "u @ d # v"] rune_width_append [OF assms False]
          rune_width_le_length)
  qed simp
qed

subsection \<open>Secrets the guard finds\<close>

definition lower_byte :: "char \<Rightarrow> char" where
  "lower_byte c = (if 65 \<le> byte c \<and> byte c \<le> 90 then char_of (byte c + 32) else c)"

text \<open>The text starts with a word, in any letter case.\<close>

definition starts_word :: "string \<Rightarrow> string \<Rightarrow> bool" where
  "starts_word w t \<longleftrightarrow> take (length w) (map lower_byte t) = w"

definition skip_blanks :: "string \<Rightarrow> string" where
  "skip_blanks t = dropWhile (\<lambda>c. c = CHR '' '') t"

text \<open>
  What ends a word.  Printable punctuation does, on both sides.  The escapes of \<open>json.Marshal\<close> matter on the
  left: \<open><\<close>, \<open>>\<close> and \<open>&\<close> end in a hex digit there, a line break or tab in a letter, which only the
  pattern for queries allows for.
\<close>

definition separator :: "char \<Rightarrow> bool" where
  "separator c \<longleftrightarrow> 32 \<le> byte c \<and> byte c < 128 \<and> \<not> word_rune (byte c) \<and> c \<notin> {CHR ''<'', CHR ''>'', CHR ''&''}"

definition line_break :: "char \<Rightarrow> bool" where
  "line_break c \<longleftrightarrow> byte c = 10 \<or> byte c = 13 \<or> byte c = 9"

definition word_start :: "string \<Rightarrow> bool" where
  "word_start u \<longleftrightarrow> u = [] \<or> separator (last u)"

definition query_start :: "string \<Rightarrow> bool" where
  "query_start u \<longleftrightarrow> u = [] \<or> separator (last u) \<or> line_break (last u)"

definition word_end :: "string \<Rightarrow> bool" where
  "word_end v \<longleftrightarrow> v = [] \<or> (byte (hd v) < 128 \<and> \<not> word_rune (byte (hd v)))"

definition splits :: "'a list \<Rightarrow> ('a list \<times> 'a list) list" where
  "splits s = map (\<lambda>i. (take i s, drop i s)) [0..<Suc (length s)]"

definition plain :: "char \<Rightarrow> bool" where
  "plain c \<longleftrightarrow> byte c < 128 \<and> json_escape_byte c = [c]"

definition letter :: "char \<Rightarrow> bool" where
  "letter c \<longleftrightarrow> 97 \<le> byte (lower_byte c) \<and> byte (lower_byte c) \<le> 122"

definition scheme_char :: "char \<Rightarrow> bool" where
  "scheme_char c \<longleftrightarrow> letter c \<or> digit_rune (byte c) \<or> c \<in> {CHR ''+'', CHR ''.'', CHR ''-''}"

definition url_shape :: "string \<Rightarrow> bool" where
  "url_shape t \<longleftrightarrow> t \<noteq> [] \<and> letter (hd t)
     \<and> starts_word ''://'' (dropWhile scheme_char (tl t))"

definition query_shape :: "string \<Rightarrow> string \<Rightarrow> bool" where
  "query_shape u t \<longleftrightarrow> query_start u \<and> starts_word ''select'' t \<and> word_end (drop 6 t)
     \<and> list_ex (\<lambda>(m, r). m \<noteq> [] \<and> query_start m \<and> length (json_escape m) \<le> 300
                    \<and> starts_word ''from'' r \<and> word_end (drop 4 r)) (splits (drop 6 t))"

definition assigns :: "string \<Rightarrow> string \<Rightarrow> bool" where
  "assigns name t \<longleftrightarrow> starts_word name t \<and> starts_word ''='' (skip_blanks (drop (length name) t))"

definition share_shape :: "string \<Rightarrow> bool" where
  "share_shape t \<longleftrightarrow> starts_word [CHR 0x5C] t \<and> tl t \<noteq> [] \<and> plain (hd (tl t))
     \<and> starts_word [CHR 0x5C] (dropWhile plain (tl t))"

text \<open>A shape at a place of a field: \<open>u\<close> is what comes before it, \<open>t\<close> the rest.\<close>

definition secret_at :: "string \<Rightarrow> string \<Rightarrow> bool" where
  "secret_at u t \<longleftrightarrow>
     url_shape t
   \<or> starts_word ''jdbc:'' t
   \<or> query_shape u t
   \<or> starts_word ''select*from'' t
   \<or> word_start u \<and> starts_word ''api/'' t
   \<or> assigns ''password'' t
   \<or> word_start u \<and> list_ex (\<lambda>n. assigns n t) [''user id'', ''uid'', ''pwd'']
   \<or> word_start u \<and> list_ex (\<lambda>n. assigns n t) [''data source'', ''initial catalog'', ''integrated security'']
   \<or> share_shape t
   \<or> starts_word ''authorization:'' t \<and> starts_word ''bearer'' (skip_blanks (drop 14 t))"

definition leaks_secret :: "string \<Rightarrow> bool" where
  "leaks_secret s \<longleftrightarrow> list_ex (\<lambda>(u, t). secret_at u t) (splits s)"

lemma splits_append: "(u, t) \<in> set (splits s) \<Longrightarrow> s = u @ t"
  by (auto simp: splits_def)

lemma plain_escape: "\<forall>c \<in> set w. plain c \<Longrightarrow> json_escape (w @ v) = w @ json_escape v"
proof (induction w)
  case (Cons c w)
  then show ?case
    by (simp add: json_escape.simps(2) rune_width_ascii plain_def json_escape_rune_def del: rune_width.simps)
qed simp

lemma escape_ascii: "byte c < 128 \<Longrightarrow> json_escape (c # v) = json_escape_byte c @ json_escape v"
  by (simp add: json_escape.simps(2) rune_width_ascii json_escape_rune_def del: rune_width.simps)

lemma ascii_runes: "\<forall>c \<in> set w. byte c < 128 \<Longrightarrow> runes (w @ v) = map byte w @ runes v"
  by (induction w) simp_all

lemma plain_ascii: "\<forall>c \<in> set w. plain c \<Longrightarrow> \<forall>c \<in> set w. byte c < 128"
  by (simp add: plain_def)

lemma byte_less: "byte c < 256"
  unfolding byte_def by (metis of_char_mod_256 mod_less_divisor zero_less_numeral)

lemma lower_byte_rune: "lower_rune (byte c) = byte (lower_byte c)"
proof -
  have r: "lower_rune (byte c) = (if 65 \<le> byte c \<and> byte c \<le> 90 then byte c + 32 else byte c)"
    using byte_less [of c] by (auto simp: lower_rune_def)
  show ?thesis by (subst r) (auto simp: lower_byte_def byte_def)
qed

lemma upper_plain: "65 \<le> byte c \<Longrightarrow> byte c \<le> 90 \<Longrightarrow> plain c"
  by (auto simp: plain_def json_escape_byte_def byte_def)

lemma lower_byte_plain: "plain (lower_byte c) \<Longrightarrow> plain c"
  by (cases "65 \<le> byte c \<and> byte c \<le> 90") (auto simp: lower_byte_def intro: upper_plain)

text \<open>A word the field starts with, in the field's own letters.\<close>

lemma starts_wordE:
  assumes "starts_word w t"
  obtains w' where "t = w' @ drop (length w) t" "map lower_byte w' = w" "length w' = length w"
    "list_all2 (\<lambda>x c. ci_rune (byte c) x) (map byte w') w"
proof -
  let ?w = "take (length w) t"
  have low: "map lower_byte ?w = w" using assms by (simp add: starts_word_def take_map)
  then have "length ?w = length w" by (metis length_map)
  moreover have "list_all2 (\<lambda>x c. ci_rune (byte c) x) (map byte ?w) (map lower_byte ?w)"
    by (simp add: list_all2_conv_all_nth ci_rune_def lower_byte_rune)
  ultimately show thesis using that [of ?w] low by simp
qed

lemma word_plain: "map lower_byte w' = w \<Longrightarrow> \<forall>c \<in> set w. plain c \<Longrightarrow> \<forall>c \<in> set w'. plain c"
  using lower_byte_plain by (metis imageI image_set)

lemma byte_eq_iff: "byte c = byte d \<longleftrightarrow> c = d"
  by (simp add: byte_def)

text \<open>The document around a field: what comes before a place of the field, and what follows it.\<close>

definition doc_left :: "string \<Rightarrow> string \<Rightarrow> nat list" where
  "doc_left p u = runes (p @ CHR 0x22 # json_escape u)"

definition doc_right :: "string \<Rightarrow> string \<Rightarrow> nat list" where
  "doc_right v q = runes (json_escape v @ CHR 0x22 # q)"

lemma quote_ascii [simp]: "byte CHR 0x22 = 34"
  by (simp add: byte_def)

lemma escape_byte_head:
  assumes "byte c < 128"
  obtains d ds where "json_escape_byte c = d # ds" "byte d < 128" "d = c \<or> byte d = 92"
proof -
  have b: "byte CHR 0x5C = 92" by (simp add: byte_def)
  show thesis
  proof (cases "json_escape_byte c = [c]")
    case False
    then have "\<exists>ds. json_escape_byte c = CHR 0x5C # ds" by (simp add: json_escape_byte_def split: if_splits)
    then show thesis using that b by auto
  qed (use that assms in simp)
qed

lemma doc_split:
  assumes "byte c < 128"
  shows "runes (p @ json_quote (u @ c # t) @ q) = doc_left p u @ doc_right (c # t) q"
proof -
  have e: "json_escape (u @ c # t) = json_escape u @ json_escape_byte c @ json_escape t"
    using json_escape_append [OF assms, of u t] escape_ascii [OF assms] by simp
  obtain d ds where d: "json_escape_byte c = d # ds" "byte d < 128" by (rule escape_byte_head [OF assms])
  have "runes (p @ json_quote (u @ c # t) @ q)
      = runes ((p @ CHR 0x22 # json_escape u) @ d # (ds @ json_escape t @ CHR 0x22 # q))"
    by (simp add: json_quote_def e d(1))
  also have "\<dots> = doc_left p u @ runes (d # (ds @ json_escape t @ CHR 0x22 # q))"
    unfolding doc_left_def by (rule runes_append [OF d(2)])
  finally show ?thesis by (simp add: doc_right_def escape_ascii [OF assms] d(1))
qed

lemma doc_right_plain: "\<forall>c \<in> set w. plain c \<Longrightarrow> doc_right (w @ v) q = map byte w @ doc_right v q"
  by (simp add: doc_right_def plain_escape ascii_runes plain_ascii)

lemma doc_right_end: "word_end v \<Longrightarrow> \<not> is_word_opt (next_rune (doc_right v q))"
proof (cases v)
  case Nil
  then show ?thesis by (simp add: doc_right_def next_rune_def is_word_opt_def word_rune_def)
next
  case (Cons c v')
  assume "word_end v"
  with Cons have c: "byte c < 128" "\<not> word_rune (byte c)" by (simp_all add: word_end_def)
  obtain d ds where d: "json_escape_byte c = d # ds" "byte d < 128" "d = c \<or> byte d = 92" by (rule escape_byte_head [OF c(1)])
  then have "\<not> word_rune (byte d)" using c(2) by (auto simp: word_rune_def)
  then show ?thesis using Cons c(1) d by (simp add: doc_right_def escape_ascii next_rune_def is_word_opt_def)
qed

lemma doc_left_nonempty: "doc_left p u = runes p @ 34 # runes (json_escape u)"
  using runes_append [of "CHR 0x22" p "json_escape u"] by (simp add: doc_left_def)

text \<open>How the escaped text before a place ends.\<close>

lemma left_edge:
  assumes "query_start u"
  obtains a z where "34 # runes (json_escape u) = a @ z" "a \<noteq> []"
    "z = [] \<and> \<not> word_rune (last a) \<or> (\<exists>x. z = [92, x] \<and> x \<in> {110, 114, 116})" "separator (last u) \<or> u = [] \<longrightarrow> z = [] \<and> last a < 128"
proof (cases u rule: rev_cases)
  case Nil
  then show ?thesis using that [of "[34]" "[]"] by (simp add: word_rune_def)
next
  case (snoc u' c)
  have c: "byte c < 128" using assms snoc by (auto simp: query_start_def separator_def line_break_def)
  have e: "json_escape u = json_escape u' @ json_escape_byte c"
    using json_escape_append [OF c, of u' "[]"] escape_ascii [OF c, of "[]"] snoc by simp
  show ?thesis
  proof (cases "separator c")
    case True
    then have "last (json_escape_byte c) = c" "json_escape_byte c \<noteq> []"
      by (auto simp: separator_def json_escape_byte_def byte_def)
    then obtain x where x: "json_escape_byte c = x @ [c]" by (metis append_butlast_last_id)
    have "runes (json_escape u) = runes (json_escape u' @ x) @ [byte c]"
      using runes_append [OF c, of "json_escape u' @ x" "[]"] c by (simp add: e x)
    then show ?thesis
      using that [of "34 # runes (json_escape u)" "[]"] True c by (simp add: separator_def)
  next
    case False
    then have "line_break c" using assms snoc by (simp add: query_start_def)
    then have "c \<noteq> CHR 0x22 \<and> c \<noteq> CHR 0x5C" by (auto simp: line_break_def byte_def)
    with \<open>line_break c\<close> have "json_escape_byte c \<in> {[CHR 0x5C, CHR ''n''], [CHR 0x5C, CHR ''r''], [CHR 0x5C, CHR ''t'']}"
      by (auto simp: line_break_def json_escape_byte_def)
    moreover have "byte CHR ''n'' = 110" "byte CHR ''r'' = 114" "byte CHR ''t'' = 116" by (simp_all add: byte_def)
    ultimately obtain x where x: "json_escape_byte c = [CHR 0x5C, x]" "byte x \<in> {110, 114, 116}" by auto
    have "runes (json_escape u) = runes (json_escape u') @ [92, byte x]"
      using runes_append [of "CHR 0x5C" "json_escape u'" "[x]"] x by (auto simp: e byte_def)
    then show ?thesis using that [of "34 # runes (json_escape u')" "[92, byte x]"] x False snoc by simp
  qed
qed

lemma left_word:
  assumes "word_start u"
  shows "\<not> is_word_opt (Some (last (doc_left p u))) \<and> doc_left p u \<noteq> [] \<and> last (doc_left p u) < 128"
proof -
  have "query_start u" using assms by (auto simp: word_start_def query_start_def)
  then obtain a z where "34 # runes (json_escape u) = a @ z" "a \<noteq> []" "\<not> word_rune (last a)" "z = []" "last a < 128"
    by (rule left_edge) (use assms in \<open>auto simp: word_start_def\<close>)
  then show ?thesis by (simp add: doc_left_nonempty is_word_opt_def)
qed

text \<open>Matches of the pieces of the pattern.\<close>

lemma star_run:
  "\<forall>x \<in> set us. p x \<Longrightarrow> k (if us = [] then pr else Some (last us)) ys \<Longrightarrow> star_match p k pr (us @ ys)"
proof (induction us arbitrary: pr)
  case Nil
  then show ?case by (cases ys) simp_all
next
  case (Cons u us)
  then show ?case by (cases "us = []") auto
qed

lemma upto_run:
  "length us \<le> n \<Longrightarrow> k (if us = [] then pr else Some (last us)) ys \<Longrightarrow> upto_match n (\<lambda>_. True) k pr (us @ ys)"
proof (induction us arbitrary: pr n)
  case Nil
  then show ?case by (cases n; cases ys) simp_all
next
  case (Cons u us)
  then obtain m where "n = Suc m" by (cases n) simp_all
  with Cons show ?case by (cases "us = []") auto
qed

text \<open>A word somewhere in a field is found by an alternative that is that word.\<close>

lemma found:
  assumes "byte c < 128"
    and "rx_match r (\<lambda>_ _. True) (Some (last (doc_left p u))) (doc_right (c # t) q)"
    and "\<And>k pr xs. rx_match r k pr xs \<Longrightarrow> rx_match connectorShapePattern k pr xs"
  shows "leak_shape (p @ json_quote (u @ c # t) @ q)"
proof -
  have "doc_left p u \<noteq> []" by (simp add: doc_left_nonempty)
  then show ?thesis
    using leak_shape_alt [of r "doc_left p u" "doc_right (c # t) q"] assms by (simp add: leak_shape_def doc_split)
qed

lemma lit_at:
  assumes "starts_word w t" and "\<forall>c \<in> set w. plain c" and "w \<noteq> []"
    and "\<And>pr. rx_match r k pr (doc_right (drop (length w) t) q)"
  shows "rx_match (lit w r) k pr (doc_right t q)"
proof -
  obtain w' where w': "t = w' @ drop (length w) t" "map lower_byte w' = w"
      "list_all2 (\<lambda>x c. ci_rune (byte c) x) (map byte w') w"
    by (rule starts_wordE [OF assms(1)])
  have "doc_right t q = map byte w' @ doc_right (drop (length w) t) q"
    using doc_right_plain [OF word_plain [OF w'(2) assms(2)], of "drop (length w) t" q] w'(1) by simp
  then show ?thesis using rx_match_lit [OF w'(3), of r k pr] assms(4) by simp
qed

lemma takeWhile_all: "\<forall>x \<in> set (takeWhile P xs). P x"
  by (auto dest: set_takeWhileD)

lemma blanks_at:
  assumes "\<And>pr. k pr (doc_right (skip_blanks t) q)"
  shows "star_match space_rune k pr (doc_right t q)"
proof -
  let ?sp = "takeWhile (\<lambda>c. c = CHR '' '') t"
  have sp: "c = CHR '' ''" if "c \<in> set ?sp" for c
    using set_takeWhileD [OF that] by simp
  have "plain CHR '' ''" by (simp add: plain_def json_escape_byte_def byte_def)
  with sp have "\<forall>c \<in> set ?sp. plain c" by blast
  from doc_right_plain [OF this, of "skip_blanks t" q] have "doc_right t q = map byte ?sp @ doc_right (skip_blanks t) q"
    by (simp add: skip_blanks_def)
  moreover have "\<forall>x \<in> set (map byte ?sp). space_rune x"
  proof
    fix x
    assume "x \<in> set (map byte ?sp)"
    then obtain c where "c \<in> set ?sp" "x = byte c" by auto
    with sp [of c] show "space_rune x" by (simp add: space_rune_def byte_def)
  qed
  ultimately show ?thesis using assms by (simp only: star_run)
qed

lemmas plain_eval = plain_def json_escape_byte_def byte_def

text \<open>The alternatives of the pattern.\<close>

lemma alternatives:
  "rx_match rx_scheme k pr xs \<Longrightarrow> rx_match connectorShapePattern k pr xs"
  "rx_match (lit ''jdbc:'' eps) k pr xs \<Longrightarrow> rx_match connectorShapePattern k pr xs"
  "rx_match rx_select_from k pr xs \<Longrightarrow> rx_match connectorShapePattern k pr xs"
  "rx_match (lit ''select*from'' eps) k pr xs \<Longrightarrow> rx_match connectorShapePattern k pr xs"
  "rx_match rx_api k pr xs \<Longrightarrow> rx_match connectorShapePattern k pr xs"
  "rx_match (assign ''password'') k pr xs \<Longrightarrow> rx_match connectorShapePattern k pr xs"
  "rx_match rx_credential k pr xs \<Longrightarrow> rx_match connectorShapePattern k pr xs"
  "rx_match rx_dsn k pr xs \<Longrightarrow> rx_match connectorShapePattern k pr xs"
  "rx_match rx_share k pr xs \<Longrightarrow> rx_match connectorShapePattern k pr xs"
  "rx_match rx_bearer k pr xs \<Longrightarrow> rx_match connectorShapePattern k pr xs"
  by (simp_all only: connectorShapePattern_def rx_match.simps(5) simp_thms)

lemma credential_alternatives:
  "rx_match (Sq WordB (assign ''user id'')) k pr xs \<Longrightarrow> rx_match rx_credential k pr xs"
  "rx_match (Sq WordB (assign ''uid'')) k pr xs \<Longrightarrow> rx_match rx_credential k pr xs"
  "rx_match (Sq WordB (assign ''pwd'')) k pr xs \<Longrightarrow> rx_match rx_credential k pr xs"
  by (simp_all only: rx_credential_def rx_match.simps(4-6) simp_thms)

lemma dsn_alternatives:
  "rx_match (Sq WordB (assign ''data source'')) k pr xs \<Longrightarrow> rx_match rx_dsn k pr xs"
  "rx_match (Sq WordB (assign ''initial catalog'')) k pr xs \<Longrightarrow> rx_match rx_dsn k pr xs"
  "rx_match (Sq WordB (assign ''integrated security'')) k pr xs \<Longrightarrow> rx_match rx_dsn k pr xs"
  by (simp_all only: rx_dsn_def rx_match.simps(4-6) simp_thms)

lemma assign_at:
  assumes "assigns name t" and "\<forall>c \<in> set name. plain c" and "name \<noteq> []"
  shows "rx_match (assign name) (\<lambda>_ _. True) pr (doc_right t q)"
  unfolding assign_def
proof (rule lit_at [OF _ assms(2,3)])
  fix pr
  have eq: "starts_word ''='' (skip_blanks (drop (length name) t))" using assms(1) by (simp add: assigns_def)
  have "rx_match (lit ''='' eps) (\<lambda>_ _. True) pr' (doc_right (skip_blanks (drop (length name) t)) q)" for pr'
    by (rule lit_at [OF eq]) (simp_all add: plain_eval)
  then show "rx_match (Sq (StarC space_rune) (lit ''='' eps)) (\<lambda>_ _. True) pr (doc_right (drop (length name) t) q)"
    by (simp del: lit.simps add: blanks_at)
qed (use assms(1) in \<open>simp add: assigns_def\<close>)

lemma starts_ascii:
  assumes "starts_word w t" and "w \<noteq> []" and "\<forall>c \<in> set w. plain c"
  obtains c t' where "t = c # t'" "byte c < 128"
proof -
  obtain w' where w': "t = w' @ drop (length w) t" "map lower_byte w' = w"
    by (rule starts_wordE [OF assms(1)])
  moreover obtain c cs where "w' = c # cs" using w'(2) assms(2) by (cases w') auto
  moreover have "byte c < 128" using plain_ascii [OF word_plain [OF w'(2) assms(3)]] \<open>w' = c # cs\<close> by simp
  ultimately show thesis using that by (metis append_Cons)
qed

lemma word_leaks:
  assumes "starts_word w t" and "w \<noteq> []" "\<forall>c \<in> set w. plain c"
    and "\<And>k pr xs. rx_match (lit w eps) k pr xs \<Longrightarrow> rx_match connectorShapePattern k pr xs"
  shows "leak_shape (p @ json_quote (u @ t) @ q)"
proof -
  obtain c t' where t: "t = c # t'" "byte c < 128" by (rule starts_ascii [OF assms(1-3)])
  have "rx_match (lit w eps) (\<lambda>_ _. True) pr (doc_right t q)" for pr
    by (rule lit_at [OF assms(1,3,2)]) simp
  then show ?thesis using found [of c "lit w eps" p u t' q] assms(4) t by simp
qed

text \<open>One lemma for the alternatives that start with a word, with or without a boundary before it.\<close>

lemma word_found:
  assumes "starts_word w t" and "w \<noteq> []" "\<forall>c \<in> set w. plain c"
    and "\<And>pr. (pr \<noteq> None \<and> (word_start u \<longrightarrow> \<not> is_word_opt pr)) \<Longrightarrow> rx_match r (\<lambda>_ _. True) pr (doc_right t q)"
    and "\<And>k pr xs. rx_match r k pr xs \<Longrightarrow> rx_match connectorShapePattern k pr xs"
  shows "leak_shape (p @ json_quote (u @ t) @ q)"
proof -
  obtain c t' where "t = c # t'" "byte c < 128" by (rule starts_ascii [OF assms(1-3)])
  then show ?thesis using found [of c r p u t' q] assms(4,5) left_word by simp
qed

lemma first_word:
  assumes "starts_word w t" and "\<exists>c w'. w = c # w' \<and> letter c" and "\<forall>c \<in> set w. plain c"
  shows "is_word_opt (next_rune (doc_right t q))"
proof -
  obtain w' where w': "t = w' @ drop (length w) t" "map lower_byte w' = w"
    by (rule starts_wordE [OF assms(1)])
  obtain c cs where c: "w' = c # cs" "letter (lower_byte c)" using w'(2) assms(2) by (cases w') auto
  then have "word_rune (byte c)"
    by (auto simp: letter_def lower_byte_def word_rune_def byte_def split: if_splits)
  moreover have "doc_right t q = byte c # map byte cs @ doc_right (drop (length w) t) q"
    using doc_right_plain [OF word_plain [OF w'(2) assms(3)], of "drop (length w) t" q] w'(1) c(1) by simp
  ultimately show ?thesis by (simp add: next_rune_def is_word_opt_def)
qed

text \<open>The names of the connection string keys.\<close>

lemma assign_names:
  assumes "n \<in> {''user id'', ''uid'', ''pwd''} \<union> {''data source'', ''initial catalog'', ''integrated security''}"
  shows "\<exists>c w'. n = c # w' \<and> letter c" and "\<forall>c \<in> set n. plain c"
proof -
  have "letter CHR ''u''" "letter CHR ''p''" "letter CHR ''d''" "letter CHR ''i''"
    by (simp_all add: letter_def lower_byte_def byte_def)
  with assms show "\<exists>c w'. n = c # w' \<and> letter c"
    by (elim UnE insertE emptyE) blast+
  from assms show "\<forall>c \<in> set n. plain c"
    by (elim UnE insertE emptyE) (simp_all add: plain_eval)
qed

lemma assign_found:
  assumes "assigns name t" and "\<exists>c w'. name = c # w' \<and> letter c" and "\<forall>c \<in> set name. plain c" and "word_start u"
    and "\<And>k pr xs. rx_match (Sq WordB (assign name)) k pr xs \<Longrightarrow> rx_match connectorShapePattern k pr xs"
  shows "leak_shape (p @ json_quote (u @ t) @ q)"
proof (rule word_found [where w = name and r = "Sq WordB (assign name)"])
  show "starts_word name t" using assms(1) by (simp add: assigns_def)
  then show "rx_match (Sq WordB (assign name)) (\<lambda>_ _. True) pr (doc_right t q)"
    if "pr \<noteq> None \<and> (word_start u \<longrightarrow> \<not> is_word_opt pr)" for pr
    using that assms first_word assign_at by auto
qed (use assms in auto)

text \<open>URLs.\<close>

lemma letter_alpha: "letter c \<Longrightarrow> alpha (byte c)"
  by (simp add: letter_def alpha_def lower_byte_rune)

lemma letter_plain: "letter c \<Longrightarrow> plain c"
  by (rule lower_byte_plain) (auto simp: letter_def plain_def json_escape_byte_def byte_def)

lemma scheme_char_plain: "scheme_char c \<Longrightarrow> plain c"
  unfolding scheme_char_def
proof (elim disjE)
  show "digit_rune (byte c) \<Longrightarrow> plain c"
    by (auto simp: digit_rune_def plain_def json_escape_byte_def byte_def)
next
  show "c \<in> {CHR ''+'', CHR ''.'', CHR ''-''} \<Longrightarrow> plain c" by (elim insertE emptyE) (simp_all add: plain_eval)
qed (rule letter_plain)

lemma scheme_char_rune:
  "scheme_char c \<Longrightarrow> alpha (byte c) \<or> digit_rune (byte c) \<or> byte c = 43 \<or> byte c = 46 \<or> byte c = 45"
  using letter_alpha by (auto simp: scheme_char_def byte_def)

lemma url_found:
  assumes "url_shape t"
  shows "leak_shape (p @ json_quote (u @ t) @ q)"
proof -
  obtain c t' where t: "t = c # t'" "letter c" using assms by (cases t) (auto simp: url_shape_def)
  let ?w = "takeWhile scheme_char t'" and ?v = "dropWhile scheme_char t'"
  have w: "\<forall>d \<in> set ?w. scheme_char d" by (rule takeWhile_all)
  have plain: "\<forall>d \<in> set (c # ?w). plain d" using w t(2) letter_plain scheme_char_plain by simp
  have v: "rx_match (lit ''://'' eps) (\<lambda>_ _. True) pr (doc_right ?v q)" for pr
    by (rule lit_at) (use assms t in \<open>simp_all add: url_shape_def plain_eval\<close>)
  have doc: "doc_right t q = byte c # map byte ?w @ doc_right ?v q"
    using doc_right_plain [OF plain, of ?v q] t(1) by simp
  have run: "\<forall>x \<in> set (map byte ?w). alpha x \<or> digit_rune x \<or> x = 43 \<or> x = 46 \<or> x = 45"
    using w scheme_char_rune by auto
  have "rx_match rx_scheme (\<lambda>_ _. True) pr (doc_right t q)" for pr
    unfolding doc rx_scheme_def rx_match.simps(1,2,4) list.case
    using letter_alpha [OF t(2)] star_run [OF run] v by blast
  then show ?thesis
    using found [of c rx_scheme p u t' q] t letter_plain [OF t(2)] alternatives(1) by (simp add: plain_def)
qed

text \<open>Queries.\<close>

lemma boundary_cases:
  assumes "is_word_opt (next_rune xs)" and "\<And>pr. rx_match r k pr xs"
    and "z = [] \<and> \<not> is_word_opt pr \<or> (\<exists>x. z = [92, x] \<and> x \<in> {110, 114, 116})"
  shows "rx_match (Sq boundary_or_escape r) k pr (z @ xs)"
  using assms(3)
proof
  assume "z = [] \<and> \<not> is_word_opt pr"
  then show ?thesis using assms(1,2) by (simp add: boundary_or_escape_def)
next
  assume "\<exists>x. z = [92, x] \<and> x \<in> {110, 114, 116}"
  then show ?thesis using assms(2) by (auto simp: boundary_or_escape_def backslash_def ci_rune_def lower_rune_def)
qed

lemma runes_length_le: "length (runes s) \<le> length s"
  by (simp add: length_runes rune_count_le_length)

lemma from_found:
  assumes m: "m \<noteq> []" "query_start m" "length (json_escape m) \<le> 300" and r: "starts_word ''from'' r" "word_end (drop 4 r)"
  shows "rx_match (Sq (UpTo 300 (\<lambda>_. True)) (Sq boundary_or_escape (lit ''from'' WordB))) (\<lambda>_ _. True) pr
           (runes (json_escape m) @ doc_right r q)"
proof -
  have from_plain: "\<forall>c \<in> set ''from''. plain c" by (simp add: plain_eval)
  have four: "length ''from'' = 4" by simp
  obtain f where f: "r = f @ drop 4 r" "map lower_byte f = ''from''" "length f = 4"
      "list_all2 (\<lambda>x c. ci_rune (byte c) x) (map byte f) ''from''"
    by (rule starts_wordE [OF r(1), unfolded four])
  have last: "word_rune (byte (last f))"
    using f(2,3) by (cases f rule: rev_cases) (auto simp: lower_byte_def word_rune_def byte_def split: if_splits)
  have doc: "doc_right r q = map byte f @ doc_right (drop 4 r) q"
    using doc_right_plain [OF word_plain [OF f(2) from_plain], of "drop 4 r" q] f(1) by simp
  have lit: "rx_match (lit ''from'' WordB) (\<lambda>_ _. True) pr (doc_right r q)" for pr
    unfolding doc using f(3) last doc_right_end [OF r(2), of q]
    by (intro rx_match_lit [OF f(4)]) (auto simp: is_word_opt_def last_map)
  have first: "is_word_opt (next_rune (doc_right r q))"
    by (rule first_word [OF r(1) _ from_plain]) (simp add: letter_def lower_byte_def byte_def)
  obtain a z where az: "34 # runes (json_escape m) = a @ z" "a \<noteq> []"
      "z = [] \<and> \<not> word_rune (last a) \<or> (\<exists>x. z = [92, x] \<and> x \<in> {110, 114, 116})"
    by (rule left_edge [OF m(2)])
  then obtain a1 where a1: "a = 34 # a1" "runes (json_escape m) = a1 @ z" by (cases a) auto
  have ne: "runes (json_escape m) \<noteq> []"
  proof -
    obtain c m' where m': "m = c # m'" using m(1) by (cases m) auto
    have "take (rune_width m) m \<noteq> []" using rune_width_Suc [OF m(1)] m(1) by simp
    then have "json_escape_rune (take (rune_width m) m) \<noteq> []"
      by (auto simp: json_escape_rune_def json_escape_byte_def split: list.splits)
    then have "json_escape m \<noteq> []" by (simp add: m' json_escape.simps(2) del: rune_width.simps)
    then show ?thesis by (metis length_0_conv length_runes rune_count_0_iff)
  qed
  have "length a1 \<le> 300" using runes_length_le [of "json_escape m"] a1(2) m(3) by simp
  moreover have "rx_match (Sq boundary_or_escape (lit ''from'' WordB)) (\<lambda>_ _. True) (if a1 = [] then pr else Some (last a1)) (z @ doc_right r q)"
    using az(3) a1 ne by (intro boundary_cases [OF first lit]) (auto simp: is_word_opt_def)
  ultimately show ?thesis
    unfolding a1(2) append_assoc rx_match.simps(3) rx_match.simps(4) [of "UpTo 300 _"] by (rule upto_run)
qed

lemma query_found:
  assumes "query_shape u t"
  shows "leak_shape (p @ json_quote (u @ t) @ q)"
proof -
  have sel: "query_start u" "starts_word ''select'' t" "word_end (drop 6 t)" using assms by (simp_all add: query_shape_def)
  obtain m r where m: "m \<noteq> []" "query_start m" "length (json_escape m) \<le> 300" "starts_word ''from'' r" "word_end (drop 4 r)"
    and mr: "drop 6 t = m @ r"
    using assms splits_append by (fastforce simp: query_shape_def list_ex_iff)
  have plain: "\<forall>c \<in> set ''select''. plain c" "\<forall>c \<in> set ''from''. plain c" by (simp_all add: plain_eval)
  have six: "length ''select'' = 6" by simp
  obtain w where w: "t = w @ drop 6 t" "map lower_byte w = ''select''" "length w = 6"
      "list_all2 (\<lambda>x c. ci_rune (byte c) x) (map byte w) ''select''"
    by (rule starts_wordE [OF sel(2), unfolded six])
  have last: "word_rune (byte (last w))"
    using w(2,3) by (cases w rule: rev_cases) (auto simp: lower_byte_def word_rune_def byte_def split: if_splits)
  obtain f r' where f: "r = f # r'" "byte f < 128" by (rule starts_ascii [OF m(4) _ plain(2)]) simp
  have "json_escape (m @ r) = json_escape m @ json_escape r"
    using json_escape_append [OF f(2), of m r'] f(1) by simp
  moreover obtain d ds where d: "json_escape r = d # ds" "byte d < 128"
    using f by (metis append_Cons escape_ascii escape_byte_head)
  ultimately have mid: "doc_right (drop 6 t) q = runes (json_escape m) @ doc_right r q"
    using runes_append [OF d(2), of "json_escape m" "ds @ CHR 0x22 # q"] by (simp add: doc_right_def mr)
  have doc: "doc_right t q = map byte w @ runes (json_escape m) @ doc_right r q"
    using doc_right_plain [OF word_plain [OF w(2) plain(1)], of "drop 6 t" q] w(1) mid by simp
  have first: "is_word_opt (next_rune (doc_right t q))"
    by (rule first_word [OF sel(2) _ plain(1)]) (simp add: letter_def lower_byte_def byte_def)
  have lit: "rx_match (lit ''select'' (Sq WordB (Sq (UpTo 300 (\<lambda>_. True)) (Sq boundary_or_escape (lit ''from'' WordB)))))
      (\<lambda>_ _. True) pr (doc_right t q)" for pr
    unfolding doc
  proof (rule rx_match_lit [OF w(4)])
    have "is_word_opt (if map byte w = [] then pr else Some (last (map byte w)))"
      using w(3) last by (auto simp: is_word_opt_def last_map)
    then show "rx_match (Sq WordB (Sq (UpTo 300 (\<lambda>_. True)) (Sq boundary_or_escape (lit ''from'' WordB)))) (\<lambda>_ _. True)
        (if map byte w = [] then pr else Some (last (map byte w))) (runes (json_escape m) @ doc_right r q)"
      using from_found [OF m] doc_right_end [OF sel(3), of q] mid by (simp only: rx_match.simps(4,6)) simp
  qed
  obtain a z where az: "34 # runes (json_escape u) = a @ z" "a \<noteq> []"
      "z = [] \<and> \<not> word_rune (last a) \<or> (\<exists>x. z = [92, x] \<and> x \<in> {110, 114, 116})"
    by (rule left_edge [OF sel(1)])
  have "rx_match rx_select_from (\<lambda>_ _. True) (Some (last a)) (z @ doc_right t q)"
    unfolding rx_select_from_def using az(3) by (intro boundary_cases [OF first lit]) (auto simp: is_word_opt_def)
  then have "rx_search connectorShapePattern None ((runes p @ a) @ z @ doc_right t q)"
    using az(2) alternatives(3) by (intro leak_shape_alt [of rx_select_from]) simp_all
  moreover obtain c t' where "t = c # t'" "byte c < 128" by (rule starts_ascii [OF sel(2) _ plain(1)]) simp
  ultimately show ?thesis
    using az(1) doc_split [of c p u t' q] by (simp add: leak_shape_def doc_left_nonempty)
qed

text \<open>Backslash shares.\<close>

lemma starts_backslash: "starts_word [CHR 0x5C] t \<Longrightarrow> \<exists>t'. t = CHR 0x5C # t'"
proof -
  assume "starts_word [CHR 0x5C] t"
  then obtain c t' where c: "t = c # t'" "lower_byte c = CHR 0x5C" by (cases t) (simp_all add: starts_word_def)
  have "byte (lower_byte c) = 92" by (simp add: c(2) byte_def)
  moreover have "byte (lower_byte c) = (if 65 \<le> byte c \<and> byte c \<le> 90 then byte c + 32 else byte c)"
    by (auto simp: lower_byte_def byte_def)
  ultimately have "lower_byte c = c" by (auto simp: lower_byte_def split: if_splits)
  with c show ?thesis by simp
qed

lemma share_found:
  assumes "share_shape t"
  shows "leak_shape (p @ json_quote (u @ t) @ q)"
proof -
  have b: "byte CHR 0x5C = 92" by (simp add: byte_def)
  have nb: "byte c \<noteq> 92" if "plain c" for c
  proof
    assume "byte c = 92"
    then have "c = CHR 0x5C" using b byte_eq_iff by metis
    with that show False by (simp add: plain_def json_escape_byte_def)
  qed
  obtain t' where t: "t = CHR 0x5C # t'" "t' \<noteq> []" "plain (hd t')" "starts_word [CHR 0x5C] (dropWhile plain t')"
    using assms starts_backslash [of t] by (auto simp: share_shape_def)
  define v where "v = dropWhile plain t'"
  obtain c m where "takeWhile plain t' = c # m" using t(2,3) by (cases t') simp_all
  then have m: "takeWhile plain t' = c # m" "t' = (c # m) @ v" "starts_word [CHR 0x5C] v"
    using t(4) takeWhile_dropWhile_id [of plain t'] by (simp_all add: v_def)
  have pl: "\<forall>d \<in> set (c # m). plain d" using takeWhile_all [of plain t'] m(1) by simp
  obtain v' where v: "v = CHR 0x5C # v'" using starts_backslash [OF m(3)] by blast
  have bs: "doc_right (CHR 0x5C # x) q = 92 # 92 # doc_right x q" for x
    by (simp add: doc_right_def escape_ascii b json_escape_byte_def)
  have doc: "doc_right t q = 92 # 92 # byte c # map byte m @ 92 # 92 # doc_right v' q"
    using doc_right_plain [OF pl, of v q] by (simp add: t(1) m(2) v bs)
  have "rx_match rx_share (\<lambda>_ _. True) pr (doc_right t q)" for pr
    using pl nb star_run [of "map byte m" "\<lambda>x. x \<noteq> 92"]
    by (auto simp: doc rx_share_def backslash_def)
  then show ?thesis
    using found [of "CHR 0x5C" rx_share p u t' q] b alternatives(9) by (simp add: t(1))
qed

lemma api_found:
  assumes "word_start u" and "starts_word ''api/'' t"
  shows "leak_shape (p @ json_quote (u @ t) @ q)"
proof -
  have plain: "\<forall>c \<in> set ''api/''. plain c" by (simp add: plain_eval)
  obtain c t' where t: "t = c # t'" "byte c < 128" by (rule starts_ascii [OF assms(2) _ plain]) simp
  let ?x = "last (doc_left p u)"
  have x: "\<not> word_rune ?x" "?x < 128" "doc_left p u \<noteq> []"
    using left_word [OF assms(1), of p] by (simp_all add: is_word_opt_def)
  then have "\<not> (alpha ?x \<or> digit_rune ?x \<or> ?x = 95)"
    by (auto simp: word_rune_def alpha_def digit_rune_def lower_rune_def split: if_splits)
  moreover have "rx_match (lit ''api/'' eps) (\<lambda>_ _. True) pr (doc_right t q)" for pr
    by (rule lit_at [OF assms(2) plain]) simp_all
  ultimately have "rx_match rx_api (\<lambda>_ _. True) pr (?x # doc_right t q)" for pr
    by (simp add: rx_api_def del: lit.simps)
  then have search: "rx_search connectorShapePattern None (butlast (doc_left p u) @ ?x # doc_right t q)"
    by (rule leak_shape_alt) (rule alternatives(5))
  have eq: "doc_left p u @ doc_right t q = butlast (doc_left p u) @ ?x # doc_right t q"
    using x(3) append_butlast_last_id [of "doc_left p u"] by (metis append.assoc append_Cons append_Nil)
  have r: "runes (p @ json_quote (u @ t) @ q) = doc_left p u @ doc_right t q"
    using doc_split [of c p u t' q] t by simp
  show ?thesis unfolding leak_shape_def r eq by (fact search)
qed

lemma bearer_found:
  assumes "starts_word ''authorization:'' t" and "starts_word ''bearer'' (skip_blanks (drop 14 t))"
  shows "leak_shape (p @ json_quote (u @ t) @ q)"
proof (rule word_found [OF assms(1), where r = rx_bearer])
  have n: "length ''authorization:'' = 14" by simp
  have "rx_match (lit ''bearer'' eps) (\<lambda>_ _. True) pr (doc_right (skip_blanks (drop 14 t)) q)" for pr
    by (rule lit_at [OF assms(2)]) (simp_all add: plain_eval)
  then have b: "rx_match (Sq (StarC space_rune) (lit ''bearer'' eps)) (\<lambda>_ _. True) pr (doc_right (drop 14 t) q)" for pr
    by (simp del: lit.simps add: blanks_at)
  show "rx_match rx_bearer (\<lambda>_ _. True) pr (doc_right t q)" for pr
    unfolding rx_bearer_def by (rule lit_at [OF assms(1), unfolded n, OF _ _ b]) (simp_all add: plain_eval)
qed (simp_all add: plain_eval alternatives(10))

text \<open>A secret in a string field of a document is found, whatever surrounds it.\<close>

lemma secret_found:
  assumes "secret_at u t"
  shows "leak_shape (p @ json_quote (u @ t) @ q)"
proof -
  from assms consider "url_shape t" | "starts_word ''jdbc:'' t" | "query_shape u t" | "starts_word ''select*from'' t"
    | "word_start u" "starts_word ''api/'' t" | "assigns ''password'' t"
    | n where "word_start u" "n \<in> {''user id'', ''uid'', ''pwd''}" "assigns n t"
    | n where "word_start u" "n \<in> {''data source'', ''initial catalog'', ''integrated security''}" "assigns n t"
    | "share_shape t"
    | "starts_word ''authorization:'' t" "starts_word ''bearer'' (skip_blanks (drop 14 t))"
    unfolding secret_at_def list_ex_iff list.set by blast
  then show ?thesis
  proof cases
    case 2
    then show ?thesis by (rule word_leaks) (simp_all add: plain_eval alternatives(2) del: lit.simps)
  next
    case 4
    then show ?thesis by (rule word_leaks) (simp_all add: plain_eval alternatives(4) del: lit.simps)
  next
    case 6
    then have "starts_word ''password'' t" by (simp add: assigns_def)
    then show ?thesis
      by (rule word_found [where r = "assign ''password''"]) (use 6 assign_at in \<open>simp_all add: plain_eval alternatives(6)\<close>)
  next
    case (7 n)
    then have n: "\<exists>c w'. n = c # w' \<and> letter c" "\<forall>c \<in> set n. plain c"
      using assign_names by blast+
    have "rx_match (Sq WordB (assign n)) k pr xs \<Longrightarrow> rx_match rx_credential k pr xs" for k pr xs
      using 7(2) credential_alternatives by blast
    then show ?thesis using assign_found [OF 7(3) n 7(1)] alternatives(7) by blast
  next
    case (8 n)
    then have n: "\<exists>c w'. n = c # w' \<and> letter c" "\<forall>c \<in> set n. plain c"
      using assign_names by blast+
    have "rx_match (Sq WordB (assign n)) k pr xs \<Longrightarrow> rx_match rx_dsn k pr xs" for k pr xs
      using 8(2) dsn_alternatives by blast
    then show ?thesis using assign_found [OF 8(3) n 8(1)] alternatives(8) by blast
  qed (rule url_found query_found api_found share_found bearer_found; assumption)+
qed

lemma secret_in_document:
  assumes "leaks_secret s"
  shows "leak_shape (p @ json_quote s @ q)"
  using assms secret_found splits_append by (fastforce simp: leaks_secret_def list_ex_iff)

lemma leaks_secret_nonempty: "leaks_secret s \<Longrightarrow> s \<noteq> []"
proof
  assume "leaks_secret s" and "s = []"
  then have "leak_shape (json_quote [])" using secret_in_document [of "[]" "[]" "[]"] by simp
  moreover have "\<not> has_leak_word (runes (json_quote []))"
    by (simp add: json_quote_def has_leak_word_def leak_words_def lower_rune_def byte_def)
  ultimately show False using no_leak_word by blast
qed

text \<open>A query and a password on an example.\<close>

lemma secret_here: "secret_at u t \<Longrightarrow> leaks_secret (u @ t)"
  by (auto simp: leaks_secret_def splits_def list_ex_iff intro!: bexI [of _ "length u"])

lemmas shape_eval = starts_word_def skip_blanks_def word_start_def query_start_def word_end_def separator_def
  line_break_def word_rune_def lower_byte_def byte_def char_of_def bit_Suc_0_iff

lemma secret_examples: "leaks_secret ''SELECT a FROM t''" "leaks_secret ''my Password  =x''"
proof -
  have m: "('' a '', ''FROM t'') \<in> set (splits (drop 6 ''SELECT a FROM t''))"
    by (simp add: splits_def)
  have "length (json_escape '' a '') \<le> 300" using plain_escape [of "'' a ''" "[]"] by (simp add: plain_eval)
  moreover have "query_start '' a ''" "starts_word ''from'' ''FROM t''" "word_end (drop 4 ''FROM t'')" by (simp_all add: shape_eval)
  ultimately have "list_ex (\<lambda>(m, r). m \<noteq> [] \<and> query_start m \<and> length (json_escape m) \<le> 300
      \<and> starts_word ''from'' r \<and> word_end (drop 4 r)) (splits (drop 6 ''SELECT a FROM t''))"
    unfolding list_ex_iff by (intro bexI [OF _ m]) simp
  moreover have "query_start []" "starts_word ''select'' ''SELECT a FROM t''" "word_end (drop 6 ''SELECT a FROM t'')"
    by (simp_all add: shape_eval)
  ultimately have "secret_at [] ''SELECT a FROM t''" unfolding secret_at_def query_shape_def by blast
  then show "leaks_secret ''SELECT a FROM t''" using secret_here [of "[]" "''SELECT a FROM t''"] by simp
  have "assigns ''password'' ''Password  =x''" by (simp add: assigns_def shape_eval)
  then have "secret_at ''my '' ''Password  =x''" unfolding secret_at_def by blast
  then show "leaks_secret ''my Password  =x''" using secret_here [of "''my ''" "''Password  =x''"] by simp
qed

subsection \<open>Strings a document mentions\<close>

definition mentions :: "string option \<Rightarrow> string \<Rightarrow> bool" where
  "mentions doc s \<longleftrightarrow> (\<forall>t. doc = Some t \<longrightarrow> (\<exists>p q. t = p @ json_quote s @ q))"

lemma mentions_str [simp]: "mentions (json_str s) s"
  by (auto simp: mentions_def json_str_def intro: exI [of _ "[]"])

lemma all_texts_Some:
  "all_texts ts = Some xs \<Longrightarrow> length xs = length ts \<and> (\<forall>i < length ts. ts ! i = Some (xs ! i))"
proof (induction ts arbitrary: xs)
  case (Cons t ts)
  then show ?case by (auto simp: nth_Cons' less_Suc_eq_0_disj split: option.splits)
qed simp

lemma json_join_mem: "x \<in> set xs \<Longrightarrow> \<exists>p q. json_join xs = p @ x @ q"
proof (induction xs rule: json_join.induct)
  case (3 t t' ts)
  show ?case
  proof (cases "x = t")
    case True
    then show ?thesis by (auto intro: exI [of _ "[]"])
  next
    case False
    with 3 obtain p q where "json_join (t' # ts) = p @ x @ q" by auto
    then have "json_join (t # t' # ts) = (t @ CHR '','' # p) @ x @ q" by simp
    then show ?thesis by blast
  qed
qed (auto intro: exI [of _ "[]"])

lemma joined_mentions:
  assumes "all_texts ts = Some xs" and "t \<in> set ts" and "mentions t s"
  shows "\<exists>p q. json_join xs = p @ json_quote s @ q"
proof -
  obtain x where x: "x \<in> set xs" "t = Some x"
    using all_texts_Some [OF assms(1)] assms(2) by (metis in_set_conv_nth)
  with assms(3) obtain p q where "x = p @ json_quote s @ q" by (auto simp: mentions_def)
  moreover obtain p' q' where "json_join xs = p' @ x @ q'" using json_join_mem x(1) by blast
  ultimately have "json_join xs = (p' @ p) @ json_quote s @ (q @ q')" by simp
  then show ?thesis by blast
qed

lemma mentions_arr: "t \<in> set ts \<Longrightarrow> mentions t s \<Longrightarrow> mentions (json_arr ts) s"
proof -
  assume a: "t \<in> set ts" "mentions t s"
  have "\<exists>p q. CHR ''['' # json_join xs @ '']'' = p @ json_quote s @ q" if "all_texts ts = Some xs" for xs
    using joined_mentions [OF that a] by (metis append.assoc append_Cons)
  then show ?thesis by (auto simp: mentions_def json_arr_def)
qed

lemma mentions_field: "mentions t s \<Longrightarrow> mentions (json_field (k, t)) s"
proof -
  assume a: "mentions t s"
  show ?thesis unfolding mentions_def
  proof (intro allI impI)
    fix x
    assume "json_field (k, t) = Some x"
    then obtain y where y: "t = Some y" "x = (json_quote k @ '':'') @ y" by (auto simp: json_field_def)
    with a obtain p q where "y = p @ json_quote s @ q" by (auto simp: mentions_def)
    with y have "x = (json_quote k @ '':'' @ p) @ json_quote s @ q" by simp
    then show "\<exists>p q. x = p @ json_quote s @ q" by blast
  qed
qed

lemma mentions_obj: "(k, t) \<in> set fs \<Longrightarrow> mentions t s \<Longrightarrow> mentions (json_obj fs) s"
proof -
  assume a: "(k, t) \<in> set fs" "mentions t s"
  then have "json_field (k, t) \<in> set (map json_field fs)" and "mentions (json_field (k, t)) s"
    by (auto intro: mentions_field)
  then have "\<exists>p q. CHR ''{'' # json_join xs @ ''}'' = p @ json_quote s @ q" if "all_texts (map json_field fs) = Some xs" for xs
    using joined_mentions [OF that] by (metis append.assoc append_Cons)
  then show ?thesis by (auto simp: mentions_def json_obj_def)
qed

lemma no_leak_mentions:
  assumes "NoRawContentLeak marshal v = None" and "mentions (marshal v) s"
  shows "\<not> leaks_secret s"
  using assms secret_in_document by (fastforce simp: NoRawContentLeak_def mentions_def split: option.splits if_splits)

subsection \<open>Documents without an alarm\<close>

text \<open>A text of quoted and unquoted pieces raises no alarm when no piece holds a word of the guard.\<close>

definition quiet :: "char \<Rightarrow> bool" where
  "quiet c \<longleftrightarrow> byte c < 128 \<and> lower_rune (byte c) = byte c"

lemma starts_with_map_byte: "starts_with (map byte w) (map byte t) = starts_with w t"
  by (induction w t rule: starts_with.induct) (simp_all add: byte_eq_iff)

lemma occurs_map_byte: "occurs (map byte w) (map byte t) = occurs w t"
proof (induction t)
  case (Cons a t)
  then show ?case using starts_with_map_byte [of w "a # t"] by simp
qed simp

fun join_on :: "'a \<Rightarrow> 'a list list \<Rightarrow> 'a list" where
  "join_on c [] = []"
| "join_on c [p] = p"
| "join_on c (p # ps) = p @ c # join_on c ps"

lemma starts_with_sep: "c \<notin> set w \<Longrightarrow> starts_with w (a @ c # b) \<Longrightarrow> starts_with w a"
  by (induction w a rule: starts_with.induct) auto

lemma occurs_sep: "c \<notin> set w \<Longrightarrow> w \<noteq> [] \<Longrightarrow> occurs w (a @ c # b) \<Longrightarrow> occurs w a \<or> occurs w b"
proof (induction a)
  case Nil
  then show ?case by (cases w) auto
next
  case (Cons x a)
  then show ?case using starts_with_sep [of c w "x # a" b] by auto
qed

lemma occurs_join: "c \<notin> set w \<Longrightarrow> w \<noteq> [] \<Longrightarrow> occurs w (join_on c ps) \<Longrightarrow> list_ex (occurs w) ps"
  by (induction c ps rule: join_on.induct) (auto dest: occurs_sep)

lemma quiet_join: "list_all (list_all quiet) ps \<Longrightarrow> quiet c \<Longrightarrow> list_all quiet (join_on c ps)"
  by (induction c ps rule: join_on.induct) auto

lemma no_leak_join:
  assumes "list_all (list_all quiet) ps" and "list_all (\<lambda>w. list_all (\<lambda>p. \<not> occurs w p) ps) leak_words"
  shows "\<not> has_leak_word (runes (join_on (CHR 0x22) ps))"
proof -
  let ?t = "join_on (CHR 0x22) ps"
  have q: "\<forall>c \<in> set ?t. quiet c"
    using quiet_join [OF assms(1), of "CHR 0x22"] by (simp add: list_all_iff quiet_def byte_def lower_rune_def)
  then have r: "runes ?t = map byte ?t" using ascii_runes [of ?t "[]"] by (simp add: quiet_def)
  have "map lower_rune (map byte ?t) = map byte ?t" using q by (simp add: quiet_def)
  then have "occurs (map byte w) (map lower_rune (runes ?t)) = occurs w ?t" for w
    by (simp only: r occurs_map_byte)
  moreover have "\<not> occurs w ?t" if "w \<in> set leak_words" for w
  proof
    assume "occurs w ?t"
    moreover have "CHR 0x22 \<notin> set w \<and> w \<noteq> []" using that by (auto simp: leak_words_def)
    ultimately show False using occurs_join assms(2) that by (fastforce simp: list_all_iff list_ex_iff)
  qed
  ultimately show ?thesis by (auto simp: has_leak_word_def list_ex_iff)
qed

subsection \<open>Documents the guard accepts\<close>

text \<open>
  A marshaled document is a sequence of structural texts and string contents, cut at the quotation
  marks.  When every string content is \<open>calm\<close> (ASCII without capitals and escapes, holding none of
  the guard's words), the guard finds nothing, whatever the structure.
\<close>

definition calm :: "string \<Rightarrow> bool" where
  "calm s \<longleftrightarrow> list_all quiet s \<and> list_all plain s \<and> list_all (\<lambda>w. \<not> occurs w s) leak_words"

definition structural :: "string \<Rightarrow> bool" where
  "structural s \<longleftrightarrow> set s \<subseteq> set ''{}[]:,0123456789-.''"

fun pieces_ok :: "string list \<Rightarrow> bool" where
  "pieces_ok [] = False"
| "pieces_ok [s] = structural s"
| "pieces_ok (s # t # ps) = (structural s \<and> calm t \<and> pieces_ok ps)"

definition tame :: "string option \<Rightarrow> bool" where
  "tame t \<longleftrightarrow> (\<exists>ps. pieces_ok ps \<and> t = Some (join_on (CHR 0x22) ps))"

lemma occurs_set: "occurs w s \<Longrightarrow> set w \<subseteq> set s"
proof -
  have pre: "starts_with w s \<Longrightarrow> set w \<subseteq> set s" for w s :: "'a list"
    by (induction w s rule: starts_with.induct) auto
  show "occurs w s \<Longrightarrow> set w \<subseteq> set s"
    by (induction s) (use pre in \<open>fastforce+\<close>)
qed

lemma calm_set: "list_all quiet s \<Longrightarrow> list_all plain s \<Longrightarrow> list_all (\<lambda>w. \<not> set w \<subseteq> set s) leak_words \<Longrightarrow> calm s"
  using occurs_set unfolding calm_def list_all_iff by (metis (no_types))

lemma structural_calm:
  assumes "structural s"
  shows "list_all quiet s \<and> list_all (\<lambda>w. \<not> occurs w s) leak_words"
proof
  have "list_all quiet ''{}[]:,0123456789-.''"
    by (simp add: quiet_def byte_def lower_rune_def)
  then show "list_all quiet s" using assms unfolding structural_def list_all_iff by blast
  have "list_all (\<lambda>w. \<not> set w \<subseteq> set ''{}[]:,0123456789-.'') leak_words" by (simp add: leak_words_def)
  then have "\<not> occurs w s" if "w \<in> set leak_words" for w
    using that assms occurs_set [of w s] unfolding structural_def list_all_iff by blast
  then show "list_all (\<lambda>w. \<not> occurs w s) leak_words" by (simp add: list_all_iff)
qed

lemma pieces_calm:
  "pieces_ok ps \<Longrightarrow> list_all (list_all quiet) ps \<and> list_all (\<lambda>w. list_all (\<lambda>p. \<not> occurs w p) ps) leak_words"
proof (induction ps rule: pieces_ok.induct)
  case (2 s)
  then show ?case using structural_calm [of s] by (simp add: list_all_iff)
next
  case (3 s t ps)
  then show ?case using structural_calm [of s] by (auto simp: list_all_iff calm_def)
qed simp

lemma tame_no_leak:
  assumes "tame (marshal v)"
  shows "NoRawContentLeak marshal v = None"
proof -
  obtain ps where ps: "pieces_ok ps" "marshal v = Some (join_on (CHR 0x22) ps)" using assms by (auto simp: tame_def)
  then have "\<not> has_leak_word (runes (join_on (CHR 0x22) ps))"
    using pieces_calm [OF ps(1)] no_leak_join by blast
  with ps(2) show ?thesis by (simp add: NoRawContentLeak_def no_leak_word)
qed

lemma structural_append [simp]: "structural (s @ t) \<longleftrightarrow> structural s \<and> structural t"
  by (auto simp: structural_def)

lemma pieces_append:
  "pieces_ok ps \<Longrightarrow> pieces_ok qs \<Longrightarrow> \<exists>rs. pieces_ok rs \<and> join_on c rs = join_on c ps @ join_on c qs"
proof (induction ps rule: pieces_ok.induct)
  case (2 s)
  then obtain p qs' where q: "qs = p # qs'" by (cases qs) auto
  show ?case using 2 unfolding q by (intro exI [of _ "(s @ p) # qs'"]) (cases qs'; cases "tl qs'"; simp)
next
  case (3 s t ps)
  then obtain rs where rs: "pieces_ok rs" "join_on c rs = join_on c ps @ join_on c qs" by auto
  have "join_on c (s # t # xs) = s @ c # t @ c # join_on c xs" if "pieces_ok xs" for xs
    using that by (cases xs) simp_all
  with 3 rs show ?case by (intro exI [of _ "s # t # rs"]) simp
qed simp

lemma tame_append: "tame (Some a) \<Longrightarrow> tame (Some b) \<Longrightarrow> tame (Some (a @ b))"
  unfolding tame_def using pieces_append [of _ _ "CHR 0x22"] by (metis option.inject)

lemma tame_structural: "structural s \<Longrightarrow> tame (Some s)"
  unfolding tame_def by (rule exI [of _ "[s]"]) simp

lemma tame_quote: "calm s \<Longrightarrow> tame (Some (json_quote s))"
  using plain_escape [of s "[]"] unfolding tame_def
  by (intro exI [of _ "[[], s, []]"]) (simp add: structural_def json_quote_def calm_def list_all_iff)

lemma tame_join: "list_all (\<lambda>t. tame (Some t)) ts \<Longrightarrow> tame (Some (json_join ts))"
proof (induction ts rule: json_join.induct)
  case (3 t u us)
  have "tame (Some [CHR '',''])" by (simp add: tame_structural structural_def)
  from tame_append [OF this] 3 have "tame (Some (CHR '','' # json_join (u # us)))" by simp
  with 3 show ?case using tame_append [of t] by simp
qed (simp_all add: tame_structural structural_def)

lemma tame_texts:
  "list_all tame ts \<Longrightarrow> \<exists>xs. all_texts ts = Some xs \<and> list_all (\<lambda>t. tame (Some t)) xs"
  by (induction ts) (auto simp: tame_def)

lemma tame_wrap:
  assumes "list_all tame ts" and "structural [a]" and "structural b"
  shows "tame (map_option (\<lambda>xs. a # json_join xs @ b) (all_texts ts))"
proof -
  obtain xs where "all_texts ts = Some xs" "list_all (\<lambda>t. tame (Some t)) xs" using tame_texts [OF assms(1)] by blast
  then have "tame (Some ([a] @ json_join xs @ b))"
    using assms(2,3) by (intro tame_append tame_structural tame_join)
  with \<open>all_texts ts = Some xs\<close> show ?thesis by simp
qed

lemma tame_field: "calm k \<Longrightarrow> tame t \<Longrightarrow> tame (json_field (k, t))"
proof -
  assume k: "calm k" and t: "tame t"
  obtain x where x: "t = Some x" using t by (auto simp: tame_def)
  have "tame (Some (json_quote k @ [CHR '':''] @ x))"
    using k t x by (intro tame_append tame_quote) (simp_all add: tame_structural structural_def)
  with x show ?thesis by (simp add: json_field_def)
qed

lemma structural_digits: "\<forall>c \<in> set s. 48 \<le> byte c \<and> byte c \<le> 57 \<Longrightarrow> structural s"
proof -
  have d: "char_of ` {48..<58::nat} \<subseteq> set ''0123456789''" by code_simp
  have "c \<in> set ''0123456789''" if "48 \<le> byte c" "byte c \<le> 57" for c
  proof -
    have "char_of (byte c) \<in> char_of ` {48..<58::nat}" using that by (intro imageI) simp
    then have "char_of (byte c) \<in> set ''0123456789''" using d by blast
    then show ?thesis by (simp only: byte_def char_of_char)
  qed
  then show "\<forall>c \<in> set s. 48 \<le> byte c \<and> byte c \<le> 57 \<Longrightarrow> structural s"
    unfolding structural_def by fastforce
qed

lemma structural_nat: "structural (format_nat n)"
  using format_nat_digits by (intro structural_digits) blast

lemma tame_uint: "tame (json_uint n)"
  by (simp add: json_uint_def format_uint_def tame_structural structural_nat)

lemma tame_int: "tame (json_int i)"
proof -
  have "structural (CHR ''-'' # format_nat n)" for n using structural_nat [of n] by (simp add: structural_def)
  then show ?thesis by (simp add: json_int_def format_int_def tame_structural structural_nat)
qed

lemma tame_arr: "list_all tame ts \<Longrightarrow> tame (json_arr ts)"
  unfolding json_arr_def by (rule tame_wrap) (simp_all add: structural_def)

lemma tame_obj: "list_all (\<lambda>f. calm (fst f) \<and> tame (snd f)) fs \<Longrightarrow> tame (json_obj fs)"
  unfolding json_obj_def
  by (rule tame_wrap) (auto simp: structural_def list_all_iff tame_field)

lemma tame_str: "calm s \<Longrightarrow> tame (json_str s)"
  by (simp add: json_str_def tame_quote)

text \<open>Texts of hexadecimal digits, as ids hold them, and repeated letters.\<close>

lemma calm_id_chars:
  assumes "set s \<subseteq> set ''ol_0123456789abcdef''"
  shows "calm s"
proof (rule calm_set)
  have "list_all quiet ''ol_0123456789abcdef''" by (simp add: quiet_def byte_def lower_rune_def)
  then show "list_all quiet s" using assms unfolding list_all_iff by blast
  have "list_all plain ''ol_0123456789abcdef''" by (simp add: plain_def byte_def json_escape_byte_def)
  then show "list_all plain s" using assms unfolding list_all_iff by blast
  have "list_all (\<lambda>w. \<not> set w \<subseteq> set ''ol_0123456789abcdef'') leak_words" by (simp add: leak_words_def)
  then show "list_all (\<lambda>w. \<not> set w \<subseteq> set s) leak_words" using assms unfolding list_all_iff by blast
qed

lemma calm_replicate: "calm (replicate n (CHR ''k''))"
proof (rule calm_set)
  have k: "quiet (CHR ''k'')" "plain (CHR ''k'')"
    by (simp_all add: quiet_def plain_def byte_def lower_rune_def json_escape_byte_def)
  then show "list_all quiet (replicate n (CHR ''k''))" "list_all plain (replicate n (CHR ''k''))"
    by (simp_all add: list_all_iff)
  show "list_all (\<lambda>w. \<not> set w \<subseteq> set (replicate n (CHR ''k''))) leak_words"
    by (simp add: leak_words_def set_replicate_conv_if)
qed

end
