(* ===== verification/OutModel.thy ===== *)
theory OutModel
  imports GoJson GoCrypto
begin

text \<open>
  The Outcome contract of \<^verbatim>\<open>sdk/go/outcome/model.go\<close>: the closed enums, the opaque references, the
  outcome record with its validation, the lineage graph facts with their deterministic ids, and the
  projection records.  \<open>outcome_json\<close> is the JSON form \<open>NoRawContentLeak\<close> scans; the digits of floats
  and times are the argument \<open>fmt\<close>.
\<close>

subsection \<open>Closed enums and errors\<close>

datatype outcome_status =
    OutcomeUnverified | OutcomeSatisfied | OutcomeUnsatisfied | OutcomeDisputed | OutcomeBlocked | OutcomeUnknown
  | OutcomeOther string

definition OutcomeStatuses :: "outcome_status list" where
  "OutcomeStatuses =
     [OutcomeUnverified, OutcomeSatisfied, OutcomeUnsatisfied, OutcomeDisputed, OutcomeBlocked, OutcomeUnknown]"

fun outcome_status_valid :: "outcome_status \<Rightarrow> bool" where
  "outcome_status_valid (OutcomeOther _) = False"
| "outcome_status_valid _ = True"

definition IsTerminal :: "outcome_status \<Rightarrow> bool" where
  "IsTerminal s \<longleftrightarrow> s = OutcomeSatisfied \<or> s = OutcomeUnsatisfied"

fun outcome_status_text :: "outcome_status \<Rightarrow> string" where
  "outcome_status_text OutcomeUnverified = ''unverified''"
| "outcome_status_text OutcomeSatisfied = ''satisfied''"
| "outcome_status_text OutcomeUnsatisfied = ''unsatisfied''"
| "outcome_status_text OutcomeDisputed = ''disputed''"
| "outcome_status_text OutcomeBlocked = ''blocked''"
| "outcome_status_text OutcomeUnknown = ''unknown''"
| "outcome_status_text (OutcomeOther s) = s"

datatype node_type =
    NodeOutcome | NodeGoal | NodeWorkCase | NodeObservation | NodeActionReceipt | NodeBlocker | NodeContributor
  | NodeEvidence | NodeOther string

definition NodeTypes :: "node_type list" where
  "NodeTypes = [NodeOutcome, NodeGoal, NodeWorkCase, NodeObservation, NodeActionReceipt, NodeBlocker, NodeContributor,
     NodeEvidence]"

fun node_type_valid :: "node_type \<Rightarrow> bool" where
  "node_type_valid (NodeOther _) = False"
| "node_type_valid _ = True"

fun node_type_text :: "node_type \<Rightarrow> string" where
  "node_type_text NodeOutcome = ''outcome''"
| "node_type_text NodeGoal = ''goal''"
| "node_type_text NodeWorkCase = ''work_case''"
| "node_type_text NodeObservation = ''observation''"
| "node_type_text NodeActionReceipt = ''action_receipt''"
| "node_type_text NodeBlocker = ''blocker''"
| "node_type_text NodeContributor = ''contributor''"
| "node_type_text NodeEvidence = ''evidence''"
| "node_type_text (NodeOther s) = s"

datatype edge_type =
    EdgeConcerns | EdgeSupersedes | EdgeCorrects | EdgeContributesTo | EdgeEvidences | EdgeObserves | EdgeBlockedBy
  | EdgeDerivedFrom | EdgeOther string

definition EdgeTypes :: "edge_type list" where
  "EdgeTypes = [EdgeConcerns, EdgeSupersedes, EdgeCorrects, EdgeContributesTo, EdgeEvidences, EdgeObserves, EdgeBlockedBy,
     EdgeDerivedFrom]"

fun edge_type_valid :: "edge_type \<Rightarrow> bool" where
  "edge_type_valid (EdgeOther _) = False"
| "edge_type_valid _ = True"

fun edge_type_text :: "edge_type \<Rightarrow> string" where
  "edge_type_text EdgeConcerns = ''concerns''"
| "edge_type_text EdgeSupersedes = ''supersedes''"
| "edge_type_text EdgeCorrects = ''corrects''"
| "edge_type_text EdgeContributesTo = ''contributes_to''"
| "edge_type_text EdgeEvidences = ''evidences''"
| "edge_type_text EdgeObserves = ''observes''"
| "edge_type_text EdgeBlockedBy = ''blocked_by''"
| "edge_type_text EdgeDerivedFrom = ''derived_from''"
| "edge_type_text (EdgeOther s) = s"

datatype projection_kind =
    ProjectionOutcomeRevision | ProjectionLineageFact | ProjectionTombstone | ProjectionReevaluation
  | ProjectionOther string

definition ProjectionEventKinds :: "projection_kind list" where
  "ProjectionEventKinds = [ProjectionOutcomeRevision, ProjectionLineageFact, ProjectionTombstone, ProjectionReevaluation]"

fun projection_kind_valid :: "projection_kind \<Rightarrow> bool" where
  "projection_kind_valid (ProjectionOther _) = False"
| "projection_kind_valid _ = True"

datatype out_err =
    ErrUnknownOutcomeStatus
  | ErrActionReceiptNotOutcomeEvidence
  | ErrSatisfiedNeedsObservation
  | ErrMissingGoalVersion
  | ErrMissingRuleVersion
  | ErrDuplicateContribution
  | ErrLeak leak_err
  | ErrUnversionedEndpoint
  | ErrCrossTenantEdge
  | ErrMissingSupersession
  | ErrUnexpectedSupersession
  | ErrField string

subsection \<open>Deterministic ids\<close>

definition StableID :: "string \<Rightarrow> node_type \<Rightarrow> string \<Rightarrow> uint64 \<Rightarrow> string" where
  "StableID tenant t businessID revision =
     ''ol_'' @ take 40 (hex_encode (sha256 (nul_frame [tenant, node_type_text t, businessID, format_uint revision])))"

subsection \<open>Opaque references\<close>

record goal_ref =
  gl_tenant :: string
  gl_goal_key :: string
  gl_goal_version :: int

definition goal_validate :: "goal_ref \<Rightarrow> out_err option" where
  "goal_validate g = first_err [
     fail_if (gl_tenant g = [] \<or> rune_count (gl_tenant g) > 128) (ErrField ''goal tenant''),
     fail_if (gl_goal_key g = [] \<or> rune_count (gl_goal_key g) > 256) (ErrField ''goal_key''),
     fail_if (gl_goal_version g < 1) ErrMissingGoalVersion]"

record evidence_ref =
  er_handle :: string
  er_content_hash :: string
  er_authority :: string

definition evidence_validate :: "evidence_ref \<Rightarrow> out_err option" where
  "evidence_validate e =
     fail_if (er_handle e = [] \<or> er_content_hash e = [] \<or> er_authority e = []) (ErrField ''evidence_ref'')"

record observation_ref =
  or_handle :: string
  or_observation_hash :: string
  or_authority :: string
  or_signature_key_id :: string
  or_observed_at :: go_time

definition IsAuthoritative :: "observation_ref \<Rightarrow> bool" where
  "IsAuthoritative r \<longleftrightarrow> or_authority r \<noteq> [] \<and> or_signature_key_id r \<noteq> []"

definition observation_validate :: "observation_ref \<Rightarrow> out_err option" where
  "observation_validate r = first_err [
     fail_if (or_handle r = [] \<or> or_observation_hash r = []) (ErrField ''observation_ref''),
     fail_if (or_authority r = []) (ErrField ''observation_ref authority''),
     fail_if (or_signature_key_id r = []) (ErrField ''observation_ref signature_key_id''),
     fail_if (time_is_zero (or_observed_at r)) (ErrField ''observation_ref observed_at'')]"

record receipt_ref =
  rr_handle :: string
  rr_receipt_hash :: string
  rr_signature_key_id :: string

definition receipt_validate :: "receipt_ref \<Rightarrow> out_err option" where
  "receipt_validate r =
     fail_if (rr_handle r = [] \<or> rr_receipt_hash r = [] \<or> rr_signature_key_id r = []) (ErrField ''receipt_ref'')"

record blocker_ref =
  bl_handle :: string
  bl_kind :: string
  bl_authority :: string
  bl_summary :: string

definition blocker_validate :: "blocker_ref \<Rightarrow> out_err option" where
  "blocker_validate b = first_err [
     fail_if (bl_handle b = [] \<or> bl_kind b = [] \<or> bl_authority b = []) (ErrField ''blocker_ref''),
     fail_if (rune_count (bl_summary b) > 512) (ErrField ''blocker_ref summary'')]"

record contribution_ref =
  cb_contributor_id :: string
  cb_kind :: string
  cb_weight :: f64

definition f64_outside_unit :: "f64 \<Rightarrow> bool" where
  "f64_outside_unit x \<longleftrightarrow> f64_less x (Fin 0) \<or> f64_less (Fin 1) x"

definition contribution_validate :: "contribution_ref \<Rightarrow> out_err option" where
  "contribution_validate c = first_err [
     fail_if (cb_contributor_id c = [] \<or> cb_kind c = []) (ErrField ''contribution_ref''),
     fail_if (f64_outside_unit (cb_weight c)) (ErrField ''contribution_ref weight'')]"

record confidence_component =
  cc_kind :: string
  cc_score :: f64

definition confidence_validate :: "confidence_component \<Rightarrow> out_err option" where
  "confidence_validate c = first_err [
     fail_if (cc_kind c = [] \<or> rune_count (cc_kind c) > 64) (ErrField ''confidence kind''),
     fail_if (f64_outside_unit (cc_score c)) (ErrField ''confidence score'')]"

record outcome_revision_ref =
  rv_outcome_key :: string
  rv_revision :: uint64
  rv_outcome_id :: string
  rv_reason :: string

definition revision_ref_validate :: "outcome_revision_ref \<Rightarrow> out_err option" where
  "revision_ref_validate r = first_err [
     fail_if (rv_outcome_key r = []) (ErrField ''supersedes.outcome_key''),
     fail_if (rv_revision r < 1) (ErrField ''supersedes.revision''),
     fail_if (rv_outcome_id r = []) (ErrField ''supersedes.outcome_id''),
     fail_if (rv_reason r = []) (ErrField ''supersedes.reason'')]"

subsection \<open>Claims and outcomes\<close>

record outcome_claim =
  ocl_goal :: goal_ref
  ocl_status :: outcome_status
  ocl_rule_version :: string
  ocl_evidence :: "evidence_ref list"
  ocl_observations :: "observation_ref list"
  ocl_blockers :: "blocker_ref list"
  ocl_confidence :: "confidence_component list"

definition claim_validate :: "outcome_claim \<Rightarrow> out_err option" where
  "claim_validate c = first_err [
     goal_validate (ocl_goal c),
     fail_if (\<not> outcome_status_valid (ocl_status c)) ErrUnknownOutcomeStatus,
     fail_if (ocl_rule_version c = [] \<or> rune_count (ocl_rule_version c) > 128) ErrMissingRuleVersion,
     check_each (\<lambda>_. evidence_validate) 0 (ocl_evidence c),
     check_unique observation_validate or_handle (\<lambda>_. ErrField ''duplicate observation handle'') [] (ocl_observations c),
     check_each (\<lambda>_. blocker_validate) 0 (ocl_blockers c),
     check_unique confidence_validate cc_kind (\<lambda>_. ErrField ''duplicate component kind'') [] (ocl_confidence c)]"

record outcome =
  out_id :: string
  out_tenant :: string
  out_key :: string
  out_revision :: uint64
  out_claim :: outcome_claim
  out_work_case_id :: string
  out_work_case_revision :: uint64
  out_work_plan_revision :: uint64
  out_operating_map_version :: int
  out_org_version :: int
  out_action_receipts :: "receipt_ref list"
  out_contributions :: "contribution_ref list"
  out_decided_at :: go_time
  out_supersedes :: "outcome_revision_ref option"

definition outcome_derived_id :: "outcome \<Rightarrow> string" where
  "outcome_derived_id x = StableID (out_tenant x) NodeOutcome (out_key x) (out_revision x)"

definition satisfied_check :: "outcome \<Rightarrow> out_err option" where
  "satisfied_check x =
     (if ocl_status (out_claim x) = OutcomeSatisfied \<and> \<not> list_ex IsAuthoritative (ocl_observations (out_claim x))
      then Some (if ocl_observations (out_claim x) = [] \<and> out_action_receipts x \<noteq> []
                 then ErrActionReceiptNotOutcomeEvidence else ErrSatisfiedNeedsObservation)
      else None)"

definition supersession_check :: "outcome \<Rightarrow> out_err option" where
  "supersession_check x =
     (if out_revision x = 1
      then (if out_supersedes x \<noteq> None then Some ErrUnexpectedSupersession else None)
      else case out_supersedes x of
        None \<Rightarrow> Some ErrMissingSupersession
      | Some r \<Rightarrow> first_err [
          revision_ref_validate r,
          fail_if (rv_outcome_key r \<noteq> out_key x) (ErrField ''supersedes.outcome_key''),
          fail_if (rv_revision r \<noteq> out_revision x - 1) (ErrField ''supersedes.revision'')])"

subsection \<open>The JSON form\<close>

definition goal_json :: "goal_ref \<Rightarrow> string option" where
  "goal_json g = json_obj [(''tenant'', json_str (gl_tenant g)), (''goal_key'', json_str (gl_goal_key g)),
     (''goal_version'', json_int (gl_goal_version g))]"

definition evidence_json :: "evidence_ref \<Rightarrow> string option" where
  "evidence_json e = json_obj [(''handle'', json_str (er_handle e)), (''content_hash'', json_str (er_content_hash e)),
     (''authority'', json_str (er_authority e))]"

definition observation_json :: "json_fmt \<Rightarrow> observation_ref \<Rightarrow> string option" where
  "observation_json fmt r = json_obj [(''handle'', json_str (or_handle r)),
     (''observation_hash'', json_str (or_observation_hash r)), (''authority'', json_str (or_authority r)),
     (''signature_key_id'', json_str (or_signature_key_id r)), (''observed_at'', jf_time fmt (or_observed_at r))]"

definition receipt_json :: "receipt_ref \<Rightarrow> string option" where
  "receipt_json r = json_obj [(''handle'', json_str (rr_handle r)), (''receipt_hash'', json_str (rr_receipt_hash r)),
     (''signature_key_id'', json_str (rr_signature_key_id r))]"

definition blocker_json :: "blocker_ref \<Rightarrow> string option" where
  "blocker_json b = json_obj ([(''handle'', json_str (bl_handle b)), (''kind'', json_str (bl_kind b)),
     (''authority'', json_str (bl_authority b))] @ json_omit (bl_summary b = []) ''summary'' (json_str (bl_summary b)))"

definition contribution_json :: "json_fmt \<Rightarrow> contribution_ref \<Rightarrow> string option" where
  "contribution_json fmt c = json_obj ([(''contributor_id'', json_str (cb_contributor_id c)), (''kind'', json_str (cb_kind c))]
     @ json_omit (cb_weight c = Fin 0) ''weight'' (jf_float fmt (cb_weight c)))"

definition confidence_json :: "json_fmt \<Rightarrow> confidence_component \<Rightarrow> string option" where
  "confidence_json fmt c = json_obj [(''kind'', json_str (cc_kind c)), (''score'', jf_float fmt (cc_score c))]"

definition revision_ref_json :: "outcome_revision_ref \<Rightarrow> string option" where
  "revision_ref_json r = json_obj [(''outcome_key'', json_str (rv_outcome_key r)), (''revision'', json_uint (rv_revision r)),
     (''outcome_id'', json_str (rv_outcome_id r)), (''reason'', json_str (rv_reason r))]"

definition json_list :: "('a \<Rightarrow> string option) \<Rightarrow> string \<Rightarrow> 'a list \<Rightarrow> (string \<times> string option) list" where
  "json_list f k xs = json_omit (xs = []) k (json_arr (map f xs))"

definition claim_json :: "json_fmt \<Rightarrow> outcome_claim \<Rightarrow> string option" where
  "claim_json fmt c = json_obj (
     [(''goal'', goal_json (ocl_goal c)), (''status'', json_str (outcome_status_text (ocl_status c))),
      (''rule_version'', json_str (ocl_rule_version c))]
     @ json_list evidence_json ''evidence'' (ocl_evidence c)
     @ json_list (observation_json fmt) ''observations'' (ocl_observations c)
     @ json_list blocker_json ''blockers'' (ocl_blockers c)
     @ json_list (confidence_json fmt) ''confidence'' (ocl_confidence c))"

definition outcome_json :: "json_fmt \<Rightarrow> outcome \<Rightarrow> string option" where
  "outcome_json fmt x = json_obj (
     [(''id'', json_str (out_id x)), (''tenant'', json_str (out_tenant x)), (''outcome_key'', json_str (out_key x)),
      (''revision'', json_uint (out_revision x)), (''claim'', claim_json fmt (out_claim x)),
      (''work_case_id'', json_str (out_work_case_id x)), (''work_case_revision'', json_uint (out_work_case_revision x)),
      (''work_plan_revision'', json_uint (out_work_plan_revision x)),
      (''operating_map_version'', json_int (out_operating_map_version x)), (''org_version'', json_int (out_org_version x))]
     @ json_list receipt_json ''action_receipts'' (out_action_receipts x)
     @ json_list (contribution_json fmt) ''contributions'' (out_contributions x)
     @ [(''decided_at'', jf_time fmt (out_decided_at x))]
     @ (case out_supersedes x of None \<Rightarrow> [] | Some r \<Rightarrow> [(''supersedes'', revision_ref_json r)]))"

definition outcome_validate :: "json_fmt \<Rightarrow> outcome \<Rightarrow> out_err option" where
  "outcome_validate fmt x = first_err [
     fail_if (out_tenant x = [] \<or> rune_count (out_tenant x) > 128) (ErrField ''tenant''),
     fail_if (out_key x = [] \<or> rune_count (out_key x) > 256) (ErrField ''outcome_key''),
     fail_if (out_revision x < 1) (ErrField ''revision''),
     fail_if (gl_tenant (ocl_goal (out_claim x)) \<noteq> out_tenant x) (ErrField ''claim.goal.tenant''),
     claim_validate (out_claim x),
     fail_if (out_work_case_id x = []) (ErrField ''work_case_id''),
     fail_if (out_work_case_revision x < 1) (ErrField ''work_case_revision''),
     fail_if (out_work_plan_revision x < 1) (ErrField ''work_plan_revision''),
     fail_if (out_operating_map_version x < 1) (ErrField ''operating_map_version''),
     fail_if (out_org_version x < 0) (ErrField ''org_version''),
     check_each (\<lambda>_. receipt_validate) 0 (out_action_receipts x),
     satisfied_check x,
     check_unique contribution_validate (\<lambda>c. nul_key (cb_contributor_id c) (cb_kind c)) (\<lambda>_. ErrDuplicateContribution) []
       (out_contributions x),
     fail_if (time_is_zero (out_decided_at x)) (ErrField ''decided_at''),
     supersession_check x,
     map_option ErrLeak (NoRawContentLeak (outcome_json fmt) x)]"

subsection \<open>Lineage graph facts\<close>

record lineage_endpoint =
  le_tenant :: string
  le_type :: node_type
  le_business_id :: string
  le_revision :: uint64

definition endpoint_validate :: "lineage_endpoint \<Rightarrow> out_err option" where
  "endpoint_validate e = first_err [
     fail_if (le_tenant e = []) (ErrField ''endpoint tenant''),
     fail_if (\<not> node_type_valid (le_type e)) (ErrField ''endpoint node_type''),
     fail_if (le_business_id e = [] \<or> le_revision e < 1) ErrUnversionedEndpoint]"

definition NodeID :: "lineage_endpoint \<Rightarrow> string" where
  "NodeID e = StableID (le_tenant e) (le_type e) (le_business_id e) (le_revision e)"

record lineage_node =
  ln_id :: string
  ln_tenant :: string
  ln_type :: node_type
  ln_business_id :: string
  ln_revision :: uint64
  ln_summary :: string

definition node_derived_id :: "lineage_node \<Rightarrow> string" where
  "node_derived_id n = StableID (ln_tenant n) (ln_type n) (ln_business_id n) (ln_revision n)"

definition node_json :: "lineage_node \<Rightarrow> string option" where
  "node_json n = json_obj ([(''id'', json_str (ln_id n)), (''tenant'', json_str (ln_tenant n)),
     (''node_type'', json_str (node_type_text (ln_type n))), (''business_id'', json_str (ln_business_id n)),
     (''revision'', json_uint (ln_revision n))] @ json_omit (ln_summary n = []) ''summary'' (json_str (ln_summary n)))"

definition node_validate :: "lineage_node \<Rightarrow> out_err option" where
  "node_validate n = first_err [
     fail_if (ln_tenant n = []) (ErrField ''node tenant''),
     fail_if (\<not> node_type_valid (ln_type n)) (ErrField ''node_type''),
     fail_if (ln_business_id n = [] \<or> ln_revision n < 1) ErrUnversionedEndpoint,
     fail_if (rune_count (ln_summary n) > 512) (ErrField ''node summary''),
     map_option ErrLeak (NoRawContentLeak node_json n)]"

record lineage_edge =
  lg_id :: string
  lg_tenant :: string
  lg_type :: edge_type
  lg_from :: lineage_endpoint
  lg_to :: lineage_endpoint

definition edge_derived_id :: "lineage_edge \<Rightarrow> string" where
  "edge_derived_id e =
     ''oe_'' @ take 40 (hex_encode (sha256 (nul_frame
       [lg_tenant e, edge_type_text (lg_type e), NodeID (lg_from e), NodeID (lg_to e)])))"

definition edge_validate :: "lineage_edge \<Rightarrow> out_err option" where
  "edge_validate e = first_err [
     fail_if (lg_tenant e = []) (ErrField ''edge tenant''),
     fail_if (\<not> edge_type_valid (lg_type e)) (ErrField ''edge_type''),
     endpoint_validate (lg_from e),
     endpoint_validate (lg_to e),
     fail_if (le_tenant (lg_from e) \<noteq> lg_tenant e \<or> le_tenant (lg_to e) \<noteq> lg_tenant e) ErrCrossTenantEdge]"

subsection \<open>Projection records\<close>

record projection_event =
  pe_tenant :: string
  pe_sequence :: uint64
  pe_kind :: projection_kind
  pe_subject_type :: node_type
  pe_subject_id :: string
  pe_subject_revision :: uint64
  pe_payload_hash :: string
  pe_supersedes_sequence :: uint64
  pe_recorded_at :: go_time

definition projection_event_validate :: "projection_event \<Rightarrow> out_err option" where
  "projection_event_validate e = first_err [
     fail_if (pe_tenant e = []) (ErrField ''projection event tenant''),
     fail_if (\<not> projection_kind_valid (pe_kind e)) (ErrField ''projection event kind''),
     fail_if (\<not> node_type_valid (pe_subject_type e)) (ErrField ''projection event subject_type''),
     fail_if (pe_subject_id e = []) (ErrField ''projection event subject_id''),
     fail_if (pe_subject_revision e < 1) (ErrField ''projection event subject_revision''),
     fail_if (pe_payload_hash e = []) (ErrField ''projection event payload_hash''),
     fail_if (time_is_zero (pe_recorded_at e)) (ErrField ''projection event recorded_at'')]"

record projection_watermark =
  wm_tenant :: string
  wm_last_sequence :: uint64
  wm_updated_at :: go_time

definition watermark_validate :: "projection_watermark \<Rightarrow> out_err option" where
  "watermark_validate w = first_err [
     fail_if (wm_tenant w = []) (ErrField ''watermark tenant''),
     fail_if (time_is_zero (wm_updated_at w)) (ErrField ''watermark updated_at'')]"

subsection \<open>What an accepted outcome satisfies\<close>

lemma check_unique_distinct:
  "check_unique chk key dup [] xs = None \<Longrightarrow> (\<forall>x \<in> set xs. chk x = None) \<and> distinct (map key xs)"
  by (simp add: check_unique_None_iff)

lemma satisfied_check_None:
  "satisfied_check x = None \<longleftrightarrow>
     (ocl_status (out_claim x) = OutcomeSatisfied \<longrightarrow> (\<exists>r \<in> set (ocl_observations (out_claim x)). IsAuthoritative r))"
  by (auto simp: satisfied_check_def list_ex_iff)

lemma supersession_check_None:
  "supersession_check x = None \<longleftrightarrow>
     (if out_revision x = 1 then out_supersedes x = None
      else \<exists>r. out_supersedes x = Some r \<and> revision_ref_validate r = None \<and> rv_outcome_key r = out_key x
             \<and> rv_revision r = out_revision x - 1)"
  by (auto simp: supersession_check_def split: option.splits)

text \<open>
  C14: an outcome record that passes \<open>Outcome.Validate\<close> is coherent: it binds the goal of its own
  tenant and revisions of at least 1, its status is one of the closed set, a satisfied conclusion has
  an authoritative signed observation (an action receipt alone never suffices), no observation, no
  confidence component and no contribution is listed twice, and a correction names exactly the
  revision before it while a first revision names none.
\<close>
theorem accepted_outcome_is_coherent:
  assumes "outcome_validate fmt x = None"
  shows "gl_tenant (ocl_goal (out_claim x)) = out_tenant x \<and> out_tenant x \<noteq> [] \<and> out_key x \<noteq> []
       \<and> 1 \<le> out_revision x \<and> 1 \<le> gl_goal_version (ocl_goal (out_claim x))
       \<and> ocl_status (out_claim x) \<in> set OutcomeStatuses
       \<and> (ocl_status (out_claim x) = OutcomeSatisfied \<longrightarrow>
            (\<exists>r \<in> set (ocl_observations (out_claim x)). or_authority r \<noteq> [] \<and> or_signature_key_id r \<noteq> []))
       \<and> distinct (map or_handle (ocl_observations (out_claim x)))
       \<and> distinct (map cc_kind (ocl_confidence (out_claim x)))
       \<and> distinct (map (\<lambda>c. nul_key (cb_contributor_id c) (cb_kind c)) (out_contributions x))
       \<and> (if out_revision x = 1 then out_supersedes x = None
          else \<exists>r. out_supersedes x = Some r \<and> rv_outcome_key r = out_key x \<and> rv_revision r = out_revision x - 1)"
proof -
  have v: "\<not> out_revision x < 1" "out_tenant x \<noteq> []" "out_key x \<noteq> []" "gl_tenant (ocl_goal (out_claim x)) = out_tenant x"
    "claim_validate (out_claim x) = None" "satisfied_check x = None" "supersession_check x = None"
    "check_unique contribution_validate (\<lambda>c. nul_key (cb_contributor_id c) (cb_kind c)) (\<lambda>_. ErrDuplicateContribution) []
       (out_contributions x) = None"
    using assms by (simp_all add: outcome_validate_def)
  have c: "1 \<le> gl_goal_version (ocl_goal (out_claim x))" "outcome_status_valid (ocl_status (out_claim x))"
    "distinct (map or_handle (ocl_observations (out_claim x)))" "distinct (map cc_kind (ocl_confidence (out_claim x)))"
    using v(5) by (auto simp: claim_validate_def goal_validate_def check_unique_None_iff)
  have "ocl_status (out_claim x) \<in> set OutcomeStatuses"
    using c(2) by (cases "ocl_status (out_claim x)") (simp_all add: OutcomeStatuses_def)
  moreover have "1 \<le> out_revision x" using v(1) by (rule leI)
  ultimately show ?thesis
    using v c check_unique_distinct [OF v(8)] by (auto simp: satisfied_check_None supersession_check_None IsAuthoritative_def)
qed

subsection \<open>No secret in an accepted outcome\<close>

text \<open>The strings an outcome carries, at any depth.\<close>

definition claim_strings :: "outcome_claim \<Rightarrow> string list" where
  "claim_strings c =
     [gl_tenant (ocl_goal c), gl_goal_key (ocl_goal c), ocl_rule_version c]
     @ concat (map (\<lambda>e. [er_handle e, er_content_hash e, er_authority e]) (ocl_evidence c))
     @ concat (map (\<lambda>r. [or_handle r, or_observation_hash r, or_authority r, or_signature_key_id r]) (ocl_observations c))
     @ concat (map (\<lambda>b. [bl_handle b, bl_kind b, bl_authority b, bl_summary b]) (ocl_blockers c))
     @ map cc_kind (ocl_confidence c)"

definition outcome_strings :: "outcome \<Rightarrow> string list" where
  "outcome_strings x =
     [out_id x, out_tenant x, out_key x, out_work_case_id x]
     @ claim_strings (out_claim x)
     @ concat (map (\<lambda>r. [rr_handle r, rr_receipt_hash r, rr_signature_key_id r]) (out_action_receipts x))
     @ concat (map (\<lambda>c. [cb_contributor_id c, cb_kind c]) (out_contributions x))
     @ (case out_supersedes x of None \<Rightarrow> [] | Some r \<Rightarrow> [rv_outcome_key r, rv_outcome_id r, rv_reason r])"

lemma mentions_obj_str: "(k, json_str s) \<in> set fs \<Longrightarrow> mentions (json_obj fs) s"
  by (rule mentions_obj [OF _ mentions_str])

lemma mentions_list:
  "x \<in> set xs \<Longrightarrow> mentions (f x) s \<Longrightarrow> set (json_list f k xs) \<subseteq> set fs \<Longrightarrow> mentions (json_obj fs) s"
  by (rule mentions_obj [of k "json_arr (map f xs)"])
    (auto simp: json_list_def json_omit_def intro: mentions_arr [of "f x"] split: if_splits)

lemma mentions_parts:
  "s \<in> {gl_tenant g, gl_goal_key g} \<Longrightarrow> mentions (goal_json g) s"
  "s \<in> {er_handle e, er_content_hash e, er_authority e} \<Longrightarrow> mentions (evidence_json e) s"
  "s \<in> {or_handle r, or_observation_hash r, or_authority r, or_signature_key_id r} \<Longrightarrow> mentions (observation_json fmt r) s"
  "s \<in> {bl_handle b, bl_kind b, bl_authority b, bl_summary b} \<Longrightarrow> s \<noteq> [] \<Longrightarrow> mentions (blocker_json b) s"
  "s = cc_kind cc \<Longrightarrow> mentions (confidence_json fmt cc) s"
  "s \<in> {rr_handle rr, rr_receipt_hash rr, rr_signature_key_id rr} \<Longrightarrow> mentions (receipt_json rr) s"
  "s \<in> {cb_contributor_id cb, cb_kind cb} \<Longrightarrow> mentions (contribution_json fmt cb) s"
  "s \<in> {rv_outcome_key rv, rv_outcome_id rv, rv_reason rv} \<Longrightarrow> mentions (revision_ref_json rv) s"
  by (auto simp: goal_json_def evidence_json_def observation_json_def blocker_json_def confidence_json_def receipt_json_def
      contribution_json_def revision_ref_json_def json_omit_def intro: mentions_obj_str)

lemma claim_mentions:
  assumes "s \<in> set (claim_strings c)" and "s \<noteq> []"
  shows "mentions (claim_json fmt c) s"
proof -
  from assms consider "s \<in> {gl_tenant (ocl_goal c), gl_goal_key (ocl_goal c)}" | "s = ocl_rule_version c"
    | e where "e \<in> set (ocl_evidence c)" "s \<in> {er_handle e, er_content_hash e, er_authority e}"
    | r where "r \<in> set (ocl_observations c)" "s \<in> {or_handle r, or_observation_hash r, or_authority r, or_signature_key_id r}"
    | b where "b \<in> set (ocl_blockers c)" "s \<in> {bl_handle b, bl_kind b, bl_authority b, bl_summary b}"
    | cc where "cc \<in> set (ocl_confidence c)" "s = cc_kind cc"
    by (auto simp: claim_strings_def)
  then show ?thesis
  proof cases
    case 1
    then show ?thesis unfolding claim_json_def
      by (intro mentions_obj [OF _ mentions_parts(1), of "''goal''"]) auto
  next
    case 2
    then show ?thesis unfolding claim_json_def by (intro mentions_obj_str [of "''rule_version''"]) simp
  next
    case 0: 3
    show ?thesis unfolding claim_json_def by (rule mentions_list [of e "ocl_evidence c" "evidence_json" s "''evidence''"]) (use mentions_parts(2) [of s e] 0 in auto)
  next
    case 0: 4
    show ?thesis unfolding claim_json_def by (rule mentions_list [of r "ocl_observations c" "observation_json fmt" s "''observations''"]) (use mentions_parts(3) [of s r] 0 in auto)
  next
    case 0: 5
    show ?thesis unfolding claim_json_def by (rule mentions_list [of b "ocl_blockers c" "blocker_json" s "''blockers''"]) (use mentions_parts(4) [of s b] assms(2) 0 in auto)
  next
    case 0: 6
    show ?thesis unfolding claim_json_def by (rule mentions_list [of cc "ocl_confidence c" "confidence_json fmt" s "''confidence''"]) (use mentions_parts(5) [of s cc] 0 in auto)
  qed
qed

lemma outcome_mentions:
  assumes "s \<in> set (outcome_strings x)" and "s \<noteq> []"
  shows "mentions (outcome_json fmt x) s"
proof -
  from assms consider "s \<in> {out_id x, out_tenant x, out_key x, out_work_case_id x}" | "s \<in> set (claim_strings (out_claim x))"
    | r where "r \<in> set (out_action_receipts x)" "s \<in> {rr_handle r, rr_receipt_hash r, rr_signature_key_id r}"
    | c where "c \<in> set (out_contributions x)" "s \<in> {cb_contributor_id c, cb_kind c}"
    | v where "out_supersedes x = Some v" "s \<in> {rv_outcome_key v, rv_outcome_id v, rv_reason v}"
    by (cases "out_supersedes x") (auto simp: outcome_strings_def)
  then show ?thesis
  proof cases
    case 1
    then show ?thesis unfolding outcome_json_def by (auto intro: mentions_obj_str)
  next
    case 2
    then show ?thesis unfolding outcome_json_def
      by (intro mentions_obj [OF _ claim_mentions [OF _ assms(2)], of "''claim''"]) auto
  next
    case 0: 3
    show ?thesis unfolding outcome_json_def by (rule mentions_list [of r "out_action_receipts x" "receipt_json" s "''action_receipts''"]) (use mentions_parts(6) [of s r] 0 in auto)
  next
    case 0: 4
    show ?thesis unfolding outcome_json_def by (rule mentions_list [of c "out_contributions x" "contribution_json fmt" s "''contributions''"]) (use mentions_parts(7) [of s c] 0 in auto)
  next
    case 5
    then show ?thesis unfolding outcome_json_def
      by (intro mentions_obj [OF _ mentions_parts(8), of "''supersedes''"]) auto
  qed
qed

text \<open>
  C15: an accepted outcome holds no connector, query or credential shape.  No string of a record that
  passes \<open>Outcome.Validate\<close>, at any depth, contains, in any letter case: a URL scheme (a letter, a run
  of scheme characters and \<open>://\<close>); \<open>jdbc:\<close>; a query \<open>select ... from\<close> of whole words, at most 300 bytes of
  JSON apart; \<open>select*from\<close>; a path segment \<open>api/\<close>; \<open>password\<close>, or a whole word \<open>user id\<close>, \<open>uid\<close>, \<open>pwd\<close>,
  \<open>data source\<close>, \<open>initial catalog\<close> or \<open>integrated security\<close>, then blanks and \<open>=\<close>; a name between
  backslashes; or \<open>authorization:\<close>, blanks and \<open>bearer\<close>.  Neither the JSON escaping nor the text around it
  hides one from \<open>NoRawContentLeak\<close>.  A whole word starts at the start of the string or after printable
  punctuation or a space (a query also after a line break or tab).
\<close>
theorem accepted_outcome_holds_no_secret:
  assumes "outcome_validate fmt x = None" and "s \<in> set (outcome_strings x)"
  shows "\<not> leaks_secret s"
proof (cases "s = []")
  case False
  have "NoRawContentLeak (outcome_json fmt) x = None" using assms(1) by (simp add: outcome_validate_def)
  then show ?thesis using outcome_mentions [OF assms(2) False] by (rule no_leak_mentions)
qed (use leaks_secret_nonempty in blast)

subsection \<open>Deterministic ids\<close>

lemma nul_free_node_type_text: "node_type_valid t \<Longrightarrow> nul_free (node_type_text t)"
  by (cases t) (simp_all add: NUL_def)

lemma node_type_text_inj:
  "node_type_valid t \<Longrightarrow> node_type_valid t' \<Longrightarrow> node_type_text t = node_type_text t' \<Longrightarrow> t = t'"
  by (cases t; cases t') simp_all

lemma format_uint_inj: "format_uint a = format_uint b \<longleftrightarrow> a = b"
  by (auto simp: format_uint_def word_unat_eq_iff dest: format_nat_inj)

definition id_frame :: "string \<Rightarrow> node_type \<Rightarrow> string \<Rightarrow> uint64 \<Rightarrow> string" where
  "id_frame tenant t b r = nul_frame [tenant, node_type_text t, b, format_uint r]"

lemma StableID_frame: "StableID tenant t b r = ''ol_'' @ take 40 (hex_encode (sha256 (id_frame tenant t b r)))"
  by (simp add: StableID_def id_frame_def)

text \<open>
  C16: a lineage id determines its inputs.  For tenants and business ids without NUL bytes and known
  node types, equal ids mean equal tenant, type, business id and revision, as long as the two hashed
  texts do not collide under the truncated SHA-256 (the documented strength of the hash).
\<close>
theorem stable_id_determines_inputs:
  assumes "nul_free t1" and "nul_free t2" and "nul_free b1" and "nul_free b2"
    and "node_type_valid ty1" and "node_type_valid ty2"
    and "inj_on (\<lambda>m. take 40 (hex_encode (sha256 m))) {id_frame t1 ty1 b1 r1, id_frame t2 ty2 b2 r2}"
    and "StableID t1 ty1 b1 r1 = StableID t2 ty2 b2 r2"
  shows "t1 = t2 \<and> ty1 = ty2 \<and> b1 = b2 \<and> r1 = r2"
proof -
  have "id_frame t1 ty1 b1 r1 = id_frame t2 ty2 b2 r2"
    using assms(7,8) by (auto simp: StableID_frame dest: inj_onD)
  then have "[t1, node_type_text ty1, b1, format_uint r1] = [t2, node_type_text ty2, b2, format_uint r2]"
    unfolding id_frame_def
    using assms nul_free_node_type_text by (intro nul_frame_inj) (simp_all add: format_uint_def)
  then show ?thesis using node_type_text_inj [OF assms(5,6)] format_uint_inj by simp
qed

text \<open>
  C17: the NUL framing of \<open>StableID\<close> is ambiguous for ids that hold NUL bytes: moving a frame from the
  business id into the tenant gives another tenant's record the same id, whatever the hash.
\<close>
theorem stable_id_collides_across_tenants:
  "StableID t ty (x @ NUL # node_type_text ty @ NUL # y) r = StableID (t @ NUL # node_type_text ty @ NUL # x) ty y r"
  by (simp add: StableID_def)


subsection \<open>A concrete outcome\<close>

definition sample_fmt :: json_fmt where
  "sample_fmt = \<lparr>jf_float = (\<lambda>_. Some ''0''), jf_time = (\<lambda>_. Some [CHR 0x22, CHR ''2'', CHR 0x22])\<rparr>"

definition sample_claim :: "outcome_status \<Rightarrow> outcome_claim" where
  "sample_claim st = \<lparr>ocl_goal = \<lparr>gl_tenant = ''t'', gl_goal_key = ''g'', gl_goal_version = 1\<rparr>, ocl_status = st,
     ocl_rule_version = ''r'', ocl_evidence = [],
     ocl_observations = [\<lparr>or_handle = ''h'', or_observation_hash = ''o'', or_authority = ''a'', or_signature_key_id = ''k'',
        or_observed_at = 1\<rparr>], ocl_blockers = [], ocl_confidence = []\<rparr>"

definition sample_outcome :: outcome where
  "sample_outcome = \<lparr>out_id = [], out_tenant = ''t'', out_key = ''k'', out_revision = 1,
     out_claim = sample_claim OutcomeSatisfied, out_work_case_id = ''c'', out_work_case_revision = 1,
     out_work_plan_revision = 1, out_operating_map_version = 1, out_org_version = 0, out_action_receipts = [],
     out_contributions = [], out_decided_at = 1, out_supersedes = None\<rparr>"

lemma sample_outcome_simps [simp]:
  "out_tenant sample_outcome = ''t''" "out_key sample_outcome = ''k''" "out_revision sample_outcome = 1"
  "out_claim sample_outcome = sample_claim OutcomeSatisfied" "out_work_case_id sample_outcome = ''c''"
  "out_supersedes sample_outcome = None"
  by (simp_all add: sample_outcome_def)

lemma calm_field_names:
  "list_all calm [''id'', ''tenant'', ''outcome_key'', ''revision'', ''claim'', ''goal'', ''goal_key'', ''goal_version'',
     ''status'', ''rule_version'', ''evidence'', ''observations'', ''blockers'', ''confidence'', ''handle'', ''content_hash'',
     ''authority'', ''observation_hash'', ''signature_key_id'', ''observed_at'', ''kind'', ''summary'', ''score'', ''receipt_hash'']"
  "list_all calm [''contributor_id'', ''weight'', ''outcome_id'', ''reason'', ''work_case_id'', ''work_case_revision'',
     ''work_plan_revision'', ''operating_map_version'', ''org_version'', ''action_receipts'', ''contributions'', ''decided_at'',
     ''supersedes'']"
  by (simp_all add: calm_def quiet_def plain_def byte_def lower_rune_def json_escape_byte_def leak_words_def)

lemma calm_status: "outcome_status_valid st \<Longrightarrow> calm (outcome_status_text st)"
  by (cases st) (simp_all add: calm_def quiet_def plain_def byte_def lower_rune_def json_escape_byte_def leak_words_def)

definition tame_fmt :: "json_fmt \<Rightarrow> bool" where
  "tame_fmt fmt \<longleftrightarrow> (\<forall>x. tame (jf_float fmt x)) \<and> (\<forall>t. tame (jf_time fmt t))"

lemmas tame_parts = tame_obj tame_str tame_arr tame_uint tame_int

lemma tame_json_list:
  "calm k \<Longrightarrow> list_all (\<lambda>x. tame (f x)) xs \<Longrightarrow> list_all (\<lambda>f. calm (fst f) \<and> tame (snd f)) (json_list f k xs)"
  by (simp add: json_list_def json_omit_def tame_arr list.pred_map o_def)

text \<open>The guard accepts every outcome whose strings are calm.\<close>

lemma list_all_concat: "list_all P (concat (map f xs)) \<longleftrightarrow> list_all (\<lambda>x. list_all P (f x)) xs"
  by (induction xs) simp_all

lemma tame_records:
  "list_all calm [gl_tenant g, gl_goal_key g] \<Longrightarrow> tame (goal_json g)"
  "list_all calm [er_handle e, er_content_hash e, er_authority e] \<Longrightarrow> tame (evidence_json e)"
  "list_all calm [bl_handle b, bl_kind b, bl_authority b, bl_summary b] \<Longrightarrow> tame (blocker_json b)"
  "list_all calm [rr_handle r, rr_receipt_hash r, rr_signature_key_id r] \<Longrightarrow> tame (receipt_json r)"
  "list_all calm [rv_outcome_key v, rv_outcome_id v, rv_reason v] \<Longrightarrow> tame (revision_ref_json v)"
  using calm_field_names
  by (simp_all add: goal_json_def evidence_json_def blocker_json_def receipt_json_def revision_ref_json_def json_omit_def tame_parts)

lemma tame_fmt_records:
  "tame_fmt fmt \<Longrightarrow> list_all calm [or_handle x, or_observation_hash x, or_authority x, or_signature_key_id x] \<Longrightarrow>
     tame (observation_json fmt x)"
  "tame_fmt fmt \<Longrightarrow> calm (cc_kind k) \<Longrightarrow> tame (confidence_json fmt k)"
  "tame_fmt fmt \<Longrightarrow> list_all calm [cb_contributor_id c, cb_kind c] \<Longrightarrow> tame (contribution_json fmt c)"
  using calm_field_names
  by (simp_all add: observation_json_def confidence_json_def contribution_json_def json_omit_def tame_fmt_def tame_parts)

lemma claim_tame:
  assumes "tame_fmt fmt" and "outcome_status_valid (ocl_status c)" and "list_all calm (claim_strings c)"
  shows "tame (claim_json fmt c)"
proof -
  note s = assms(3) [unfolded claim_strings_def list_all_append list_all_concat list.pred_map o_def]
  have e: "list_all (\<lambda>e. tame (evidence_json e)) (ocl_evidence c)"
    using s by (auto elim!: list.pred_mono_strong intro!: tame_records)
  have r: "list_all (\<lambda>r. tame (observation_json fmt r)) (ocl_observations c)"
    using s by (auto elim!: list.pred_mono_strong intro!: tame_fmt_records [OF assms(1)])
  have b: "list_all (\<lambda>b. tame (blocker_json b)) (ocl_blockers c)"
    using s by (auto elim!: list.pred_mono_strong intro!: tame_records)
  have k: "list_all (\<lambda>k. tame (confidence_json fmt k)) (ocl_confidence c)"
    using s by (auto elim!: list.pred_mono_strong intro!: tame_fmt_records [OF assms(1)])
  have g: "tame (goal_json (ocl_goal c))" "calm (ocl_rule_version c)" using s by (auto intro!: tame_records)
  note n = calm_field_names [unfolded list.pred_inject]
  show ?thesis
    unfolding claim_json_def
    by (rule tame_obj) (simp add: n g tame_str calm_status assms(2) tame_json_list e r b k)
qed

lemma outcome_tame:
  assumes "tame_fmt fmt" and "outcome_status_valid (ocl_status (out_claim x))" and "list_all calm (outcome_strings x)"
  shows "tame (outcome_json fmt x)"
proof -
  note s = assms(3) [unfolded outcome_strings_def list_all_append list_all_concat]
  have c: "tame (claim_json fmt (out_claim x))"
    using assms s by (intro claim_tame) simp_all
  have r: "list_all (\<lambda>r. tame (receipt_json r)) (out_action_receipts x)"
    using s by (auto elim!: list.pred_mono_strong intro!: tame_records)
  have k: "list_all (\<lambda>k. tame (contribution_json fmt k)) (out_contributions x)"
    using s by (auto elim!: list.pred_mono_strong intro!: tame_fmt_records [OF assms(1)])
  note n = calm_field_names [unfolded list.pred_inject]
  have v: "list_all (\<lambda>f. calm (fst f) \<and> tame (snd f))
      (case out_supersedes x of None \<Rightarrow> [] | Some r \<Rightarrow> [(''supersedes'', revision_ref_json r)])"
    using s by (auto simp: n intro!: tame_records split: option.splits)
  have i: "calm (out_id x)" "calm (out_tenant x)" "calm (out_key x)" "calm (out_work_case_id x)" using s by simp_all
  have t: "tame (jf_time fmt (out_decided_at x))" using assms(1) by (simp add: tame_fmt_def)
  show ?thesis
    unfolding outcome_json_def
    by (rule tame_obj) (simp add: n i t c v tame_str tame_uint tame_int tame_json_list r k)
qed

lemma sample_fmt_tame: "tame_fmt sample_fmt"
proof -
  have "calm ''2''" by (rule calm_id_chars) simp
  then have "tame (Some (json_quote ''2''))" by (rule tame_quote)
  moreover have "json_quote ''2'' = [CHR 0x22, CHR ''2'', CHR 0x22]"
    using plain_escape [of "''2''" "[]"] by (simp add: json_quote_def plain_def byte_def json_escape_byte_def)
  ultimately show ?thesis by (simp add: tame_fmt_def sample_fmt_def tame_structural structural_def)
qed

lemma sample_outcome_valid: "outcome_validate sample_fmt sample_outcome = None"
proof -
  have "list_all calm (outcome_strings sample_outcome)"
    by (simp add: outcome_strings_def sample_outcome_def sample_claim_def claim_strings_def calm_def quiet_def plain_def
        byte_def lower_rune_def json_escape_byte_def leak_words_def)
  then have "tame (outcome_json sample_fmt sample_outcome)"
    by (intro outcome_tame sample_fmt_tame) (simp_all add: sample_outcome_def sample_claim_def)
  then have "NoRawContentLeak (outcome_json sample_fmt) sample_outcome = None" by (rule tame_no_leak)
  then show ?thesis
    by (simp add: outcome_validate_def sample_outcome_def sample_claim_def claim_validate_def goal_validate_def
        observation_validate_def satisfied_check_def supersession_check_def IsAuthoritative_def time_is_zero_def byte_def)
qed

lemma accepted_outcome_is_coherent_witness:
  "gl_tenant (ocl_goal (out_claim sample_outcome)) = out_tenant sample_outcome"
  using accepted_outcome_is_coherent [OF sample_outcome_valid] by blast

lemma accepted_outcome_holds_no_secret_witness:
  "\<not> leaks_secret (out_key sample_outcome) \<and> leaks_secret ''SELECT a FROM t'' \<and> leaks_secret ''my Password  =x''"
  using accepted_outcome_holds_no_secret [OF sample_outcome_valid, of "out_key sample_outcome"] secret_examples
  by (simp add: outcome_strings_def)

lemma stable_id_determines_inputs_witness:
  "StableID ''t'' NodeOutcome ''k'' 1 = StableID ''t'' NodeOutcome ''k'' 1 \<and> (''t'' :: string) = ''t''"
  using stable_id_determines_inputs [of "''t''" "''t''" "''k''" "''k''" NodeOutcome NodeOutcome 1 1] by (simp add: NUL_def)

end
