(* ===== verification/OutPolicy.thy ===== *)
theory OutPolicy
  imports OutModel
begin

text \<open>
  The published evaluation rule, \<^verbatim>\<open>internal/outcome/policy.go\<close>, and the confidence components,
  \<^verbatim>\<open>internal/outcome/confidence.go\<close>: policies, the verdict lattice \<open>combineStatus\<close> and the five
  scores.  Scores are exact \<open>float64\<close> values.
\<close>

subsection \<open>Policies\<close>

record required_postcondition =
  rp_need_id :: string
  rp_postcondition_id :: string
  rp_authority :: string
  rp_expected_hash :: string
  rp_accepting_hashes :: "string list"

definition hasAcceptingDefinition :: "required_postcondition \<Rightarrow> bool" where
  "hasAcceptingDefinition rp \<longleftrightarrow> rp_expected_hash rp \<noteq> [] \<or> rp_accepting_hashes rp \<noteq> []"

definition accepts :: "required_postcondition \<Rightarrow> string \<Rightarrow> bool" where
  "accepts rp hash \<longleftrightarrow>
     (rp_expected_hash rp \<noteq> [] \<and> hash = rp_expected_hash rp) \<or> hash \<in> set (rp_accepting_hashes rp)"

record policy =
  po_version :: string
  po_required :: "required_postcondition list"

datatype policy_err = ErrPolicyVersion | ErrPolicyRequired | ErrPolicyAuthority | ErrPolicyDuplicateNeed

definition required_validate :: "required_postcondition \<Rightarrow> policy_err option" where
  "required_validate rp = first_err [
     fail_if (rp_need_id rp = [] \<or> rp_postcondition_id rp = []) ErrPolicyRequired,
     fail_if (rp_authority rp = []) ErrPolicyAuthority]"

definition policy_validate :: "policy \<Rightarrow> policy_err option" where
  "policy_validate p = first_err [
     fail_if (po_version p = []) ErrPolicyVersion,
     check_unique required_validate rp_need_id (\<lambda>_. ErrPolicyDuplicateNeed) [] (po_required p)]"

subsection \<open>The verdict lattice\<close>

datatype need_verdict = NeedSatisfied | NeedUnsatisfied | NeedDisputed | NeedUnknown

definition combineStatus :: "need_verdict list \<Rightarrow> bool \<Rightarrow> bool \<Rightarrow> nat \<Rightarrow> outcome_status" where
  "combineStatus verdicts hasBlocker hasHumanDispute requiredCount =
     (let anyDisputed = NeedDisputed \<in> set verdicts;
          anyUnsatisfied = NeedUnsatisfied \<in> set verdicts;
          anyUnknown = NeedUnknown \<in> set verdicts;
          satisfiedCount = length (filter (\<lambda>v. v = NeedSatisfied) verdicts)
      in if anyDisputed \<or> hasHumanDispute then OutcomeDisputed
         else if hasBlocker then OutcomeBlocked
         else if anyUnsatisfied then OutcomeUnsatisfied
         else if anyUnknown then OutcomeUnknown
         else if requiredCount > 0 \<and> satisfiedCount = requiredCount then OutcomeSatisfied
         else OutcomeUnverified)"

text \<open>
  The precedence the rule publishes: each verdict is worth the status it alone would give, and the
  combination is the worst one.
\<close>

fun severity :: "outcome_status \<Rightarrow> nat" where
  "severity OutcomeDisputed = 5"
| "severity OutcomeBlocked = 4"
| "severity OutcomeUnsatisfied = 3"
| "severity OutcomeUnknown = 2"
| "severity OutcomeSatisfied = 1"
| "severity _ = 0"

fun verdict_status :: "need_verdict \<Rightarrow> outcome_status" where
  "verdict_status NeedDisputed = OutcomeDisputed"
| "verdict_status NeedUnsatisfied = OutcomeUnsatisfied"
| "verdict_status NeedUnknown = OutcomeUnknown"
| "verdict_status NeedSatisfied = OutcomeSatisfied"

definition signals :: "need_verdict list \<Rightarrow> bool \<Rightarrow> bool \<Rightarrow> outcome_status set" where
  "signals vs blocker dispute =
     verdict_status ` set vs \<union> (if blocker then {OutcomeBlocked} else {}) \<union> (if dispute then {OutcomeDisputed} else {})"

lemma verdict_status_mem:
  "OutcomeDisputed \<in> verdict_status ` V \<longleftrightarrow> NeedDisputed \<in> V"
  "OutcomeUnsatisfied \<in> verdict_status ` V \<longleftrightarrow> NeedUnsatisfied \<in> V"
  "OutcomeUnknown \<in> verdict_status ` V \<longleftrightarrow> NeedUnknown \<in> V"
  "OutcomeSatisfied \<in> verdict_status ` V \<longleftrightarrow> NeedSatisfied \<in> V"
proof -
  have inj: "verdict_status v = verdict_status w \<longleftrightarrow> v = w" for v w by (cases v; cases w) simp_all
  show "OutcomeDisputed \<in> verdict_status ` V \<longleftrightarrow> NeedDisputed \<in> V"
    using inj [of NeedDisputed] by (auto simp: image_iff)
  show "OutcomeUnsatisfied \<in> verdict_status ` V \<longleftrightarrow> NeedUnsatisfied \<in> V"
    using inj [of NeedUnsatisfied] by (auto simp: image_iff)
  show "OutcomeUnknown \<in> verdict_status ` V \<longleftrightarrow> NeedUnknown \<in> V"
    using inj [of NeedUnknown] by (auto simp: image_iff)
  show "OutcomeSatisfied \<in> verdict_status ` V \<longleftrightarrow> NeedSatisfied \<in> V"
    using inj [of NeedSatisfied] by (auto simp: image_iff)
qed

lemma all_satisfied_count:
  "length (filter (\<lambda>v. v = NeedSatisfied) vs) = length vs \<longleftrightarrow> set vs \<subseteq> {NeedSatisfied}"
proof (induction vs)
  case (Cons v vs)
  have "length (filter (\<lambda>v. v = NeedSatisfied) vs) \<noteq> Suc (length vs)"
    using length_filter_le [of "\<lambda>v. v = NeedSatisfied" vs] by linarith
  with Cons show ?case by (cases "v = NeedSatisfied") auto
qed simp

lemma only_satisfied:
  "set vs \<subseteq> {NeedSatisfied} \<longleftrightarrow> NeedDisputed \<notin> set vs \<and> NeedUnsatisfied \<notin> set vs \<and> NeedUnknown \<notin> set vs"
proof
  assume r: "NeedDisputed \<notin> set vs \<and> NeedUnsatisfied \<notin> set vs \<and> NeedUnknown \<notin> set vs"
  show "set vs \<subseteq> {NeedSatisfied}"
  proof
    fix v
    assume "v \<in> set vs"
    with r have "v \<noteq> NeedDisputed \<and> v \<noteq> NeedUnsatisfied \<and> v \<noteq> NeedUnknown" by blast
    then show "v \<in> {NeedSatisfied}" by (cases v) simp_all
  qed
qed blast

lemma combine_eq:
  "combineStatus vs blocker dispute (length vs) =
     (if NeedDisputed \<in> set vs \<or> dispute then OutcomeDisputed else if blocker then OutcomeBlocked
      else if NeedUnsatisfied \<in> set vs then OutcomeUnsatisfied else if NeedUnknown \<in> set vs then OutcomeUnknown
      else if NeedSatisfied \<in> set vs then OutcomeSatisfied else OutcomeUnverified)"
proof -
  have "vs \<noteq> [] \<and> length (filter (\<lambda>v. v = NeedSatisfied) vs) = length vs \<longleftrightarrow> NeedSatisfied \<in> set vs"
    if "NeedDisputed \<notin> set vs" "NeedUnsatisfied \<notin> set vs" "NeedUnknown \<notin> set vs"
    unfolding all_satisfied_count using that only_satisfied [of vs] by (cases vs) auto
  then show ?thesis by (simp add: combineStatus_def Let_def)
qed

lemma signals_mem:
  "s \<in> signals vs blocker dispute \<longleftrightarrow>
     (s = OutcomeDisputed \<and> (NeedDisputed \<in> set vs \<or> dispute)) \<or> (s = OutcomeBlocked \<and> blocker)
     \<or> (s = OutcomeUnsatisfied \<and> NeedUnsatisfied \<in> set vs) \<or> (s = OutcomeUnknown \<and> NeedUnknown \<in> set vs)
     \<or> (s = OutcomeSatisfied \<and> NeedSatisfied \<in> set vs)"
proof -
  have "s \<in> verdict_status ` set vs \<longleftrightarrow>
     (s = OutcomeDisputed \<and> NeedDisputed \<in> set vs) \<or> (s = OutcomeUnsatisfied \<and> NeedUnsatisfied \<in> set vs)
     \<or> (s = OutcomeUnknown \<and> NeedUnknown \<in> set vs) \<or> (s = OutcomeSatisfied \<and> NeedSatisfied \<in> set vs)"
  proof -
    have other: "verdict_status v \<noteq> OutcomeBlocked" "verdict_status v \<noteq> OutcomeUnverified" "verdict_status v \<noteq> OutcomeOther t" for v t
      by (cases v; simp)+
    show ?thesis
      by (cases s) (simp_all add: verdict_status_mem image_iff [where z = OutcomeBlocked] image_iff [where z = OutcomeUnverified]
          image_iff [where z = "OutcomeOther _"] other [symmetric])
  qed
  then show ?thesis by (auto simp: signals_def)
qed

lemma combine_worst:
  assumes "s \<in> signals vs blocker dispute"
  shows "severity s \<le> severity (combineStatus vs blocker dispute (length vs))
       \<and> combineStatus vs blocker dispute (length vs) \<in> signals vs blocker dispute"
  using assms unfolding combine_eq signals_mem by (simp split: if_splits) auto

text \<open>
  C18: the verdict lattice.  With one verdict per required postcondition, the combined status is the
  most severe signal there is, in the published order disputed, blocked, unsatisfied, unknown,
  satisfied, where the signals are the verdicts, any external blocker and any human dispute; with no
  signal at all it is unverified.
\<close>
theorem combined_status_is_worst_signal:
  "combineStatus vs blocker dispute (length vs)
     \<in> (if signals vs blocker dispute = {} then {OutcomeUnverified} else signals vs blocker dispute)
   \<and> severity ` signals vs blocker dispute \<subseteq> {..severity (combineStatus vs blocker dispute (length vs))}"
proof (cases "signals vs blocker dispute = {}")
  case True
  then have "vs = []" "\<not> blocker" "\<not> dispute" by (auto simp: signals_def split: if_splits)
  then show ?thesis using combine_eq [of "[]" False False] by (simp add: signals_def)
next
  case False
  then obtain s where "s \<in> signals vs blocker dispute" by blast
  then show ?thesis using combine_worst [of _ vs blocker dispute] False by auto
qed

lemma satisfied_iff:
  "combineStatus vs blocker dispute n = OutcomeSatisfied \<longleftrightarrow>
     \<not> blocker \<and> \<not> dispute \<and> 0 < n \<and> set vs \<subseteq> {NeedSatisfied} \<and> length vs = n"
  using all_satisfied_count [of vs] only_satisfied [of vs] by (auto simp: combineStatus_def Let_def)

subsection \<open>Confidence\<close>

definition clamp01 :: "rat \<Rightarrow> rat" where
  "clamp01 f = (if f < 0 then 0 else if f > 1 then 1 else f)"

definition ratio :: "int \<Rightarrow> int \<Rightarrow> rat" where
  "ratio n d = (if d \<le> 0 then 1 else clamp01 (f64_div_int n d))"

record confidence_inputs =
  ci_required :: int
  ci_covered :: int
  ci_fresh :: int
  ci_conflicts :: int
  ci_contributions :: int

definition confidenceComponents :: "confidence_inputs \<Rightarrow> confidence_component list" where
  "confidenceComponents x =
     (let authority = ratio (ci_covered x) (ci_required x);
          freshness = ratio (ci_fresh x) (ci_required x);
          coverage = ratio (ci_covered x) (ci_required x);
          consistency = (if ci_required x = 0 then 1 else clamp01 (f64_round (1 - ratio (ci_conflicts x) (ci_required x))));
          attribution = (if ci_contributions x > 0 then 1 else 0)
      in [\<lparr>cc_kind = ''authority'', cc_score = Fin authority\<rparr>,
          \<lparr>cc_kind = ''freshness'', cc_score = Fin freshness\<rparr>,
          \<lparr>cc_kind = ''coverage'', cc_score = Fin coverage\<rparr>,
          \<lparr>cc_kind = ''consistency'', cc_score = Fin consistency\<rparr>,
          \<lparr>cc_kind = ''attribution'', cc_score = Fin attribution\<rparr>])"

lemma clamp01_range [simp]: "\<not> clamp01 f < 0" "\<not> 1 < clamp01 f"
  by (auto simp: clamp01_def)

lemma ratio_range [simp]: "\<not> ratio n d < 0" "\<not> 1 < ratio n d"
  by (auto simp: ratio_def)

lemma confidence_valid: "c \<in> set (confidenceComponents x) \<Longrightarrow> confidence_validate c = None"
  by (auto simp: confidenceComponents_def confidence_validate_def f64_outside_unit_def Let_def byte_def split: if_splits)

lemma confidence_kinds: "map cc_kind (confidenceComponents x)
    = [''authority'', ''freshness'', ''coverage'', ''consistency'', ''attribution'']"
  by (simp add: confidenceComponents_def Let_def)

end
