(* ===== verification/OutStore.thy ===== *)
theory OutStore
  imports OutPolicy
begin

text \<open>
  The outcome store, \<^verbatim>\<open>internal/outcome/store.go\<close>: immutable outcome revisions with explicit
  supersession, lineage facts, the projection outbox and the watermark.

  \<^item> \<open>outcome_ops\<close> is the Go interface \<open>Store\<close> over a store state; \<open>outcome_memory\<close> the in-memory store.
  \<^item> \<open>spec_append\<close>, \<open>spec_revision\<close> and \<open>spec_latest\<close> are the abstract store: a chain of revisions per
    tenant and outcome key.
  \<^item> the locale \<open>outcome_chain_store\<close> is the contract its clients rely on; the in-memory store keeps it
    through the NUL-joined keys of \<open>outcomeKeyOf\<close>.
\<close>

datatype out_store_err =
    ErrOutcomeNotFound
  | ErrRevisionExists
  | ErrBrokenSupersession
  | ErrWatermarkRegression
  | ErrInvalidRecord out_err
  | ErrOutcomeStoreFailure

record 's outcome_ops =
  oo_append :: "outcome \<Rightarrow> 's \<Rightarrow> (out_store_err + outcome) \<times> 's"
  oo_get :: "string \<Rightarrow> string \<Rightarrow> uint64 \<Rightarrow> 's \<Rightarrow> out_store_err + outcome"
  oo_latest :: "string \<Rightarrow> string \<Rightarrow> 's \<Rightarrow> out_store_err + outcome"
  oo_lineage :: "lineage_node list \<Rightarrow> lineage_edge list \<Rightarrow> 's \<Rightarrow> out_store_err option \<times> 's"
  oo_project :: "projection_event \<Rightarrow> 's \<Rightarrow> (out_store_err + projection_event) \<times> 's"
  oo_watermark :: "string \<Rightarrow> 's \<Rightarrow> out_store_err + projection_watermark"
  oo_advance :: "go_time \<Rightarrow> string \<Rightarrow> uint64 \<Rightarrow> 's \<Rightarrow> (out_store_err + projection_watermark) \<times> 's"

subsection \<open>The in-memory store\<close>

record outcome_memory =
  om_outcomes :: "string \<Rightarrow> outcome list"
  om_nodes :: "string \<Rightarrow> lineage_node option"
  om_edges :: "string \<Rightarrow> lineage_edge option"
  om_events :: "string \<Rightarrow> projection_event list"
  om_watermarks :: "string \<Rightarrow> projection_watermark option"

definition NewOutcomeMemory :: outcome_memory where
  "NewOutcomeMemory = \<lparr>om_outcomes = (\<lambda>_. []), om_nodes = (\<lambda>_. None), om_edges = (\<lambda>_. None),
     om_events = (\<lambda>_. []), om_watermarks = (\<lambda>_. None)\<rparr>"

definition outcomeKeyOf :: "string \<Rightarrow> string \<Rightarrow> string" where
  "outcomeKeyOf tenant key = nul_key tenant key"

definition head_revision :: "outcome list \<Rightarrow> uint64" where
  "head_revision chain = (if chain = [] then 0 else out_revision (last chain))"

definition head_id :: "outcome list \<Rightarrow> string" where
  "head_id chain = (if chain = [] then [] else out_id (last chain))"

definition append_check :: "outcome \<Rightarrow> outcome list \<Rightarrow> out_store_err option" where
  "append_check x chain = first_err [
     fail_if (out_revision x \<le> head_revision chain) ErrRevisionExists,
     fail_if (out_revision x > head_revision chain + 1) ErrBrokenSupersession,
     fail_if (out_revision x > 1 \<and> (case out_supersedes x of None \<Rightarrow> True | Some r \<Rightarrow> rv_outcome_id r \<noteq> head_id chain))
       ErrBrokenSupersession]"

definition om_append :: "json_fmt \<Rightarrow> outcome \<Rightarrow> outcome_memory \<Rightarrow> (out_store_err + outcome) \<times> outcome_memory" where
  "om_append fmt x s =
     (case outcome_validate fmt x of Some e \<Rightarrow> (Inl (ErrInvalidRecord e), s)
      | None \<Rightarrow>
          (let k = outcomeKeyOf (out_tenant x) (out_key x); chain = om_outcomes s k
           in case append_check x chain of Some e \<Rightarrow> (Inl e, s)
              | None \<Rightarrow>
                  (let y = x\<lparr>out_id := outcome_derived_id x\<rparr>
                   in (Inr y, s\<lparr>om_outcomes := (om_outcomes s)(k := chain @ [y])\<rparr>))))"

definition om_get :: "string \<Rightarrow> string \<Rightarrow> uint64 \<Rightarrow> outcome_memory \<Rightarrow> out_store_err + outcome" where
  "om_get tenant key revision s =
     (case find (\<lambda>x. out_revision x = revision) (om_outcomes s (outcomeKeyOf tenant key)) of
        Some x \<Rightarrow> Inr x | None \<Rightarrow> Inl ErrOutcomeNotFound)"

definition om_latest :: "string \<Rightarrow> string \<Rightarrow> outcome_memory \<Rightarrow> out_store_err + outcome" where
  "om_latest tenant key s =
     (let chain = om_outcomes s (outcomeKeyOf tenant key)
      in if chain = [] then Inl ErrOutcomeNotFound else Inr (last chain))"

definition put_node :: "lineage_node \<Rightarrow> (string \<Rightarrow> lineage_node option) \<Rightarrow> string \<Rightarrow> lineage_node option" where
  "put_node n m = (let i = node_derived_id n in if m i = None then m(i := Some (n\<lparr>ln_id := i\<rparr>)) else m)"

definition put_edge :: "lineage_edge \<Rightarrow> (string \<Rightarrow> lineage_edge option) \<Rightarrow> string \<Rightarrow> lineage_edge option" where
  "put_edge e m = (let i = edge_derived_id e in if m i = None then m(i := Some (e\<lparr>lg_id := i\<rparr>)) else m)"

definition om_lineage :: "lineage_node list \<Rightarrow> lineage_edge list \<Rightarrow> outcome_memory \<Rightarrow> out_store_err option \<times> outcome_memory" where
  "om_lineage ns es s =
     (case first_err [check_each (\<lambda>_. node_validate) 0 ns, check_each (\<lambda>_. edge_validate) 0 es] of
        Some e \<Rightarrow> (Some (ErrInvalidRecord e), s)
      | None \<Rightarrow> (None, s\<lparr>om_nodes := fold put_node ns (om_nodes s), om_edges := fold put_edge es (om_edges s)\<rparr>))"

definition om_project :: "projection_event \<Rightarrow> outcome_memory \<Rightarrow> (out_store_err + projection_event) \<times> outcome_memory" where
  "om_project ev s =
     (case projection_event_validate ev of Some e \<Rightarrow> (Inl (ErrInvalidRecord e), s)
      | None \<Rightarrow>
          (let evs = om_events s (pe_tenant ev);
               ev' = ev\<lparr>pe_sequence := of_nat (length evs) + 1\<rparr>
           in (Inr ev', s\<lparr>om_events := (om_events s)(pe_tenant ev := evs @ [ev'])\<rparr>)))"

definition om_watermark :: "string \<Rightarrow> outcome_memory \<Rightarrow> out_store_err + projection_watermark" where
  "om_watermark tenant s =
     (case om_watermarks s tenant of Some w \<Rightarrow> Inr w | None \<Rightarrow> Inl ErrOutcomeNotFound)"

definition om_advance ::
    "go_time \<Rightarrow> string \<Rightarrow> uint64 \<Rightarrow> outcome_memory \<Rightarrow> (out_store_err + projection_watermark) \<times> outcome_memory" where
  "om_advance now tenant toSequence s =
     (if (case om_watermarks s tenant of None \<Rightarrow> False | Some cur \<Rightarrow> toSequence < wm_last_sequence cur)
      then (Inl ErrWatermarkRegression, s)
      else
        (let w = \<lparr>wm_tenant = tenant, wm_last_sequence = toSequence, wm_updated_at = now\<rparr>
         in (Inr w, s\<lparr>om_watermarks := (om_watermarks s)(tenant := Some w)\<rparr>)))"

definition outcome_memory_ops :: "json_fmt \<Rightarrow> outcome_memory outcome_ops" where
  "outcome_memory_ops fmt = \<lparr>oo_append = om_append fmt, oo_get = om_get, oo_latest = om_latest, oo_lineage = om_lineage,
     oo_project = om_project, oo_watermark = om_watermark, oo_advance = om_advance\<rparr>"

subsection \<open>The abstract store\<close>

type_synonym chains = "string \<Rightarrow> string \<Rightarrow> outcome list"

definition spec_append :: "json_fmt \<Rightarrow> outcome \<Rightarrow> chains \<Rightarrow> (out_store_err + outcome) \<times> chains" where
  "spec_append fmt x ch =
     (case outcome_validate fmt x of Some e \<Rightarrow> (Inl (ErrInvalidRecord e), ch)
      | None \<Rightarrow>
          (case append_check x (ch (out_tenant x) (out_key x)) of Some e \<Rightarrow> (Inl e, ch)
           | None \<Rightarrow>
               (let y = x\<lparr>out_id := outcome_derived_id x\<rparr>
                in (Inr y, ch(out_tenant x := (ch (out_tenant x))(out_key x := ch (out_tenant x) (out_key x) @ [y]))))))"

definition spec_revision :: "string \<Rightarrow> string \<Rightarrow> uint64 \<Rightarrow> chains \<Rightarrow> out_store_err + outcome" where
  "spec_revision tenant key revision ch =
     (case find (\<lambda>x. out_revision x = revision) (ch tenant key) of Some x \<Rightarrow> Inr x | None \<Rightarrow> Inl ErrOutcomeNotFound)"

definition spec_latest :: "string \<Rightarrow> string \<Rightarrow> chains \<Rightarrow> out_store_err + outcome" where
  "spec_latest tenant key ch = (if ch tenant key = [] then Inl ErrOutcomeNotFound else Inr (last (ch tenant key)))"

definition chain_ok :: "string \<Rightarrow> string \<Rightarrow> outcome list \<Rightarrow> bool" where
  "chain_ok tenant key chain \<longleftrightarrow>
     map out_revision chain = revisions (length chain)
   \<and> list_all (\<lambda>x. out_tenant x = tenant \<and> out_key x = key \<and> out_id x = outcome_derived_id x \<and> out_revision x \<noteq> 0) chain
   \<and> successively (\<lambda>x y. \<exists>r. out_supersedes y = Some r \<and> rv_outcome_id r = out_id x \<and> rv_revision r = out_revision x) chain
   \<and> (chain \<noteq> [] \<longrightarrow> out_supersedes (hd chain) = None)"

definition chains_ok :: "chains \<Rightarrow> bool" where
  "chains_ok ch \<longleftrightarrow> (\<forall>t k. chain_ok t k (ch t k))"

lemma derived_id_update [simp]: "outcome_derived_id (x\<lparr>out_id := i\<rparr>) = outcome_derived_id x"
  by (simp add: outcome_derived_id_def)

lemma chain_head: "chain_ok t k chain \<Longrightarrow> head_revision chain = of_nat (length chain)"
  by (cases chain rule: rev_cases) (auto simp: chain_ok_def head_revision_def)

lemma append_check_None:
  assumes "append_check x chain = None"
  shows "out_revision x = head_revision chain + 1
       \<and> (out_revision x > 1 \<longrightarrow> (\<exists>r. out_supersedes x = Some r \<and> rv_outcome_id r = head_id chain))"
  using assms uint64_successor [of "out_revision x" "head_revision chain"]
  by (auto simp: append_check_def split: option.splits)

lemma validate_supersession:
  "outcome_validate fmt x = None \<Longrightarrow> out_revision x \<noteq> 0 \<and>
     (if out_revision x = 1 then out_supersedes x = None
      else \<exists>r. out_supersedes x = Some r \<and> rv_revision r = out_revision x - 1)"
  by (auto simp: outcome_validate_def supersession_check_None split: if_splits)

lemma append_chain_ok:
  assumes ok: "chain_ok t k chain" and v: "outcome_validate fmt x = None" and a: "append_check x chain = None"
    and tk: "out_tenant x = t" "out_key x = k"
  shows "chain_ok t k (chain @ [x\<lparr>out_id := outcome_derived_id x\<rparr>])"
proof -
  let ?y = "x\<lparr>out_id := outcome_derived_id x\<rparr>"
  have rev: "out_revision x = head_revision chain + 1" using append_check_None [OF a] by simp
  have link: "chain = [] \<or> (\<exists>r. out_supersedes x = Some r \<and> rv_outcome_id r = out_id (last chain)
      \<and> rv_revision r = out_revision (last chain))"
  proof (cases "chain = []")
    case False
    have "out_revision (last chain) \<noteq> 0"
      using ok False by (simp add: chain_ok_def list_all_iff)
    then have "out_revision x \<noteq> 1"
      using rev False by (simp add: head_revision_def)
    moreover from this have "1 < out_revision x"
      using validate_supersession [OF v] by (simp add: word_neq_0_conv word_less_nat_alt word_unat_eq_iff)
    ultimately show ?thesis
      using append_check_None [OF a] validate_supersession [OF v] rev False by (auto simp: head_revision_def head_id_def)
  qed simp
  have first: "chain = [] \<longrightarrow> out_supersedes x = None"
    using rev validate_supersession [OF v] by (simp add: head_revision_def)
  show ?thesis
    using ok rev link first tk chain_head [OF ok] validate_supersession [OF v]
    by (cases "chain = []") (auto simp: chain_ok_def successively_append_iff add.commute)
qed


lemma spec_append_ok:
  "chains_ok ch \<Longrightarrow> spec_append fmt x ch = (r, ch') \<Longrightarrow> chains_ok ch'"
  by (auto simp: spec_append_def chains_ok_def append_chain_ok Let_def split: option.splits)

lemma spec_append_cases:
  assumes "spec_append fmt x ch = (r, ch')"
  obtains (refused) e where "r = Inl e" "ch' = ch"
  | (appended) "r = Inr (x\<lparr>out_id := outcome_derived_id x\<rparr>)" "outcome_validate fmt x = None"
      "append_check x (ch (out_tenant x) (out_key x)) = None"
      "ch' = ch(out_tenant x := (ch (out_tenant x))(out_key x := ch (out_tenant x) (out_key x) @ [x\<lparr>out_id := outcome_derived_id x\<rparr>]))"
  using assms by (auto simp: spec_append_def Let_def split: option.splits)

lemma spec_append_extends: "spec_append fmt x ch = (r, ch') \<Longrightarrow> \<exists>more. ch' t k = ch t k @ more"
  by (erule spec_append_cases) auto

subsection \<open>The contract\<close>

definition out_fault :: "out_store_err + 'a \<Rightarrow> bool" where
  "out_fault r \<longleftrightarrow> r = Inl ErrOutcomeStoreFailure"

text \<open>
  Every operation answers as the abstract store does or with a fault that changes nothing; lineage
  facts and projection events leave the chains alone.
\<close>

locale outcome_chain_store =
  fixes fmt :: json_fmt
    and S :: "'s outcome_ops"
    and chains :: "'s \<Rightarrow> chains"
  assumes append_law: "nul_free (out_tenant x) \<Longrightarrow> oo_append S x s = (r, s') \<Longrightarrow>
      (r, chains s') = spec_append fmt x (chains s) \<or> (out_fault r \<and> chains s' = chains s)"
    and get_law: "nul_free t \<Longrightarrow> oo_get S t k rv s = spec_revision t k rv (chains s) \<or> out_fault (oo_get S t k rv s)"
    and latest_law: "nul_free t \<Longrightarrow> oo_latest S t k s = spec_latest t k (chains s) \<or> out_fault (oo_latest S t k s)"
    and lineage_law: "chains (snd (oo_lineage S ns es s)) = chains s"
    and project_law: "chains (snd (oo_project S ev s)) = chains s"
begin

lemma append_keeps_ok:
  assumes "nul_free (out_tenant x)" and "oo_append S x s = (r, s')" and "chains_ok (chains s)"
  shows "chains_ok (chains s')"
  using append_law [OF assms(1,2)] spec_append_ok [OF assms(3)] assms(3) by (metis (no_types))

lemma append_extends:
  assumes "nul_free (out_tenant x)" and "oo_append S x s = (r, s')"
  shows "\<exists>more. chains s' t k = chains s t k @ more"
  using append_law [OF assms] spec_append_extends by (metis append_Nil2)

text \<open>A revision that can be read and that the head of its chain has is the head itself.\<close>

lemma current_head:
  assumes "nul_free t" and "oo_get S t k rv s = Inr x" and "oo_latest S t k s = Inr h" and "out_revision h = rv"
    and "chains_ok (chains s)" and "length (chains s t k) < 2 ^ 64"
  shows "x = h \<and> chains s t k \<noteq> [] \<and> h = last (chains s t k)"
proof -
  let ?c = "chains s t k"
  have h: "?c \<noteq> []" "h = last ?c"
    using latest_law [OF assms(1), of k s] assms(3) by (auto simp: spec_latest_def out_fault_def split: if_splits)
  have x: "find (\<lambda>x. out_revision x = rv) ?c = Some x"
    using get_law [OF assms(1), of k rv s] assms(2) by (auto simp: spec_revision_def out_fault_def split: option.splits)
  then have mem: "x \<in> set ?c" "out_revision x = rv" using find_Some_set by (metis (mono_tags, lifting))+
  obtain i where i: "i < length ?c" "?c ! i = x" using mem(1) by (auto simp: in_set_conv_nth)
  have revs: "map out_revision ?c = revisions (length ?c)" using assms(5) by (simp add: chains_ok_def chain_ok_def)
  have nth: "j < length ?c \<Longrightarrow> out_revision (?c ! j) = of_nat (j + 1)" for j
    using arg_cong [OF revs, of "\<lambda>l. l ! j"] by (simp add: revisions_def)
  have "out_revision x = of_nat (i + 1)" "out_revision h = of_nat (length ?c - 1 + 1)"
    using nth i h by (auto simp: last_conv_nth)
  then have "i + 1 = length ?c - 1 + 1"
    using mem(2) assms(4,6) i(1) of_nat_uint64_eq_iff [of "i + 1" "length ?c - 1 + 1"] by simp
  then have "i = length ?c - 1" using i(1) by simp
  then show ?thesis using i h by (simp add: last_conv_nth)
qed

end

subsection \<open>The in-memory store keeps the contract\<close>

definition om_chains :: "outcome_memory \<Rightarrow> chains" where
  "om_chains s = (\<lambda>t k. if nul_free t then om_outcomes s (outcomeKeyOf t k) else [])"

lemma om_append_spec:
  "nul_free (out_tenant x) \<Longrightarrow>
     (fst (om_append fmt x s), om_chains (snd (om_append fmt x s))) = spec_append fmt x (om_chains s)"
  by (auto simp: om_append_def spec_append_def om_chains_def Let_def outcomeKeyOf_def nul_key_inj fun_eq_iff split: option.splits)

interpretation om: outcome_chain_store fmt "outcome_memory_ops fmt" om_chains for fmt
proof
  fix x s r s'
  assume "nul_free (out_tenant x)" and "oo_append (outcome_memory_ops fmt) x s = (r, s')"
  then show "(r, om_chains s') = spec_append fmt x (om_chains s) \<or> (out_fault r \<and> om_chains s' = om_chains s)"
    using om_append_spec [of x fmt s] by (simp add: outcome_memory_ops_def)
qed (auto simp: outcome_memory_ops_def om_get_def om_latest_def spec_revision_def spec_latest_def om_chains_def Let_def
    om_lineage_def om_project_def fun_eq_iff split: option.splits)


subsection \<open>Histories of the in-memory store\<close>

datatype outcome_req =
    ReqAppend outcome
  | ReqLineage "lineage_node list" "lineage_edge list"
  | ReqProject projection_event
  | ReqAdvance go_time string uint64

fun outcome_exec :: "json_fmt \<Rightarrow> outcome_req \<Rightarrow> outcome_memory \<Rightarrow> outcome_memory" where
  "outcome_exec fmt (ReqAppend x) s = snd (om_append fmt x s)"
| "outcome_exec fmt (ReqLineage ns es) s = snd (om_lineage ns es s)"
| "outcome_exec fmt (ReqProject ev) s = snd (om_project ev s)"
| "outcome_exec fmt (ReqAdvance now t n) s = snd (om_advance now t n s)"

fun plain_req :: "outcome_req \<Rightarrow> bool" where
  "plain_req (ReqAppend x) = nul_free (out_tenant x)"
| "plain_req _ = True"

definition watermark_of :: "outcome_memory \<Rightarrow> string \<Rightarrow> uint64" where
  "watermark_of s t = (case om_watermarks s t of None \<Rightarrow> 0 | Some w \<Rightarrow> wm_last_sequence w)"

text \<open>What every later state keeps of an earlier one.\<close>

definition store_later :: "outcome_memory \<Rightarrow> outcome_memory \<Rightarrow> bool" where
  "store_later s s' \<longleftrightarrow>
     (\<forall>k. extends (om_outcomes s k) (om_outcomes s' k))
   \<and> (\<forall>i n. om_nodes s i = Some n \<longrightarrow> om_nodes s' i = Some n)
   \<and> (\<forall>i e. om_edges s i = Some e \<longrightarrow> om_edges s' i = Some e)
   \<and> (\<forall>t. extends (om_events s t) (om_events s' t))
   \<and> (\<forall>t. watermark_of s t \<le> watermark_of s' t)"

lemma store_later_refl: "store_later s s"
  by (simp add: store_later_def)

lemma store_later_trans: "store_later s s' \<Longrightarrow> store_later s' s'' \<Longrightarrow> store_later s s''"
  unfolding store_later_def by (blast intro: extends_trans order.trans)

lemma put_node_keeps: "m i = Some n \<Longrightarrow> put_node x m i = Some n"
  by (auto simp: put_node_def Let_def)

lemma put_edge_keeps: "m i = Some e \<Longrightarrow> put_edge x m i = Some e"
  by (auto simp: put_edge_def Let_def)

lemma fold_put_node: "m i = Some n \<Longrightarrow> fold put_node ns m i = Some n"
  by (induction ns arbitrary: m) (simp_all add: put_node_keeps)

lemma fold_put_edge: "m i = Some e \<Longrightarrow> fold put_edge es m i = Some e"
  by (induction es arbitrary: m) (simp_all add: put_edge_keeps)

lemma exec_later: "store_later s (outcome_exec fmt req s)"
proof (cases req)
  case (ReqAppend x)
  then show ?thesis by (auto simp: store_later_def om_append_def watermark_of_def Let_def split: option.splits)
next
  case (ReqLineage ns es)
  then show ?thesis
    by (auto simp: store_later_def om_lineage_def watermark_of_def fold_put_node fold_put_edge split: option.splits)
next
  case (ReqProject ev)
  then show ?thesis by (auto simp: store_later_def om_project_def watermark_of_def Let_def split: option.splits)
next
  case (ReqAdvance now t n)
  then show ?thesis by (auto simp: store_later_def om_advance_def watermark_of_def Let_def not_less split: option.splits)
qed

definition events_ok :: "outcome_memory \<Rightarrow> bool" where
  "events_ok s \<longleftrightarrow> (\<forall>t. map pe_sequence (om_events s t) = revisions (length (om_events s t)))"

definition nodes_ok :: "outcome_memory \<Rightarrow> bool" where
  "nodes_ok s \<longleftrightarrow> (\<forall>i n. om_nodes s i = Some n \<longrightarrow> ln_id n = i \<and> i = node_derived_id n)"

lemma node_id_update [simp]: "node_derived_id (n\<lparr>ln_id := i\<rparr>) = node_derived_id n"
  by (simp add: node_derived_id_def)

lemma fold_put_node_ok:
  "(\<forall>i n. m i = Some n \<longrightarrow> ln_id n = i \<and> i = node_derived_id n) \<Longrightarrow> fold put_node ns m i = Some n \<Longrightarrow>
     ln_id n = i \<and> i = node_derived_id n"
proof (induction ns arbitrary: m)
  case (Cons x ns)
  have "\<forall>i n. put_node x m i = Some n \<longrightarrow> ln_id n = i \<and> i = node_derived_id n"
    using Cons.prems(1) by (auto simp: put_node_def Let_def)
  with Cons show ?case by simp
qed simp

lemma lineage_nodes_ok: "nodes_ok s \<Longrightarrow> nodes_ok (snd (om_lineage ns es s))"
  unfolding nodes_ok_def om_lineage_def
  by (cases "first_err [check_each (\<lambda>_. node_validate) 0 ns, check_each (\<lambda>_. edge_validate) 0 es]")
    (auto dest: fold_put_node_ok [rotated])

lemma lineage_events: "events_ok (snd (om_lineage ns es s)) = events_ok s"
  by (auto simp: events_ok_def om_lineage_def split: option.splits)

lemma advance_keeps:
  "om_chains (snd (om_advance now t n s)) = om_chains s"
  "om_events (snd (om_advance now t n s)) = om_events s"
  "om_nodes (snd (om_advance now t n s)) = om_nodes s"
  by (simp_all add: om_advance_def om_chains_def Let_def cong: if_cong)

definition outcome_store_ok :: "outcome_memory \<Rightarrow> bool" where
  "outcome_store_ok s \<longleftrightarrow> chains_ok (om_chains s) \<and> events_ok s \<and> nodes_ok s"

lemma exec_ok:
  assumes "outcome_store_ok s" and "plain_req req"
  shows "outcome_store_ok (outcome_exec fmt req s)"
proof (cases req)
  case (ReqAppend x)
  have "chains_ok (om_chains (snd (om_append fmt x s)))"
    using assms ReqAppend om_append_spec [of x fmt s] spec_append_ok [of "om_chains s" fmt x]
    by (metis outcome_store_ok_def plain_req.simps(1))
  then show ?thesis
    using assms ReqAppend
    by (auto simp: outcome_store_ok_def events_ok_def nodes_ok_def om_append_def Let_def split: option.splits)
next
  case (ReqLineage ns es)
  then show ?thesis
    using assms om.lineage_law [of fmt ns es s] lineage_nodes_ok [of s ns es]
    by (auto simp: outcome_store_ok_def outcome_memory_ops_def lineage_events)
next
  case (ReqProject ev)
  then show ?thesis
    using assms om.project_law [of fmt ev s]
    by (auto simp: outcome_store_ok_def events_ok_def nodes_ok_def om_project_def outcome_memory_ops_def Let_def
        add.commute split: option.splits)
next
  case (ReqAdvance now t n)
  then show ?thesis
    using assms advance_keeps [of now t n s]
    by (simp add: outcome_store_ok_def events_ok_def nodes_ok_def)
qed

lemma new_store_ok: "outcome_store_ok NewOutcomeMemory"
  by (simp add: outcome_store_ok_def NewOutcomeMemory_def chains_ok_def chain_ok_def om_chains_def events_ok_def nodes_ok_def)

text \<open>
  C19: the outcome store is an append-only history.  After any sequence of appends, lineage facts,
  projection events and watermark moves (tenants without NUL bytes), every chain of revisions is
  1, 2, 3, ... for its own tenant and key, each correction names the exact id of the revision before
  it, every stored node is under its derived id, and the projection sequence of every tenant is
  1, 2, 3, ...; and whatever comes next only extends the chains and the outbox, keeps every lineage
  fact as first written and never moves a watermark back.
\<close>
theorem outcome_store_is_append_only:
  assumes "list_all plain_req reqs"
  shows "let s = fold (outcome_exec fmt) reqs NewOutcomeMemory in
     chains_ok (om_chains s) \<and> events_ok s \<and> nodes_ok s \<and> store_later s (fold (outcome_exec fmt) later s)"
proof -
  have ok: "outcome_store_ok (fold (outcome_exec fmt) reqs s)" if "outcome_store_ok s" for s
    using assms that by (induction reqs arbitrary: s) (simp_all add: exec_ok)
  have "store_later s (fold (outcome_exec fmt) later s)" for s
    by (induction later arbitrary: s) (auto intro: store_later_refl store_later_trans exec_later)
  with ok [OF new_store_ok] show ?thesis by (simp add: outcome_store_ok_def Let_def)
qed

lemma outcome_store_is_append_only_witness:
  "map out_revision (om_chains (snd (om_append sample_fmt sample_outcome NewOutcomeMemory)) ''t'' ''k'') = [1]"
proof -
  have "chains_ok (om_chains (snd (om_append sample_fmt sample_outcome NewOutcomeMemory)))"
    using outcome_store_is_append_only [of "[ReqAppend sample_outcome]" sample_fmt "[]"]
    by (simp add: Let_def NUL_def)
  moreover have "length (om_chains (snd (om_append sample_fmt sample_outcome NewOutcomeMemory)) ''t'' ''k'') = 1"
    by (simp add: om_append_def sample_outcome_valid append_check_def om_chains_def NewOutcomeMemory_def Let_def
        head_revision_def outcomeKeyOf_def nul_key_def NUL_def)
  ultimately show ?thesis by (simp add: chains_ok_def chain_ok_def)
qed

end
