(* ===== verification/OutEval.thy ===== *)
theory OutEval
  imports OutStore NexusAction "HOL-Library.List_Lexorder" "HOL-Library.Char_ord" "HOL-Library.Product_Lexorder"
begin

text \<open>
  The evaluator, \<^verbatim>\<open>internal/outcome/evaluator.go\<close>: the pure decision \<open>Decide\<close>, its content hash, and
  \<open>Evaluate\<close>, which persists a decision with its lineage facts and projection event.

  The arguments a decision depends on besides its command are in \<open>decide_env\<close>: signature
  verification, the digits of JSON floats and times, and the order \<open>sort.Slice\<close> gives equal keys of
  long slices (\<open>sort_slice\<close>).
\<close>

subsection \<open>Commands\<close>

datatype eval_err =
    ErrPolicyInvalid policy_err
  | ErrEvaluateCommand
  | ErrOutcomeInvalid out_err
  | ErrOutcomeStore out_store_err

record observation_input =
  oi_request :: action_request
  oi_receipt :: observation_receipt

record action_input =
  ai_request :: action_request
  ai_receipt :: action_receipt

record human_statement =
  hs_handle :: string
  hs_authority :: string
  hs_kind :: string
  hs_disputed :: bool
  hs_summary :: string

record evaluate_command =
  ec_tenant :: string
  ec_outcome_key :: string
  ec_revision :: uint64
  ec_supersedes :: "outcome_revision_ref option"
  ec_goal :: goal_ref
  ec_work_case_id :: string
  ec_work_case_revision :: uint64
  ec_work_plan_revision :: uint64
  ec_operating_map_version :: int
  ec_org_version :: int
  ec_policy :: policy
  ec_decided_at :: go_time
  ec_trusted_key_id :: string
  ec_trusted_key :: string
  ec_observations :: "observation_input list"
  ec_actions :: "action_input list"
  ec_blockers :: "blocker_ref list"
  ec_statements :: "human_statement list"
  ec_contributions :: "contribution_ref list"
  ec_revoked :: "string list"

record decide_env =
  de_trust :: trust_env
  de_fmt :: json_fmt
  de_blocker_ties :: "blocker_ref list \<Rightarrow> blocker_ref list"
  de_contribution_ties :: "contribution_ref list \<Rightarrow> contribution_ref list"

subsection \<open>Observations\<close>

definition freshnessOf :: "observation_receipt \<Rightarrow> go_duration \<Rightarrow> go_time \<Rightarrow> bool" where
  "freshnessOf r maxAge decidedAt =
     (let bound = (if ob_freshness_window r > 0 \<and> (maxAge = 0 \<or> ob_freshness_window r < maxAge)
                   then ob_freshness_window r else maxAge)
      in if bound \<le> 0 then False
         else time_sub decidedAt (ob_observed_at r) \<le> bound)"

definition toObservationRef :: "observation_receipt \<Rightarrow> observation_ref" where
  "toObservationRef r =
     \<lparr>or_handle = ob_observation_id r, or_observation_hash = ob_normalized_hash r, or_authority = ob_authority r,
      or_signature_key_id = (case ob_signature r of None \<Rightarrow> [] | Some s \<Rightarrow> sig_key_id s),
      or_observed_at = ob_observed_at r\<rparr>"

record verified_obs =
  vo_receipt :: observation_receipt
  vo_fresh :: bool

definition obs_accepted :: "trust_env \<Rightarrow> evaluate_command \<Rightarrow> observation_input \<Rightarrow> bool" where
  "obs_accepted T cmd x \<longleftrightarrow>
     ob_observation_id (oi_receipt x) \<notin> set (ec_revoked cmd)
   \<and> VerifyObservationReceipt T (oi_request x) (oi_receipt x) (ec_trusted_key_id cmd) (ec_trusted_key cmd) = None"

definition need_max_age :: "observation_input \<Rightarrow> go_duration" where
  "need_max_age x =
     (case find (\<lambda>n. vn_need_id n = ob_verification_need_id (oi_receipt x)) (ar_verification_needs (oi_request x)) of
        None \<Rightarrow> 0 | Some n \<Rightarrow> vn_max_age n)"

definition verify_obs :: "evaluate_command \<Rightarrow> observation_input \<Rightarrow> verified_obs" where
  "verify_obs cmd x =
     \<lparr>vo_receipt = oi_receipt x, vo_fresh = freshnessOf (oi_receipt x) (need_max_age x) (ec_decided_at cmd)\<rparr>"

definition verified_observations :: "trust_env \<Rightarrow> evaluate_command \<Rightarrow> verified_obs list" where
  "verified_observations T cmd = map (verify_obs cmd) (filter (obs_accepted T cmd) (ec_observations cmd))"

definition by_need :: "verified_obs list \<Rightarrow> string \<Rightarrow> verified_obs list" where
  "by_need vs need = filter (\<lambda>v. ob_verification_need_id (vo_receipt v) = need) vs"

subsection \<open>The verdict of a required postcondition\<close>

definition authoritative :: "required_postcondition \<Rightarrow> verified_obs \<Rightarrow> bool" where
  "authoritative rp v \<longleftrightarrow>
     ob_postcondition_id (vo_receipt v) = rp_postcondition_id rp \<and> ob_authority (vo_receipt v) = rp_authority rp"

definition need_candidates :: "verified_obs list \<Rightarrow> required_postcondition \<Rightarrow> verified_obs list" where
  "need_candidates vs rp = filter (authoritative rp) (by_need vs (rp_need_id rp))"

definition observed_hashes :: "verified_obs list \<Rightarrow> string list" where
  "observed_hashes vs = remdups (map (\<lambda>v. ob_normalized_hash (vo_receipt v)) vs)"

definition need_decision :: "required_postcondition \<Rightarrow> verified_obs list \<Rightarrow> need_verdict" where
  "need_decision rp cands =
     (let authFresh = filter vo_fresh cands; hashes = observed_hashes authFresh
      in if authFresh \<noteq> []
         then (if length hashes > 1 then NeedDisputed
               else if \<not> hasAcceptingDefinition rp then NeedUnknown
               else if accepts rp (hd hashes) then NeedSatisfied else NeedUnsatisfied)
         else NeedUnknown)"

definition attach :: "observation_ref list \<Rightarrow> verified_obs list \<Rightarrow> observation_ref list" where
  "attach acc vs = keep_first or_handle acc (map (\<lambda>v. toObservationRef (vo_receipt v)) vs)"

record needs_state =
  ns_verdicts :: "need_verdict list"
  ns_covered :: int
  ns_fresh :: int
  ns_conflicts :: int
  ns_attached :: "observation_ref list"

definition no_needs :: needs_state where
  "no_needs = \<lparr>ns_verdicts = [], ns_covered = 0, ns_fresh = 0, ns_conflicts = 0, ns_attached = []\<rparr>"

definition eval_need :: "verified_obs list \<Rightarrow> required_postcondition \<Rightarrow> needs_state \<Rightarrow> needs_state" where
  "eval_need vs rp st =
     (let cands = need_candidates vs rp; verdict = need_decision rp cands;
          anyFresh = (\<exists>v \<in> set cands. vo_fresh v)
      in \<lparr>ns_verdicts = ns_verdicts st @ [verdict],
          ns_covered = ns_covered st + (if cands \<noteq> [] then 1 else 0),
          ns_fresh = ns_fresh st + (if anyFresh then 1 else 0),
          ns_conflicts = ns_conflicts st + (if verdict = NeedDisputed then 1 else 0),
          ns_attached = attach (ns_attached st) cands\<rparr>)"

definition eval_needs :: "verified_obs list \<Rightarrow> required_postcondition list \<Rightarrow> needs_state" where
  "eval_needs vs rps = fold (eval_need vs) rps no_needs"

subsection \<open>Receipt references\<close>

definition toReceiptRef :: "action_receipt \<Rightarrow> receipt_ref" where
  "toReceiptRef r = \<lparr>rr_handle = rc_receipt_id r, rr_receipt_hash = rc_parameter_hash r,
     rr_signature_key_id = (case rc_signature r of None \<Rightarrow> [] | Some s \<Rightarrow> sig_key_id s)\<rparr>"

definition action_accepted :: "trust_env \<Rightarrow> evaluate_command \<Rightarrow> action_input \<Rightarrow> bool" where
  "action_accepted T cmd x \<longleftrightarrow>
     VerifyActionReceipt T (ai_request x) (ai_receipt x) (ec_trusted_key_id cmd) (ec_trusted_key cmd) = None"

definition verifiedReceiptRefs :: "trust_env \<Rightarrow> evaluate_command \<Rightarrow> receipt_ref list" where
  "verifiedReceiptRefs T cmd =
     sort_key rr_handle (keep_first rr_handle []
       (map (\<lambda>x. toReceiptRef (ai_receipt x)) (filter (action_accepted T cmd) (ec_actions cmd))))"

subsection \<open>Decide\<close>

definition command_check :: "evaluate_command \<Rightarrow> eval_err option" where
  "command_check cmd = first_err [
     map_option ErrPolicyInvalid (policy_validate (ec_policy cmd)),
     fail_if (time_is_zero (ec_decided_at cmd)) ErrEvaluateCommand,
     fail_if (length (ec_trusted_key cmd) \<noteq> ed25519_public_key_size) ErrEvaluateCommand]"

definition decided_outcome :: "decide_env \<Rightarrow> evaluate_command \<Rightarrow> outcome" where
  "decided_outcome E cmd =
     (let required = po_required (ec_policy cmd);
          ns = eval_needs (verified_observations (de_trust E) cmd) required;
          status = combineStatus (ns_verdicts ns) (ec_blockers cmd \<noteq> []) (list_ex hs_disputed (ec_statements cmd))
                     (length required);
          contributions = sort_slice (de_contribution_ties E) (\<lambda>c. (cb_contributor_id c, cb_kind c)) (ec_contributions cmd);
          conf = confidenceComponents \<lparr>ci_required = int (length required), ci_covered = ns_covered ns,
                   ci_fresh = ns_fresh ns, ci_conflicts = ns_conflicts ns, ci_contributions = int (length contributions)\<rparr>;
          x = \<lparr>out_id = [], out_tenant = ec_tenant cmd, out_key = ec_outcome_key cmd, out_revision = ec_revision cmd,
               out_claim = \<lparr>ocl_goal = ec_goal cmd, ocl_status = status, ocl_rule_version = po_version (ec_policy cmd),
                 ocl_evidence = [], ocl_observations = sort_key or_handle (ns_attached ns),
                 ocl_blockers = sort_slice (de_blocker_ties E) bl_handle (ec_blockers cmd), ocl_confidence = conf\<rparr>,
               out_work_case_id = ec_work_case_id cmd, out_work_case_revision = ec_work_case_revision cmd,
               out_work_plan_revision = ec_work_plan_revision cmd,
               out_operating_map_version = ec_operating_map_version cmd, out_org_version = ec_org_version cmd,
               out_action_receipts = verifiedReceiptRefs (de_trust E) cmd, out_contributions = contributions,
               out_decided_at = ec_decided_at cmd, out_supersedes = ec_supersedes cmd\<rparr>
      in x\<lparr>out_id := outcome_derived_id x\<rparr>)"

definition Decide :: "decide_env \<Rightarrow> evaluate_command \<Rightarrow> eval_err + outcome" where
  "Decide E cmd =
     guard_err (command_check cmd)
       (guard_err (map_option ErrOutcomeInvalid (outcome_validate (de_fmt E) (decided_outcome E cmd)))
          (Inr (decided_outcome E cmd)))"

definition ContentHash :: "json_fmt \<Rightarrow> outcome \<Rightarrow> string" where
  "ContentHash fmt x =
     (let raw = (case outcome_json fmt (x\<lparr>out_id := [], out_decided_at := 0\<rparr>) of None \<Rightarrow> [] | Some t \<Rightarrow> t)
      in ''oc_'' @ hex_encode (sha256 raw))"

subsection \<open>Evaluate\<close>

definition endpoint :: "lineage_node \<Rightarrow> lineage_endpoint" where
  "endpoint n = \<lparr>le_tenant = ln_tenant n, le_type = ln_type n, le_business_id = ln_business_id n, le_revision = ln_revision n\<rparr>"

definition graph_node :: "string \<Rightarrow> node_type \<Rightarrow> string \<Rightarrow> uint64 \<Rightarrow> string \<Rightarrow> lineage_node" where
  "graph_node tenant t b r summary =
     \<lparr>ln_id = [], ln_tenant = tenant, ln_type = t, ln_business_id = b, ln_revision = r, ln_summary = summary\<rparr>"

definition graph_edge :: "string \<Rightarrow> edge_type \<Rightarrow> lineage_node \<Rightarrow> lineage_node \<Rightarrow> lineage_edge" where
  "graph_edge tenant t a b = \<lparr>lg_id = [], lg_tenant = tenant, lg_type = t, lg_from = endpoint a, lg_to = endpoint b\<rparr>"

definition outcome_targets :: "outcome \<Rightarrow> (edge_type \<times> lineage_node) list" where
  "outcome_targets x =
     (let c = out_claim x; t = out_tenant x
      in [(EdgeConcerns, graph_node t NodeGoal (gl_goal_key (ocl_goal c)) (word_of_int (gl_goal_version (ocl_goal c))) []),
          (EdgeDerivedFrom, graph_node t NodeWorkCase (out_work_case_id x) (out_work_case_revision x) [])]
         @ map (\<lambda>r. (EdgeObserves, graph_node t NodeObservation (or_handle r) 1 (or_authority r))) (ocl_observations c)
         @ map (\<lambda>b. (EdgeBlockedBy, graph_node t NodeBlocker (bl_handle b) 1 (bl_kind b))) (ocl_blockers c)
         @ (case out_supersedes x of None \<Rightarrow> []
            | Some r \<Rightarrow> [(EdgeSupersedes, graph_node t NodeOutcome (rv_outcome_key r) (rv_revision r) [])]))"

definition outcome_node :: "outcome \<Rightarrow> lineage_node" where
  "outcome_node x = graph_node (out_tenant x) NodeOutcome (out_key x) (out_revision x) []"

definition outcome_event :: "json_fmt \<Rightarrow> outcome \<Rightarrow> projection_event" where
  "outcome_event fmt x =
     \<lparr>pe_tenant = out_tenant x, pe_sequence = 0, pe_kind = ProjectionOutcomeRevision, pe_subject_type = NodeOutcome,
      pe_subject_id = out_key x, pe_subject_revision = out_revision x, pe_payload_hash = ContentHash fmt x,
      pe_supersedes_sequence = 0, pe_recorded_at = out_decided_at x\<rparr>"

definition appendLineageAndProjection ::
    "json_fmt \<Rightarrow> 's outcome_ops \<Rightarrow> outcome \<Rightarrow> 's \<Rightarrow> out_store_err option \<times> 's" where
  "appendLineageAndProjection fmt S x s =
     (let nodes = outcome_node x # map snd (outcome_targets x);
          edges = map (\<lambda>(t, n). graph_edge (out_tenant x) t (outcome_node x) n) (outcome_targets x)
      in case oo_lineage S nodes edges s of
           (Some e, s1) \<Rightarrow> (Some e, s1)
         | (None, s1) \<Rightarrow>
             (case oo_project S (outcome_event fmt x) s1 of
                (Inl e, s2) \<Rightarrow> (Some e, s2)
              | (Inr _, s2) \<Rightarrow> (None, s2)))"

definition Evaluate_outcome :: "decide_env \<Rightarrow> 's outcome_ops \<Rightarrow> evaluate_command \<Rightarrow> 's \<Rightarrow> (eval_err + outcome) \<times> 's" where
  "Evaluate_outcome E S cmd s =
     (case Decide E cmd of Inl e \<Rightarrow> (Inl e, s)
      | Inr x \<Rightarrow>
          (case oo_append S x s of
             (Inl e, s1) \<Rightarrow> (Inl (ErrOutcomeStore e), s1)
           | (Inr persisted, s1) \<Rightarrow>
               (case appendLineageAndProjection (de_fmt E) S persisted s1 of
                  (Some e, s2) \<Rightarrow> (Inl (ErrOutcomeStore e), s2)
                | (None, s2) \<Rightarrow> (Inr persisted, s2))))"


subsection \<open>The verdicts\<close>

lemma eval_needs_snoc: "eval_needs vs (rps @ [rp]) = eval_need vs rp (eval_needs vs rps)"
  by (simp add: eval_needs_def)

lemma eval_needs_verdicts:
  "ns_verdicts (eval_needs vs rps) = map (\<lambda>rp. need_decision rp (need_candidates vs rp)) rps"
  by (induction rps rule: rev_induct) (simp_all add: eval_needs_snoc eval_need_def Let_def, simp add: eval_needs_def no_needs_def)

lemma distinct_singleton: "distinct ys \<Longrightarrow> ys = [h] \<longleftrightarrow> set ys = {h}"
  by (cases ys; cases "tl ys") auto

lemma accepts_defined: "accepts rp h \<Longrightarrow> hasAcceptingDefinition rp"
  by (auto simp: accepts_def hasAcceptingDefinition_def)

lemma need_satisfied_iff:
  "need_decision rp cands = NeedSatisfied \<longleftrightarrow>
     (\<exists>h. accepts rp h \<and> {ob_normalized_hash (vo_receipt v) | v. v \<in> set cands \<and> vo_fresh v} = {h})"
proof -
  let ?hs = "observed_hashes (filter vo_fresh cands)"
  have set_hs: "set ?hs = {ob_normalized_hash (vo_receipt v) | v. v \<in> set cands \<and> vo_fresh v}"
    by (auto simp: observed_hashes_def)
  have nonempty: "filter vo_fresh cands \<noteq> [] \<longleftrightarrow> ?hs \<noteq> []" by (simp add: observed_hashes_def)
  have "need_decision rp cands = NeedSatisfied \<longleftrightarrow> ?hs \<noteq> [] \<and> length ?hs \<le> 1 \<and> accepts rp (hd ?hs)"
    using accepts_defined [of rp "hd ?hs"] nonempty by (auto simp: need_decision_def Let_def)
  also have "\<dots> \<longleftrightarrow> (\<exists>h. accepts rp h \<and> ?hs = [h])"
    by (cases ?hs; cases "tl ?hs") auto
  also have "\<dots> \<longleftrightarrow> (\<exists>h. accepts rp h \<and> set ?hs = {h})"
    by (simp add: distinct_singleton observed_hashes_def)
  finally show ?thesis unfolding set_hs .
qed

text \<open>
  What counts for a required postcondition: an observation that is not revoked, verifies against its
  request under the trusted key, names the need and the postcondition, comes from the required
  authority, and is fresh at the decision instant.
\<close>

definition evidence_for :: "trust_env \<Rightarrow> evaluate_command \<Rightarrow> required_postcondition \<Rightarrow> observation_input \<Rightarrow> bool" where
  "evidence_for T cmd rp x \<longleftrightarrow>
     x \<in> set (ec_observations cmd) \<and> obs_accepted T cmd x
   \<and> ob_verification_need_id (oi_receipt x) = rp_need_id rp
   \<and> ob_postcondition_id (oi_receipt x) = rp_postcondition_id rp
   \<and> ob_authority (oi_receipt x) = rp_authority rp
   \<and> freshnessOf (oi_receipt x) (need_max_age x) (ec_decided_at cmd)"

lemma candidate_hashes:
  "{ob_normalized_hash (vo_receipt v) | v. v \<in> set (need_candidates (verified_observations T cmd) rp) \<and> vo_fresh v}
     = {ob_normalized_hash (oi_receipt x) | x. evidence_for T cmd rp x}"
proof -
  have "{v \<in> set (need_candidates (verified_observations T cmd) rp). vo_fresh v} = verify_obs cmd ` {x. evidence_for T cmd rp x}"
    by (auto simp: need_candidates_def by_need_def verified_observations_def verify_obs_def authoritative_def evidence_for_def)
  then have "(\<lambda>v. ob_normalized_hash (vo_receipt v)) ` {v \<in> set (need_candidates (verified_observations T cmd) rp). vo_fresh v}
      = (\<lambda>x. ob_normalized_hash (oi_receipt x)) ` {x. evidence_for T cmd rp x}"
    by (simp add: image_image verify_obs_def)
  then show ?thesis by (simp add: setcompr_eq_image)
qed

lemma Decide_Inr:
  "Decide E cmd = Inr x \<longleftrightarrow>
     command_check cmd = None \<and> outcome_validate (de_fmt E) (decided_outcome E cmd) = None \<and> x = decided_outcome E cmd"
  by (auto simp: Decide_def)

lemma decided_status:
  "ocl_status (out_claim (decided_outcome E cmd)) =
     combineStatus (ns_verdicts (eval_needs (verified_observations (de_trust E) cmd) (po_required (ec_policy cmd))))
       (ec_blockers cmd \<noteq> []) (list_ex hs_disputed (ec_statements cmd)) (length (po_required (ec_policy cmd)))"
  by (simp add: decided_outcome_def Let_def)

text \<open>
  C20: what a satisfied decision means.  A decision is satisfied exactly when the policy requires
  something, there is no blocker and no human dispute, and for every required postcondition the
  evidence that counts reports one single state, which the policy accepts.  In particular a revoked,
  forged, stale or foreign observation can never make it so, nor can an action receipt.
\<close>
theorem satisfied_decision_iff:
  assumes "Decide E cmd = Inr x"
  shows "ocl_status (out_claim x) = OutcomeSatisfied \<longleftrightarrow>
     po_required (ec_policy cmd) \<noteq> [] \<and> ec_blockers cmd = [] \<and> \<not> list_ex hs_disputed (ec_statements cmd)
   \<and> (\<forall>rp \<in> set (po_required (ec_policy cmd)). \<exists>h. accepts rp h
        \<and> {ob_normalized_hash (oi_receipt y) | y. evidence_for (de_trust E) cmd rp y} = {h})"
proof -
  have x: "x = decided_outcome E cmd" using assms by (simp add: Decide_Inr)
  show ?thesis
    unfolding x decided_status satisfied_iff eval_needs_verdicts
    by (auto simp: need_satisfied_iff candidate_hashes subset_iff)
qed

text \<open>
  C21: freshness is bounded by both declared bounds.  A receipt is fresh exactly when the need's bound
  is not negative, at least one positive bound is declared, and its age, as \<open>Time.Sub\<close> gives it, is
  within each bound that is declared.  Without any declared bound it is never fresh.
\<close>
theorem freshness_respects_both_bounds:
  "freshnessOf r maxAge t \<longleftrightarrow>
     maxAge \<ge> 0 \<and> (maxAge > 0 \<or> ob_freshness_window r > 0)
   \<and> (maxAge \<le> 0 \<or> time_sub t (ob_observed_at r) \<le> maxAge)
   \<and> (ob_freshness_window r \<le> 0 \<or> time_sub t (ob_observed_at r) \<le> ob_freshness_window r)"
  by (auto simp: freshnessOf_def Let_def)


subsection \<open>Order and clock\<close>

lemma need_decision_set:
  assumes "set cands = set cands'"
  shows "need_decision rp cands = need_decision rp cands'"
proof -
  let ?h = "observed_hashes (filter vo_fresh cands)" and ?h' = "observed_hashes (filter vo_fresh cands')"
  have set_eq: "set ?h = set ?h'" and d: "distinct ?h" "distinct ?h'" using assms by (simp_all add: observed_hashes_def)
  then have len: "length ?h = length ?h'" by (metis distinct_card)
  have none: "filter vo_fresh cands = [] \<longleftrightarrow> filter vo_fresh cands' = []" using assms by (simp add: filter_empty_conv)
  have some: "filter vo_fresh cands \<noteq> [] \<Longrightarrow> ?h \<noteq> []" by (simp add: observed_hashes_def)
  have "?h = ?h'" if "length ?h \<le> 1" "?h \<noteq> []"
    using that len set_eq by (cases ?h; cases ?h') auto
  then show ?thesis using len none some by (auto simp: need_decision_def Let_def not_less)
qed

lemma eval_needs_set:
  assumes "set vs = set vs'"
  shows "ns_verdicts (eval_needs vs rps) = ns_verdicts (eval_needs vs' rps)
       \<and> ns_covered (eval_needs vs rps) = ns_covered (eval_needs vs' rps)
       \<and> ns_fresh (eval_needs vs rps) = ns_fresh (eval_needs vs' rps)
       \<and> ns_conflicts (eval_needs vs rps) = ns_conflicts (eval_needs vs' rps)"
proof (induction rps rule: rev_induct)
  case (snoc rp rps)
  have c: "set (need_candidates vs rp) = set (need_candidates vs' rp)"
    using assms by (simp add: need_candidates_def by_need_def)
  then have "need_candidates vs rp = [] \<longleftrightarrow> need_candidates vs' rp = []" by (metis set_empty)
  with snoc need_decision_set [OF c] c show ?case by (simp add: eval_needs_snoc eval_need_def Let_def)
qed (simp add: eval_needs_def)

lemma eval_needs_attached:
  "ns_attached (eval_needs vs rps) =
     keep_first or_handle [] (map (\<lambda>v. toObservationRef (vo_receipt v)) (concat (map (need_candidates vs) rps)))"
  by (induction rps rule: rev_induct)
    (simp_all add: eval_needs_snoc eval_need_def attach_def keep_first_append Let_def, simp add: eval_needs_def no_needs_def)

lemma keep_first_sorted_unique:
  assumes "set xs = set ys" and "inj_on key (set xs)"
  shows "sort_key key (keep_first key [] xs) = sort_key key (keep_first key [] ys)"
proof (rule sort_key_unique)
  have s: "set (keep_first key [] xs) = set xs" "set (keep_first key [] ys) = set ys"
    using keep_first_set [of key "[]"] assms by simp_all
  moreover have "distinct (keep_first key [] xs)" "distinct (keep_first key [] ys)"
    using keep_first_distinct [of key "[]"] by (simp_all add: distinct_map)
  ultimately show "mset (keep_first key [] xs) = mset (keep_first key [] ys)"
    using assms(1) by (simp add: set_eq_iff_mset_eq_distinct [symmetric])
  show "inj_on key (set (keep_first key [] xs))" using s assms(2) by simp
qed

text \<open>
  Two commands that carry the same facts: the same versions, policy and keys, and the same
  observations, actions, blockers, statements and contributions in any order (observations, actions
  and revocations with any repetition), decided at instants that judge every observation alike.
\<close>

definition same_facts :: "evaluate_command \<Rightarrow> evaluate_command \<Rightarrow> bool" where
  "same_facts c d \<longleftrightarrow>
     d = c\<lparr>ec_observations := ec_observations d, ec_actions := ec_actions d, ec_blockers := ec_blockers d,
           ec_statements := ec_statements d, ec_contributions := ec_contributions d, ec_revoked := ec_revoked d,
           ec_decided_at := ec_decided_at d\<rparr>
   \<and> set (ec_observations d) = set (ec_observations c) \<and> set (ec_actions d) = set (ec_actions c)
   \<and> mset (ec_blockers d) = mset (ec_blockers c) \<and> set (ec_statements d) = set (ec_statements c)
   \<and> mset (ec_contributions d) = mset (ec_contributions c) \<and> set (ec_revoked d) = set (ec_revoked c)
   \<and> (\<forall>x \<in> set (ec_observations c). freshnessOf (oi_receipt x) (need_max_age x) (ec_decided_at d)
        = freshnessOf (oi_receipt x) (need_max_age x) (ec_decided_at c))"

text \<open>The handles a command uses name one thing each.\<close>

definition unambiguous :: "evaluate_command \<Rightarrow> bool" where
  "unambiguous c \<longleftrightarrow>
     inj_on or_handle ((\<lambda>x. toObservationRef (oi_receipt x)) ` set (ec_observations c))
   \<and> inj_on rr_handle ((\<lambda>x. toReceiptRef (ai_receipt x)) ` set (ec_actions c))
   \<and> inj_on bl_handle (set (ec_blockers c))
   \<and> inj_on (\<lambda>b. (cb_contributor_id b, cb_kind b)) (set (ec_contributions c))"


lemma same_facts_fields:
  assumes "same_facts c d"
  shows "ec_tenant d = ec_tenant c" "ec_outcome_key d = ec_outcome_key c" "ec_revision d = ec_revision c"
    "ec_supersedes d = ec_supersedes c" "ec_goal d = ec_goal c" "ec_work_case_id d = ec_work_case_id c"
    "ec_work_case_revision d = ec_work_case_revision c" "ec_work_plan_revision d = ec_work_plan_revision c"
    "ec_operating_map_version d = ec_operating_map_version c" "ec_org_version d = ec_org_version c"
    "ec_policy d = ec_policy c" "ec_trusted_key_id d = ec_trusted_key_id c" "ec_trusted_key d = ec_trusted_key c"
proof -
  have d: "d = c\<lparr>ec_observations := ec_observations d, ec_actions := ec_actions d, ec_blockers := ec_blockers d,
           ec_statements := ec_statements d, ec_contributions := ec_contributions d, ec_revoked := ec_revoked d,
           ec_decided_at := ec_decided_at d\<rparr>"
    using assms by (simp add: same_facts_def)
  show "ec_tenant d = ec_tenant c" "ec_outcome_key d = ec_outcome_key c" "ec_revision d = ec_revision c"
    "ec_supersedes d = ec_supersedes c" "ec_goal d = ec_goal c" "ec_work_case_id d = ec_work_case_id c"
    "ec_work_case_revision d = ec_work_case_revision c" "ec_work_plan_revision d = ec_work_plan_revision c"
    "ec_operating_map_version d = ec_operating_map_version c" "ec_org_version d = ec_org_version c"
    "ec_policy d = ec_policy c" "ec_trusted_key_id d = ec_trusted_key_id c" "ec_trusted_key d = ec_trusted_key c"
    by (subst d, simp)+
qed

lemma same_facts_accepted:
  assumes "same_facts c d"
  shows "obs_accepted T d = obs_accepted T c" "action_accepted T d = action_accepted T c"
  using same_facts_fields [OF assms] assms by (auto simp: fun_eq_iff obs_accepted_def action_accepted_def same_facts_def)

lemma same_facts_verified:
  assumes "same_facts c d"
  shows "set (verified_observations T d) = set (verified_observations T c)"
proof -
  have "set (ec_observations d) = set (ec_observations c)" using assms by (simp add: same_facts_def)
  moreover have "verify_obs d x = verify_obs c x" if "x \<in> set (ec_observations c)" for x
    using that assms by (simp add: verify_obs_def same_facts_def)
  ultimately show ?thesis
    by (auto simp: verified_observations_def same_facts_accepted [OF assms])
qed

lemma same_facts_attached:
  assumes "same_facts c d" and "unambiguous c"
  shows "sort_key or_handle (ns_attached (eval_needs (verified_observations T d) rps))
       = sort_key or_handle (ns_attached (eval_needs (verified_observations T c) rps))"
proof -
  let ?refs = "\<lambda>cmd. map (\<lambda>v. toObservationRef (vo_receipt v))
      (concat (map (need_candidates (verified_observations T cmd)) rps))"
  have "set (?refs d) = set (?refs c)"
    using same_facts_verified [OF assms(1)] by (simp add: need_candidates_def by_need_def)
  moreover have "set (?refs d) \<subseteq> (\<lambda>x. toObservationRef (oi_receipt x)) ` set (ec_observations c)"
    using assms(1) by (auto simp: need_candidates_def by_need_def verified_observations_def verify_obs_def same_facts_def)
  then have "inj_on or_handle (set (?refs d))"
    using assms(2) inj_on_subset unfolding unambiguous_def by blast
  ultimately show ?thesis unfolding eval_needs_attached by (rule keep_first_sorted_unique)
qed

lemma same_facts_receipts:
  assumes "same_facts c d" and "unambiguous c"
  shows "verifiedReceiptRefs T d = verifiedReceiptRefs T c"
  unfolding verifiedReceiptRefs_def
proof (rule keep_first_sorted_unique)
  let ?refs = "\<lambda>cmd. map (\<lambda>x. toReceiptRef (ai_receipt x)) (filter (action_accepted T cmd) (ec_actions cmd))"
  show eq: "set (?refs d) = set (?refs c)"
    using assms(1) by (simp add: same_facts_accepted [OF assms(1)] same_facts_def)
  have "set (?refs c) \<subseteq> (\<lambda>x. toReceiptRef (ai_receipt x)) ` set (ec_actions c)" by auto
  then show "inj_on rr_handle (set (?refs d))"
    using assms(2) eq inj_on_subset unfolding unambiguous_def by metis
qed

lemma decided_same:
  assumes same: "same_facts c d" and un: "unambiguous c"
    and ties: "reorders (de_blocker_ties E)" "reorders (de_contribution_ties E)"
  shows "decided_outcome E d = (decided_outcome E c)\<lparr>out_decided_at := ec_decided_at d\<rparr>"
proof -
  note f = same_facts_fields [OF same]
  have b: "sort_slice (de_blocker_ties E) bl_handle (ec_blockers d) = sort_slice (de_blocker_ties E) bl_handle (ec_blockers c)"
    using same un by (intro sort_slice_unique [OF ties(1)]) (auto simp: same_facts_def unambiguous_def dest: mset_eq_setD)
  have k: "sort_slice (de_contribution_ties E) (\<lambda>b. (cb_contributor_id b, cb_kind b)) (ec_contributions d)
      = sort_slice (de_contribution_ties E) (\<lambda>b. (cb_contributor_id b, cb_kind b)) (ec_contributions c)"
    using same un by (intro sort_slice_unique [OF ties(2)]) (auto simp: same_facts_def unambiguous_def dest: mset_eq_setD)
  have e: "ec_blockers d = [] \<longleftrightarrow> ec_blockers c = []"
    using same by (metis mset_zero_iff same_facts_def)
  have h: "list_ex hs_disputed (ec_statements d) = list_ex hs_disputed (ec_statements c)"
    using same by (simp add: list_ex_iff same_facts_def)
  note n = eval_needs_set [OF same_facts_verified [OF same, of "de_trust E"], of "po_required (ec_policy c)"]
  show ?thesis
    using n by (simp add: decided_outcome_def Let_def f b k e h same_facts_attached [OF same un]
        same_facts_receipts [OF same un] outcome_derived_id_def)
qed


text \<open>
  C23: but a blocker handle may be used twice, and then the order of the input shows.  Of two blockers
  with one handle the outcome keeps the input order, so exchanging them gives a different outcome.
\<close>
theorem equal_blocker_handles_keep_input_order:
  assumes "bl_handle a = bl_handle b" and "a \<noteq> b"
    and "Decide E (c\<lparr>ec_blockers := [a, b]\<rparr>) = Inr x" and "Decide E (c\<lparr>ec_blockers := [b, a]\<rparr>) = Inr y"
  shows "ocl_blockers (out_claim x) = [a, b] \<and> ocl_blockers (out_claim y) = [b, a] \<and> x \<noteq> y"
proof -
  have "ocl_blockers (out_claim x) = [a, b]" "ocl_blockers (out_claim y) = [b, a]"
    using assms(1,3,4) by (auto simp: Decide_Inr decided_outcome_def sort_slice_def Let_def)
  with assms(2) show ?thesis by auto
qed

subsection \<open>Evaluate on the in-memory store\<close>

lemma decided_fields [simp]:
  "out_tenant (decided_outcome E cmd) = ec_tenant cmd" "out_key (decided_outcome E cmd) = ec_outcome_key cmd"
  "out_revision (decided_outcome E cmd) = ec_revision cmd" "out_decided_at (decided_outcome E cmd) = ec_decided_at cmd"
  "out_work_case_id (decided_outcome E cmd) = ec_work_case_id cmd"
  "out_id (decided_outcome E cmd) = outcome_derived_id (decided_outcome E cmd)"
  by (simp_all add: decided_outcome_def outcome_derived_id_def Let_def)

lemma decided_id [simp]:
  "(decided_outcome E cmd)\<lparr>out_id := outcome_derived_id (decided_outcome E cmd)\<rparr> = decided_outcome E cmd"
  by (metis decided_fields(6) outcome.surjective outcome.update_convs(1))

lemma outcome_event_valid: "outcome_validate fmt x = None \<Longrightarrow> projection_event_validate (outcome_event fmt' x) = None"
  by (auto simp: outcome_validate_def projection_event_validate_def outcome_event_def ContentHash_def)

lemma put_node_present: "put_node n m (node_derived_id n) \<noteq> None"
  by (simp add: put_node_def Let_def)

lemma put_edge_present: "put_edge e m (edge_derived_id e) \<noteq> None"
  by (simp add: put_edge_def Let_def)

lemma fold_put_node_present: "n \<in> set ns \<Longrightarrow> fold put_node ns m (node_derived_id n) \<noteq> None"
proof (induction ns arbitrary: m)
  case (Cons a ns)
  show ?case
  proof (cases "n = a")
    case True
    obtain v where "put_node a m (node_derived_id n) = Some v" using put_node_present [of a m] True by blast
    then show ?thesis using fold_put_node [of "put_node a m" "node_derived_id n" v ns] by simp
  qed (use Cons in simp)
qed simp

lemma fold_put_edge_present: "e \<in> set es \<Longrightarrow> fold put_edge es m (edge_derived_id e) \<noteq> None"
proof (induction es arbitrary: m)
  case (Cons a es)
  show ?case
  proof (cases "e = a")
    case True
    obtain v where "put_edge a m (edge_derived_id e) = Some v" using put_edge_present [of a m] True by blast
    then show ?thesis using fold_put_edge [of "put_edge a m" "edge_derived_id e" v es] by simp
  qed (use Cons in simp)
qed simp

definition lineage_nodes :: "outcome \<Rightarrow> lineage_node list" where
  "lineage_nodes x = outcome_node x # map snd (outcome_targets x)"

definition lineage_edges :: "outcome \<Rightarrow> lineage_edge list" where
  "lineage_edges x = map (\<lambda>(t, n). graph_edge (out_tenant x) t (outcome_node x) n) (outcome_targets x)"

definition lineage_check :: "outcome \<Rightarrow> out_err option" where
  "lineage_check x = first_err [check_each (\<lambda>_. node_validate) 0 (lineage_nodes x),
     check_each (\<lambda>_. edge_validate) 0 (lineage_edges x)]"

definition with_revision :: "outcome \<Rightarrow> outcome_memory \<Rightarrow> outcome_memory" where
  "with_revision x s = s\<lparr>om_outcomes := (om_outcomes s)
     (outcomeKeyOf (out_tenant x) (out_key x) := om_outcomes s (outcomeKeyOf (out_tenant x) (out_key x)) @ [x])\<rparr>"

definition with_facts :: "json_fmt \<Rightarrow> outcome \<Rightarrow> outcome_memory \<Rightarrow> outcome_memory" where
  "with_facts fmt x s = s\<lparr>om_nodes := fold put_node (lineage_nodes x) (om_nodes s),
     om_edges := fold put_edge (lineage_edges x) (om_edges s),
     om_events := (om_events s)(out_tenant x := om_events s (out_tenant x) @
       [(outcome_event fmt x)\<lparr>pe_sequence := of_nat (length (om_events s (out_tenant x))) + 1\<rparr>])\<rparr>"

lemma Evaluate_memory:
  "Evaluate_outcome E (outcome_memory_ops (de_fmt E)) cmd s =
     (case Decide E cmd of Inl e \<Rightarrow> (Inl e, s)
      | Inr x \<Rightarrow>
          (case append_check x (om_outcomes s (outcomeKeyOf (out_tenant x) (out_key x))) of
             Some e \<Rightarrow> (Inl (ErrOutcomeStore e), s)
           | None \<Rightarrow>
               (case lineage_check x of
                  Some e \<Rightarrow> (Inl (ErrOutcomeStore (ErrInvalidRecord e)), with_revision x s)
                | None \<Rightarrow> (Inr x, with_facts (de_fmt E) x (with_revision x s)))))"
proof (cases "Decide E cmd")
  case (Inr x)
  then have x: "outcome_validate (de_fmt E) x = None" "x\<lparr>out_id := outcome_derived_id x\<rparr> = x"
    by (auto simp: Decide_Inr)
  have lin: "om_lineage (lineage_nodes x) (lineage_edges x) t =
      (case lineage_check x of Some e \<Rightarrow> (Some (ErrInvalidRecord e), t)
       | None \<Rightarrow> (None, t\<lparr>om_nodes := fold put_node (lineage_nodes x) (om_nodes t),
                         om_edges := fold put_edge (lineage_edges x) (om_edges t)\<rparr>))" for t
    by (simp add: om_lineage_def lineage_check_def)
  show ?thesis
    using Inr x outcome_event_valid [OF x(1), of "de_fmt E"]
    by (simp add: Evaluate_outcome_def outcome_memory_ops_def om_append_def Let_def lin appendLineageAndProjection_def
        lineage_nodes_def [symmetric] lineage_edges_def [symmetric] om_project_def with_revision_def with_facts_def
        outcome_event_def split: option.splits)
qed (simp add: Evaluate_outcome_def)

text \<open>
  C24: what one evaluation leaves behind.  A successful one appended the decided outcome to its chain,
  stored a node for the outcome, its goal, its case, each observation, each blocker and the revision
  it supersedes, with the edges to them, and recorded one projection event with the next sequence
  number and the content hash.  A failed one changed nothing, unless the lineage facts were refused:
  then the revision stays in its chain.
\<close>
theorem evaluation_effect:
  assumes "Evaluate_outcome E (outcome_memory_ops (de_fmt E)) cmd s = (r, s')"
  shows "case r of
      Inr x \<Rightarrow> Decide E cmd = Inr x
        \<and> om_outcomes s' (outcomeKeyOf (ec_tenant cmd) (ec_outcome_key cmd))
            = om_outcomes s (outcomeKeyOf (ec_tenant cmd) (ec_outcome_key cmd)) @ [x]
        \<and> (\<forall>n \<in> set (lineage_nodes x). om_nodes s' (node_derived_id n) \<noteq> None)
        \<and> (\<forall>e \<in> set (lineage_edges x). om_edges s' (edge_derived_id e) \<noteq> None)
        \<and> om_events s' (ec_tenant cmd) = om_events s (ec_tenant cmd)
            @ [(outcome_event (de_fmt E) x)\<lparr>pe_sequence := of_nat (length (om_events s (ec_tenant cmd))) + 1\<rparr>]
    | Inl e \<Rightarrow> s' = s \<or> (\<exists>x. Decide E cmd = Inr x \<and> lineage_check x \<noteq> None \<and> s' = with_revision x s)"
proof (cases "Decide E cmd")
  case (Inr x)
  have t: "out_tenant x = ec_tenant cmd" "out_key x = ec_outcome_key cmd" using Inr by (auto simp: Decide_Inr)
  show ?thesis
    using assms t fold_put_node_present [of _ "lineage_nodes x" "om_nodes s"]
      fold_put_edge_present [of _ "lineage_edges x" "om_edges s"]
    by (auto simp: Inr Evaluate_memory with_revision_def with_facts_def split: option.splits)
next
  case (Inl e)
  with assms have "r = Inl e" "s' = s" by (auto simp: Inl Evaluate_memory)
  then show ?thesis by simp
qed

lemma lineage_check_long_kind:
  assumes "b \<in> set (ocl_blockers (out_claim x))" and "rune_count (bl_kind b) > 512"
  shows "lineage_check x \<noteq> None"
proof -
  let ?n = "graph_node (out_tenant x) NodeBlocker (bl_handle b) 1 (bl_kind b)"
  have "(EdgeBlockedBy, ?n) \<in> set (outcome_targets x)"
    using assms(1) by (auto simp: outcome_targets_def Let_def)
  then have "?n \<in> set (lineage_nodes x)" unfolding lineage_nodes_def by (auto simp: image_iff intro: rev_bexI)
  moreover have "node_validate ?n \<noteq> None" using assms(2) by (simp add: node_validate_def graph_node_def)
  ultimately show ?thesis by (auto simp: lineage_check_def check_each_None_all)
qed

text \<open>
  C25: a revision can be stranded.  \<open>Outcome.Validate\<close> does not bound a blocker's kind, but the lineage
  node made of it bounds its summary: with a kind of more than 512 characters \<open>Evaluate\<close> stores the
  revision, then fails without lineage facts and without a projection event, and evaluating the
  command again fails for ever with \<open>ErrRevisionExists\<close>.
\<close>
theorem long_blocker_kind_strands_revision:
  assumes "Decide E cmd = Inr x" and "reorders (de_blocker_ties E)"
    and "b \<in> set (ec_blockers cmd)" and "rune_count (bl_kind b) > 512"
    and "append_check x (om_outcomes s (outcomeKeyOf (ec_tenant cmd) (ec_outcome_key cmd))) = None"
  shows "\<exists>e s'. Evaluate_outcome E (outcome_memory_ops (de_fmt E)) cmd s = (Inl e, s')
     \<and> om_latest (ec_tenant cmd) (ec_outcome_key cmd) s' = Inr x
     \<and> om_nodes s' = om_nodes s \<and> om_edges s' = om_edges s \<and> om_events s' = om_events s
     \<and> Evaluate_outcome E (outcome_memory_ops (de_fmt E)) cmd s' = (Inl (ErrOutcomeStore ErrRevisionExists), s')"
proof -
  have x: "out_tenant x = ec_tenant cmd" "out_key x = ec_outcome_key cmd"
    "ocl_blockers (out_claim x) = sort_slice (de_blocker_ties E) bl_handle (ec_blockers cmd)"
    using assms(1) by (auto simp: Decide_Inr decided_outcome_def Let_def)
  have "b \<in> set (ocl_blockers (out_claim x))"
    using assms(3) mset_eq_setD [OF sort_slice_mset [OF assms(2), of bl_handle "ec_blockers cmd"]] x(3) by simp
  then obtain e where "lineage_check x = Some e" using lineage_check_long_kind assms(4) by blast
  moreover have "append_check x (chain @ [x]) = Some ErrRevisionExists" for chain
    by (simp add: append_check_def head_revision_def)
  ultimately show ?thesis
    using assms(1,5) x by (simp add: Evaluate_memory with_revision_def om_latest_def Let_def)
qed

subsection \<open>A concrete evaluation\<close>

definition sample_trust :: trust_env where
  "sample_trust = \<lparr>ed25519_verify = (\<lambda>_ _ _. True), marshal_action_receipt = (\<lambda>_. []), marshal_observation_receipt = (\<lambda>_. [])\<rparr>"

definition sample_env :: decide_env where
  "sample_env = \<lparr>de_trust = sample_trust, de_fmt = sample_fmt, de_blocker_ties = (\<lambda>xs. xs), de_contribution_ties = (\<lambda>xs. xs)\<rparr>"

definition sample_request :: action_request where
  "sample_request = \<lparr>ar_action_id = ''a'', ar_goal_ref = [], ar_outcome_ref = [], ar_work_case_id = ''c'',
     ar_work_plan_revision = 1, ar_actor = ''x'', ar_org_scope = ''o'', ar_capability = ''x'', ar_parameter_hash = ''p'',
     ar_preconditions = [], ar_postconditions = [\<lparr>pc_postcondition_id = ''q'', pc_description = ''d'', pc_verification_need_id = ''n''\<rparr>],
     ar_verification_needs = [\<lparr>vn_need_id = ''n'', vn_source = ''s'', vn_authority = ''w'', vn_max_age = 10\<rparr>],
     ar_risk = NexusRiskLow, ar_approval_refs = [], ar_idempotency_key = [], ar_expires_at = 9,
     ar_execution_receipt_schema = [], ar_compensation_ref = []\<rparr>"

definition sample_receipt :: observation_receipt where
  "sample_receipt = \<lparr>ob_observation_id = ''h'', ob_action_id = ''a'', ob_parameter_hash = ''p'', ob_postcondition_id = ''q'',
     ob_verification_need_id = ''n'', ob_source = ''s'', ob_source_version = ''v'', ob_authority = ''w'', ob_observed_at = 4,
     ob_freshness_window = 8, ob_normalized_hash = ''z'', ob_evidence_ref = [], ob_audit_ref = [],
     ob_signature = Some \<lparr>sig_algorithm = ''ed25519'', sig_key_id = ''y'', sig_value = ''AAAA''\<rparr>\<rparr>"

definition sample_eval :: "blocker_ref list \<Rightarrow> evaluate_command" where
  "sample_eval bs = \<lparr>ec_tenant = ''t'', ec_outcome_key = ''k'', ec_revision = 1, ec_supersedes = None,
     ec_goal = \<lparr>gl_tenant = ''t'', gl_goal_key = ''g'', gl_goal_version = 1\<rparr>, ec_work_case_id = ''c'',
     ec_work_case_revision = 1, ec_work_plan_revision = 1, ec_operating_map_version = 1, ec_org_version = 0,
     ec_policy = \<lparr>po_version = ''r'', po_required = [\<lparr>rp_need_id = ''n'', rp_postcondition_id = ''q'', rp_authority = ''w'',
       rp_expected_hash = ''z'', rp_accepting_hashes = []\<rparr>]\<rparr>,
     ec_decided_at = 9, ec_trusted_key_id = ''y'', ec_trusted_key = replicate 32 (CHR ''x''),
     ec_observations = [\<lparr>oi_request = sample_request, oi_receipt = sample_receipt\<rparr>], ec_actions = [],
     ec_blockers = bs, ec_statements = [], ec_contributions = [], ec_revoked = []\<rparr>"

lemma sample_env_simps [simp]:
  "de_trust sample_env = sample_trust" "de_fmt sample_env = sample_fmt"
  "reorders (de_blocker_ties sample_env)" "reorders (de_contribution_ties sample_env)"
  by (simp_all add: sample_env_def reorders_def)

lemma sample_eval_simps [simp]:
  "ec_tenant (sample_eval bs) = ''t''" "ec_outcome_key (sample_eval bs) = ''k''" "ec_revision (sample_eval bs) = 1"
  "ec_work_case_id (sample_eval bs) = ''c''" "ec_decided_at (sample_eval bs) = 9" "ec_blockers (sample_eval bs) = bs"
  by (simp_all add: sample_eval_def)

definition sample_decision :: "blocker_ref list \<Rightarrow> outcome" where
  "sample_decision bs =
     \<lparr>out_id = [], out_tenant = ''t'', out_key = ''k'', out_revision = 1,
      out_claim = \<lparr>ocl_goal = \<lparr>gl_tenant = ''t'', gl_goal_key = ''g'', gl_goal_version = 1\<rparr>,
        ocl_status = (if bs = [] then OutcomeSatisfied else OutcomeBlocked), ocl_rule_version = ''r'', ocl_evidence = [],
        ocl_observations = [\<lparr>or_handle = ''h'', or_observation_hash = ''z'', or_authority = ''w'', or_signature_key_id = ''y'',
          or_observed_at = 4\<rparr>],
        ocl_blockers = bs,
        ocl_confidence = [\<lparr>cc_kind = ''authority'', cc_score = Fin 1\<rparr>, \<lparr>cc_kind = ''freshness'', cc_score = Fin 1\<rparr>,
          \<lparr>cc_kind = ''coverage'', cc_score = Fin 1\<rparr>, \<lparr>cc_kind = ''consistency'', cc_score = Fin 1\<rparr>,
          \<lparr>cc_kind = ''attribution'', cc_score = Fin 0\<rparr>]\<rparr>,
      out_work_case_id = ''c'', out_work_case_revision = 1, out_work_plan_revision = 1, out_operating_map_version = 1,
      out_org_version = 0, out_action_receipts = [], out_contributions = [], out_decided_at = 9, out_supersedes = None\<rparr>"

lemma sample_verified:
  "verified_observations sample_trust (sample_eval bs) = [\<lparr>vo_receipt = sample_receipt, vo_fresh = True\<rparr>]"
proof -
  have b: "base64_std_decode ''AAAA'' \<noteq> None" by code_simp
  then have "obs_accepted sample_trust (sample_eval bs) \<lparr>oi_request = sample_request, oi_receipt = sample_receipt\<rparr>"
    by (auto simp: obs_accepted_def VerifyObservationReceipt_None_iff verifySignature_None_iff sample_eval_def sample_request_def
        sample_receipt_def sample_trust_def signature_empty_def SignatureAlgorithmEd25519_def ed25519_public_key_size_def)
  then show ?thesis
    by (simp add: verified_observations_def verify_obs_def freshnessOf_def time_sub_def max_duration_def min_duration_def
       need_max_age_def sample_eval_def sample_request_def sample_receipt_def)
qed

lemma sample_decided:
  assumes "sort_key bl_handle bs = bs"
  shows "(decided_outcome sample_env (sample_eval bs))\<lparr>out_id := []\<rparr> = sample_decision bs"
proof -
  have n: "eval_needs [\<lparr>vo_receipt = sample_receipt, vo_fresh = True\<rparr>] (po_required (ec_policy (sample_eval bs))) =
     \<lparr>ns_verdicts = [NeedSatisfied], ns_covered = 1, ns_fresh = 1, ns_conflicts = 0, ns_attached = [toObservationRef sample_receipt]\<rparr>"
    by (simp add: eval_needs_def eval_need_def no_needs_def need_candidates_def by_need_def authoritative_def sample_eval_def sample_receipt_def
       need_decision_def observed_hashes_def hasAcceptingDefinition_def accepts_def attach_def Let_def)
  have r: "ratio 1 1 = 1" "ratio 0 1 = 0" by (simp_all add: ratio_def f64_div_int_def clamp01_def)
  show ?thesis
    by (simp add: decided_outcome_def sample_verified n Let_def sample_decision_def)
      (simp add: sample_eval_def toObservationRef_def sample_receipt_def combineStatus_def
        confidenceComponents_def r clamp01_def sort_slice_def assms sample_env_def verifiedReceiptRefs_def Let_def)
qed

lemma derived_id_calm: "calm (outcome_derived_id x)"
proof -
  have hex: "set (hex_encode m) \<subseteq> set ''0123456789abcdef''" for m
  proof -
    have d: "char_of ` ({48..57::nat} \<union> {97..102}) \<subseteq> set ''0123456789abcdef''" by code_simp
    have "c \<in> set ''0123456789abcdef''" if "is_hex_lower c" for c
    proof -
      have "char_of (byte c) \<in> char_of ` ({48..57::nat} \<union> {97..102})"
        using that by (intro imageI) (auto simp: is_hex_lower_def byte_in_def)
      then have "char_of (byte c) \<in> set ''0123456789abcdef''" using d by blast
      then show ?thesis by (simp only: byte_def char_of_char)
    qed
    then show ?thesis using hex_encode_lower [of m] by blast
  qed
  have "set (take 40 (hex_encode m)) \<subseteq> set ''0123456789abcdef''" for m
    using set_take_subset [of 40 "hex_encode m"] hex [of m] by (rule order_trans)
  then have "set (outcome_derived_id x) \<subseteq> set ''ol_'' \<union> set ''0123456789abcdef''"
    unfolding outcome_derived_id_def StableID_def set_append by (rule Un_mono [OF order_refl])
  also have "\<dots> \<subseteq> set ''ol_0123456789abcdef''" by simp
  finally show ?thesis by (rule calm_id_chars)
qed

lemma sample_calm: "list_all calm [''t'', ''k'', ''c'', ''g'', ''r'', ''h'', ''z'', ''w'', ''y'', ''a'', ''b'', ''x'']"
  "list_all calm [''authority'', ''freshness'', ''coverage'', ''consistency'', ''attribution'']" "calm []"
  by (simp_all add: calm_def quiet_def plain_def byte_def lower_rune_def json_escape_byte_def leak_words_def)

lemma short_kind_valid:
  "k \<noteq> [] \<Longrightarrow> length k \<le> 64 \<Longrightarrow> \<not> f64_outside_unit v \<Longrightarrow> confidence_validate \<lparr>cc_kind = k, cc_score = v\<rparr> = None"
  using rune_count_short [of k 64] by (simp add: confidence_validate_def)

lemma sample_claim_valid:
  assumes "list_all (\<lambda>b. blocker_validate b = None) bs"
  shows "claim_validate (out_claim (sample_decision bs)) = None"
  unfolding claim_validate_def first_err_Cons_None first_err.simps(1)
proof (intro conjI)
  show "check_unique confidence_validate cc_kind (\<lambda>_. out_err.ErrField ''duplicate component kind'') []
      (ocl_confidence (out_claim (sample_decision bs))) = None"
    unfolding check_unique_None_iff by (simp add: sample_decision_def short_kind_valid f64_outside_unit_def)
  show "check_each (\<lambda>_. blocker_validate) 0 (ocl_blockers (out_claim (sample_decision bs))) = None"
    using assms by (simp add: check_each_None_all sample_decision_def list_all_iff)
qed (simp_all add: sample_decision_def goal_validate_def observation_validate_def time_is_zero_def byte_def)

lemma sample_valid:
  assumes "list_all (\<lambda>b. blocker_validate b = None) bs"
    and "list_all (\<lambda>b. list_all calm [bl_handle b, bl_kind b, bl_authority b, bl_summary b]) bs" and "calm i"
  shows "outcome_validate sample_fmt ((sample_decision bs)\<lparr>out_id := i\<rparr>) = None"
proof -
  let ?x = "(sample_decision bs)\<lparr>out_id := i\<rparr>"
  have "list_all calm (outcome_strings ?x)"
    using assms(2,3) sample_calm
    by (simp add: outcome_strings_def sample_decision_def claim_strings_def list_all_concat)
  moreover have "outcome_status_valid (ocl_status (out_claim ?x))" by (simp add: sample_decision_def)
  ultimately have "NoRawContentLeak (outcome_json sample_fmt) ?x = None"
    by (intro tame_no_leak outcome_tame sample_fmt_tame)
  moreover have "claim_validate (out_claim ?x) = None" using sample_claim_valid [OF assms(1)] by simp
  ultimately show ?thesis
    by (simp add: outcome_validate_def, simp add: sample_decision_def satisfied_check_def supersession_check_def
        IsAuthoritative_def time_is_zero_def byte_def)
qed

lemma sample_decides:
  assumes "sort_key bl_handle bs = bs" and "list_all (\<lambda>b. blocker_validate b = None) bs"
    and "list_all (\<lambda>b. list_all calm [bl_handle b, bl_kind b, bl_authority b, bl_summary b]) bs"
  shows "Decide sample_env (sample_eval bs) = Inr (decided_outcome sample_env (sample_eval bs))"
proof -
  let ?x = "decided_outcome sample_env (sample_eval bs)"
  have x: "(sample_decision bs)\<lparr>out_id := outcome_derived_id ?x\<rparr> = ?x"
    unfolding sample_decided [OF assms(1), symmetric] by simp
  have "outcome_validate sample_fmt ?x = None"
    using sample_valid [OF assms(2,3) derived_id_calm [of ?x]] unfolding x .
  moreover have "command_check (sample_eval bs) = None"
    by (simp add: command_check_def sample_eval_def policy_validate_def required_validate_def time_is_zero_def
        ed25519_public_key_size_def)
  ultimately show ?thesis by (simp add: Decide_def sample_env_def)
qed

lemma satisfied_decision_iff_witness:
  "\<exists>y. evidence_for sample_trust (sample_eval []) \<lparr>rp_need_id = ''n'', rp_postcondition_id = ''q'', rp_authority = ''w'',
       rp_expected_hash = ''z'', rp_accepting_hashes = []\<rparr> y"
proof -
  have "Decide sample_env (sample_eval []) = Inr (decided_outcome sample_env (sample_eval []))"
    by (rule sample_decides) simp_all
  note iff = satisfied_decision_iff [OF this]
  have "out_claim (decided_outcome sample_env (sample_eval [])) = out_claim (sample_decision [])"
    using arg_cong [OF sample_decided [of "[]"], of out_claim] by simp
  then have "ocl_status (out_claim (decided_outcome sample_env (sample_eval []))) = OutcomeSatisfied"
    by (simp add: sample_decision_def)
  then show ?thesis using iff by (auto simp: sample_eval_def sample_env_def)
qed

definition sample_blocker :: "string \<Rightarrow> string \<Rightarrow> blocker_ref" where
  "sample_blocker h k = \<lparr>bl_handle = h, bl_kind = k, bl_authority = ''a'', bl_summary = []\<rparr>"

lemma sample_blocked:
  assumes "calm k1" and "calm k2" and "k1 \<noteq> []" and "k2 \<noteq> []"
  shows "Decide sample_env (sample_eval [sample_blocker ''b'' k1, sample_blocker ''b'' k2])
       = Inr (decided_outcome sample_env (sample_eval [sample_blocker ''b'' k1, sample_blocker ''b'' k2]))"
    and "Decide sample_env (sample_eval [sample_blocker ''b'' k1, sample_blocker ''c'' k2])
       = Inr (decided_outcome sample_env (sample_eval [sample_blocker ''b'' k1, sample_blocker ''c'' k2]))"
  using assms sample_calm
  by (auto intro!: sample_decides simp: sample_blocker_def blocker_validate_def less_list_code)


lemma equal_blocker_handles_keep_input_order_witness:
  "decided_outcome sample_env (sample_eval [sample_blocker ''b'' ''x'', sample_blocker ''b'' ''y''])
     \<noteq> decided_outcome sample_env (sample_eval [sample_blocker ''b'' ''y'', sample_blocker ''b'' ''x''])"
proof -
  let ?a = "sample_blocker ''b'' ''x''" and ?b = "sample_blocker ''b'' ''y''"
  have "(sample_eval [])\<lparr>ec_blockers := bs\<rparr> = sample_eval bs" for bs by (simp add: sample_eval_def)
  then show ?thesis
    using equal_blocker_handles_keep_input_order [of ?a ?b sample_env "sample_eval []"] sample_calm
      sample_blocked(1) [of "''x''" "''y''"] sample_blocked(1) [of "''y''" "''x''"]
    by (simp add: sample_blocker_def)
qed

lemma calm_node_names: "list_all calm [''node_type'', ''business_id'', ''work_case'', ''observation'']"
  by (simp add: calm_def quiet_def plain_def byte_def lower_rune_def json_escape_byte_def leak_words_def)

lemma sample_node:
  assumes "list_all calm [node_type_text ty, b, sm]" and "node_type_valid ty" and "b \<noteq> []" and "length sm \<le> 512"
  shows "node_validate (graph_node ''t'' ty b 1 sm) = None"
proof -
  have "NoRawContentLeak node_json (graph_node ''t'' ty b 1 sm) = None"
    using assms(1) calm_node_names calm_field_names sample_calm
    by (intro tame_no_leak) (simp add: node_json_def graph_node_def json_omit_def tame_parts)
  then show ?thesis using assms(2-4) rune_count_short [of sm 512] by (simp add: node_validate_def graph_node_def)
qed

lemma sample_lineage: "lineage_check (decided_outcome sample_env (sample_eval [])) = None"
proof -
  let ?x = "decided_outcome sample_env (sample_eval [])"
  have c: "out_claim ?x = out_claim (sample_decision [])" "out_supersedes ?x = None" "out_work_case_revision ?x = 1"
    using arg_cong [OF sample_decided [of "[]"], of out_claim] arg_cong [OF sample_decided [of "[]"], of out_supersedes]
      arg_cong [OF sample_decided [of "[]"], of out_work_case_revision]
    by (simp_all add: sample_decision_def)
  have nodes: "lineage_nodes ?x = [graph_node ''t'' NodeOutcome ''k'' 1 [], graph_node ''t'' NodeGoal ''g'' 1 [],
      graph_node ''t'' NodeWorkCase ''c'' 1 [], graph_node ''t'' NodeObservation ''h'' 1 ''w'']"
    by (simp add: lineage_nodes_def outcome_node_def outcome_targets_def c Let_def) (simp add: sample_decision_def)
  have "list_all calm [''outcome'', ''goal'']"
    by (simp add: calm_def quiet_def plain_def byte_def lower_rune_def json_escape_byte_def leak_words_def)
  then have "check_each (\<lambda>_. node_validate) 0 (lineage_nodes ?x) = None"
    unfolding check_each_None_all nodes using calm_node_names sample_calm by (simp add: sample_node)
  moreover have "check_each (\<lambda>_. edge_validate) 0 (lineage_edges ?x) = None"
    unfolding check_each_None_all
    by (simp add: lineage_edges_def outcome_node_def outcome_targets_def c Let_def)
      (simp add: sample_decision_def edge_validate_def graph_edge_def endpoint_def graph_node_def endpoint_validate_def)
  ultimately show ?thesis by (simp add: lineage_check_def)
qed

lemma evaluation_effect_witness:
  "length (om_events (snd (Evaluate_outcome sample_env (outcome_memory_ops sample_fmt) (sample_eval []) NewOutcomeMemory)) ''t'') = 1"
proof -
  have d: "Decide sample_env (sample_eval []) = Inr (decided_outcome sample_env (sample_eval []))"
    by (rule sample_decides) simp_all
  have "fst (Evaluate_outcome sample_env (outcome_memory_ops sample_fmt) (sample_eval []) NewOutcomeMemory)
      = Inr (decided_outcome sample_env (sample_eval []))"
    using Evaluate_memory [of sample_env "sample_eval []" NewOutcomeMemory]
    by (simp add: d sample_lineage append_check_def head_revision_def NewOutcomeMemory_def)
  then show ?thesis
    using evaluation_effect [of sample_env "sample_eval []" NewOutcomeMemory, OF surjective_pairing]
    by (simp add: NewOutcomeMemory_def)
qed

lemma long_blocker_kind_strands_revision_witness:
  "\<exists>e s'. Evaluate_outcome sample_env (outcome_memory_ops sample_fmt)
      (sample_eval [sample_blocker ''b'' (replicate 513 (CHR ''k'')), sample_blocker ''c'' ''x'']) NewOutcomeMemory = (Inl e, s')
    \<and> om_latest ''t'' ''k'' s' \<noteq> Inl ErrOutcomeNotFound"
proof -
  let ?cmd = "sample_eval [sample_blocker ''b'' (replicate 513 (CHR ''k'')), sample_blocker ''c'' ''x'']"
  have n: "rune_count (replicate 513 (CHR ''k'')) = 513"
    using rune_count_ascii [of "replicate 513 (CHR ''k'')"] by (simp add: byte_def set_replicate_conv_if)
  have d: "Decide sample_env ?cmd = Inr (decided_outcome sample_env ?cmd)"
    using sample_calm calm_replicate by (intro sample_blocked) simp_all
  have "append_check (decided_outcome sample_env ?cmd) [] = None"
    by (simp add: append_check_def head_revision_def)
  then show ?thesis
    using long_blocker_kind_strands_revision [OF d, of "sample_blocker ''b'' (replicate 513 (CHR ''k''))" NewOutcomeMemory] n
    by (auto simp: NewOutcomeMemory_def sample_blocker_def)
qed

end
