(* ===== verification/WcStore.thy ===== *)
theory WcStore
  imports WcModel GoText
begin

text \<open>
  The persistence port of the WorkCase aggregate, \<^verbatim>\<open>internal/workcase/store.go\<close>: the command
  envelope, the typed errors, the in-memory store, and what a store promises its clients.

  \<^item> \<open>case_store\<close> is the Go interface \<open>Store\<close> as a dictionary of operations over a store state.
  \<^item> \<open>case_db\<close> with \<open>spec_get\<close>/\<open>spec_apply\<close> is the abstract specification: snapshots by case id, a
    per-enterprise idempotency table and an append-only event log.  Its argument \<open>tx\<close> says what the
    store keeps of a string in a plan: the string itself in memory, its valid UTF-8 in a JSON column.
  \<^item> the locale \<open>case_store_contract\<close> is the contract; \<open>memory_store\<close> implements it through the
    NUL-joined keys of \<open>memKey\<close> (\<open>WcPostgres\<close> holds the PostgreSQL implementation).
\<close>

datatype wc_error =
    ErrNotFound
  | ErrStaleRevision
  | ErrInvalidCommand
  | ErrInvalidTransition
  | ErrIdempotencyKeyReused
  | ErrEventLogConflict
  | ErrStoreFailure

datatype event_type =
    EventCaseCreated | EventPlanProposed | EventReviewStarted | EventExecutionStarted | EventStepTransitioned

record wc_command =
  cm_enterprise_id :: string
  cm_org_scope :: string
  cm_actor_ref :: string
  cm_case_id :: string
  cm_expected_revision :: uint64
  cm_idempotency_key :: string

type_synonym wc_mutate = "work_case \<Rightarrow> wc_error + work_case"

record stored_event =
  se_seq :: uint64
  se_type :: event_type
  se_payload :: work_case
  se_created_at :: go_time

record 's case_store =
  store_get :: "string \<Rightarrow> string \<Rightarrow> string \<Rightarrow> 's \<Rightarrow> wc_error + work_case"
  store_apply :: "go_time \<Rightarrow> wc_command \<Rightarrow> event_type \<Rightarrow> wc_mutate \<Rightarrow> 's \<Rightarrow> (wc_error + work_case) \<times> 's"

subsection \<open>The in-memory store\<close>

record memory_store =
  ms_cases :: "string \<Rightarrow> work_case option"
  ms_idempotency :: "string \<Rightarrow> (string \<times> work_case) option"
  ms_events :: "string \<Rightarrow> stored_event list"

definition NewMemoryStore :: memory_store where
  "NewMemoryStore = \<lparr>ms_cases = (\<lambda>_. None), ms_idempotency = (\<lambda>_. None), ms_events = (\<lambda>_. [])\<rparr>"

definition memKey :: "string \<Rightarrow> string \<Rightarrow> string" where
  "memKey enterpriseID i = nul_key enterpriseID i"

definition in_scope :: "string \<Rightarrow> string \<Rightarrow> work_case \<Rightarrow> bool" where
  "in_scope ent org c \<longleftrightarrow> wc_enterprise_id c = ent \<and> wc_org_scope c = org"

definition mem_get :: "string \<Rightarrow> string \<Rightarrow> string \<Rightarrow> memory_store \<Rightarrow> wc_error + work_case" where
  "mem_get ent org cid s =
     (case ms_cases s cid of
        None \<Rightarrow> Inl ErrNotFound
      | Some c \<Rightarrow> if in_scope ent org c then Inr c else Inl ErrNotFound)"

definition mem_apply ::
    "go_time \<Rightarrow> wc_command \<Rightarrow> event_type \<Rightarrow> wc_mutate \<Rightarrow> memory_store \<Rightarrow> (wc_error + work_case) \<times> memory_store" where
  "mem_apply now cmd et mutate s =
     (let idemKey = memKey (cm_enterprise_id cmd) (cm_idempotency_key cmd) in
      case ms_idempotency s idemKey of
        Some (caseID, result) \<Rightarrow>
          (if wc_org_scope result \<noteq> cm_org_scope cmd then (Inl ErrNotFound, s)
           else if caseID \<noteq> cm_case_id cmd then (Inl ErrIdempotencyKeyReused, s)
           else (Inr result, s))
      | None \<Rightarrow>
          (let existing = ms_cases s (cm_case_id cmd);
               visible = (case existing of None \<Rightarrow> False
                          | Some c \<Rightarrow> in_scope (cm_enterprise_id cmd) (cm_org_scope cmd) c);
               current = (if visible then the existing else zero_case)
           in if et = EventCaseCreated \<and> existing \<noteq> None then (Inl ErrStaleRevision, s)
              else if et \<noteq> EventCaseCreated \<and> \<not> visible then (Inl ErrNotFound, s)
              else if wc_revision current \<noteq> cm_expected_revision cmd then (Inl ErrStaleRevision, s)
              else case mutate current of
                Inl e \<Rightarrow> (Inl e, s)
              | Inr nxt \<Rightarrow>
                  (Inr nxt,
                   s\<lparr>ms_cases := (ms_cases s)(cm_case_id cmd := Some nxt),
                     ms_idempotency := (ms_idempotency s)(idemKey := Some (cm_case_id cmd, nxt)),
                     ms_events := (ms_events s)(cm_case_id cmd := ms_events s (cm_case_id cmd) @
                       [\<lparr>se_seq = wc_revision nxt, se_type = et, se_payload = nxt, se_created_at = now\<rparr>])\<rparr>)))"

definition memory_case_store :: "memory_store case_store" where
  "memory_case_store = \<lparr>store_get = mem_get, store_apply = mem_apply\<rparr>"

subsection \<open>What a store keeps of a case\<close>

definition stored_evidence :: "(string \<Rightarrow> string) \<Rightarrow> wc_evidence_ref \<Rightarrow> wc_evidence_ref" where
  "stored_evidence tx e = \<lparr>we_handle = tx (we_handle e), we_content_hash = tx (we_content_hash e),
     we_authority = tx (we_authority e)\<rparr>"

definition stored_precondition :: "(string \<Rightarrow> string) \<Rightarrow> wc_precondition \<Rightarrow> wc_precondition" where
  "stored_precondition tx p = \<lparr>wp_kind = tx (wp_kind p), wp_value_hash = tx (wp_value_hash p)\<rparr>"

definition stored_action :: "(string \<Rightarrow> string) \<Rightarrow> action_spec \<Rightarrow> action_spec" where
  "stored_action tx a =
     \<lparr>as_kind = tx (as_kind a), as_business_capability = tx (as_business_capability a),
      as_parameters_hash = tx (as_parameters_hash a), as_risk = tx (as_risk a),
      as_idempotency_key = tx (as_idempotency_key a), as_preconditions = map (stored_precondition tx) (as_preconditions a),
      as_expires_at = as_expires_at a, as_expected_receipt_schema = tx (as_expected_receipt_schema a),
      as_compensation_action_id = map_option tx (as_compensation_action_id a), as_failure_policy = tx (as_failure_policy a)\<rparr>"

fun stored_status :: "(string \<Rightarrow> string) \<Rightarrow> step_status \<Rightarrow> step_status" where
  "stored_status tx (StepOther s) = StepOther (tx s)"
| "stored_status tx st = st"

definition stored_step :: "(string \<Rightarrow> string) \<Rightarrow> wc_step \<Rightarrow> wc_step" where
  "stored_step tx s =
     \<lparr>st_id = tx (st_id s), st_status = stored_status tx (st_status s),
      st_evidence = map (stored_evidence tx) (st_evidence s), st_action = map_option (stored_action tx) (st_action s)\<rparr>"

definition stored_plan :: "(string \<Rightarrow> string) \<Rightarrow> work_plan \<Rightarrow> work_plan" where
  "stored_plan tx p = \<lparr>pl_revision = pl_revision p, pl_steps = map (stored_step tx) (pl_steps p)\<rparr>"

definition stored_case :: "(string \<Rightarrow> string) \<Rightarrow> work_case \<Rightarrow> work_case" where
  "stored_case tx c = c\<lparr>wc_plans := map (stored_plan tx) (wc_plans c)\<rparr>"

lemma stored_case_fields [simp]:
  "wc_id (stored_case tx c) = wc_id c" "wc_enterprise_id (stored_case tx c) = wc_enterprise_id c"
  "wc_org_scope (stored_case tx c) = wc_org_scope c" "wc_actor_ref (stored_case tx c) = wc_actor_ref c"
  "wc_status (stored_case tx c) = wc_status c" "wc_revision (stored_case tx c) = wc_revision c"
  "wc_plans (stored_case tx c) = map (stored_plan tx) (wc_plans c)"
  by (simp_all add: stored_case_def)

text \<open>Memory keeps a case as it is.\<close>

lemma stored_same: "stored_plan (\<lambda>s. s) p = p"
proof -
  have "stored_status (\<lambda>s. s) st = st" for st by (cases st) simp_all
  moreover have "stored_precondition (\<lambda>s. s) q = q" for q by (simp add: stored_precondition_def)
  then have "stored_action (\<lambda>s. s) a = a" for a
    by (simp add: stored_action_def option.map_ident map_idI)
  moreover have "stored_evidence (\<lambda>s. s) e = e" for e by (simp add: stored_evidence_def)
  ultimately have "stored_step (\<lambda>s. s) st = st" for st
    by (simp add: stored_step_def map_idI option.map_ident cong: option.map_cong)
  then show ?thesis by (simp add: stored_plan_def map_idI)
qed

lemma stored_case_same [simp]: "stored_case (\<lambda>s. s) c = c"
  by (simp add: stored_case_def stored_same map_idI)

text \<open>What a conversion of texts must leave alone: what is stored already, empty texts, and the word \<open>write\<close>.\<close>

definition keeps_text :: "(string \<Rightarrow> string) \<Rightarrow> bool" where
  "keeps_text tx \<longleftrightarrow> (\<forall>s. tx (tx s) = tx s \<and> (tx s = [] \<longleftrightarrow> s = []) \<and> (tx s = ''write'' \<longleftrightarrow> s = ''write''))"

lemma keeps_text_same: "keeps_text (\<lambda>s. s)"
  by (simp add: keeps_text_def)

lemma keeps_text_clean: "keeps_text clean"
  using clean_eq_ascii [of "[]"] clean_eq_ascii [of "''write''"] by (simp add: keeps_text_def byte_def)

lemma stored_plan_twice [simp]: "keeps_text tx \<Longrightarrow> stored_plan tx (stored_plan tx p) = stored_plan tx p"
proof -
  assume kt: "keeps_text tx"
  have "stored_status tx (stored_status tx st) = stored_status tx st" for st
    using kt by (cases st) (simp_all add: keeps_text_def)
  moreover have "stored_action tx (stored_action tx a) = stored_action tx a" for a
    using kt by (simp add: stored_action_def stored_precondition_def keeps_text_def option.map_comp o_def)
  ultimately have "stored_step tx (stored_step tx st) = stored_step tx st" for st
    using kt by (simp add: stored_step_def stored_evidence_def keeps_text_def option.map_comp o_def)
  then show ?thesis by (simp add: stored_plan_def)
qed

lemma stored_case_twice [simp]: "keeps_text tx \<Longrightarrow> stored_case tx (stored_case tx c) = stored_case tx c"
  by (simp add: stored_case_def)

lemma stored_plan_validates: "keeps_text tx \<Longrightarrow> ValidatePlan (stored_plan tx p) = ValidatePlan p"
proof -
  assume kt: "keeps_text tx"
  have step: "write_without_policy (stored_step tx st) = write_without_policy st" for st
    using kt by (simp add: write_without_policy_def stored_step_def stored_action_def keeps_text_def split: option.split)
  have "ValidatePlan_steps (map (stored_step tx) ss) = ValidatePlan_steps ss" for ss
    by (induction ss) (simp_all add: step)
  then show ?thesis by (simp add: ValidatePlan_def stored_plan_def)
qed

subsection \<open>The abstract store\<close>

record case_db =
  db_cases :: "string \<Rightarrow> work_case option"
  db_replay :: "string \<Rightarrow> string \<Rightarrow> (string \<times> work_case) option"
  db_events :: "string \<Rightarrow> stored_event list"

definition empty_db :: case_db where
  "empty_db = \<lparr>db_cases = (\<lambda>_. None), db_replay = (\<lambda>_ _. None), db_events = (\<lambda>_. [])\<rparr>"

definition spec_get :: "string \<Rightarrow> string \<Rightarrow> string \<Rightarrow> case_db \<Rightarrow> wc_error + work_case" where
  "spec_get ent org cid db =
     (case db_cases db cid of
        Some c \<Rightarrow> if in_scope ent org c then Inr c else Inl ErrNotFound
      | None \<Rightarrow> Inl ErrNotFound)"

definition visible_case :: "wc_command \<Rightarrow> case_db \<Rightarrow> work_case option" where
  "visible_case cmd db =
     (case db_cases db (cm_case_id cmd) of
        Some c \<Rightarrow> if in_scope (cm_enterprise_id cmd) (cm_org_scope cmd) c then Some c else None
      | None \<Rightarrow> None)"

definition precheck :: "wc_command \<Rightarrow> event_type \<Rightarrow> case_db \<Rightarrow> wc_error + work_case" where
  "precheck cmd et db =
     (if et = EventCaseCreated
      then (if db_cases db (cm_case_id cmd) \<noteq> None then Inl ErrStaleRevision
            else if cm_expected_revision cmd \<noteq> 0 then Inl ErrStaleRevision
            else Inr zero_case)
      else case visible_case cmd db of
        None \<Rightarrow> Inl ErrNotFound
      | Some c \<Rightarrow> if wc_revision c \<noteq> cm_expected_revision cmd then Inl ErrStaleRevision else Inr c)"

definition record_event :: "go_time \<Rightarrow> wc_command \<Rightarrow> event_type \<Rightarrow> work_case \<Rightarrow> case_db \<Rightarrow> case_db" where
  "record_event now cmd et nxt db =
     db\<lparr>db_cases := (db_cases db)(cm_case_id cmd := Some nxt),
        db_replay := (db_replay db)(cm_enterprise_id cmd :=
          (db_replay db (cm_enterprise_id cmd))(cm_idempotency_key cmd := Some (cm_case_id cmd, nxt))),
        db_events := (db_events db)(cm_case_id cmd := db_events db (cm_case_id cmd) @
          [\<lparr>se_seq = wc_revision nxt, se_type = et, se_payload = nxt, se_created_at = now\<rparr>])\<rparr>"

definition replay_result :: "wc_command \<Rightarrow> string \<times> work_case \<Rightarrow> wc_error + work_case" where
  "replay_result cmd rec =
     (if wc_org_scope (snd rec) \<noteq> cm_org_scope cmd then Inl ErrNotFound
      else if fst rec \<noteq> cm_case_id cmd then Inl ErrIdempotencyKeyReused
      else Inr (snd rec))"

definition spec_apply ::
    "(string \<Rightarrow> string) \<Rightarrow> go_time \<Rightarrow> wc_command \<Rightarrow> event_type \<Rightarrow> wc_mutate \<Rightarrow> case_db \<Rightarrow> (wc_error + work_case) \<times> case_db" where
  "spec_apply tx now cmd et mutate db =
     (case db_replay db (cm_enterprise_id cmd) (cm_idempotency_key cmd) of
        Some rec \<Rightarrow> (replay_result cmd rec, db)
      | None \<Rightarrow>
          (case rbind (precheck cmd et db) mutate of
             Inl e \<Rightarrow> (Inl e, db)
           | Inr nxt \<Rightarrow> (Inr nxt, record_event now cmd et (stored_case tx nxt) db)))"

subsection \<open>The contract\<close>

text \<open>
  A store answers as the abstract one, or with a fault: then the command has taken no effect, or,
  where only the acknowledgment of the commit was lost, its whole effect.

  What a command must satisfy for the stores to agree: its enterprise id holds no NUL byte, and
  its mutation keeps the identity of the case (a creation yields the commanded identity).
\<close>

definition keeps_identity :: "wc_command \<Rightarrow> event_type \<Rightarrow> wc_mutate \<Rightarrow> bool" where
  "keeps_identity cmd et mutate \<longleftrightarrow>
     (if et = EventCaseCreated
      then \<exists>n. mutate zero_case = Inr n \<and> wc_id n = cm_case_id cmd
             \<and> in_scope (cm_enterprise_id cmd) (cm_org_scope cmd) n
      else \<forall>c n. mutate c = Inr n \<longrightarrow>
             wc_id n = wc_id c \<and> wc_enterprise_id n = wc_enterprise_id c
             \<and> wc_org_scope n = wc_org_scope c \<and> wc_actor_ref n = wc_actor_ref c)"

text \<open>Every case the data hold is as the store keeps it.\<close>

definition db_stored :: "(string \<Rightarrow> string) \<Rightarrow> case_db \<Rightarrow> bool" where
  "db_stored tx db \<longleftrightarrow>
     (\<forall>cid c. db_cases db cid = Some c \<longrightarrow> stored_case tx c = c)
   \<and> (\<forall>e k x. db_replay db e k = Some x \<longrightarrow> stored_case tx (snd x) = snd x)"

lemma db_stored_same: "db_stored (\<lambda>s. s) db"
  by (simp add: db_stored_def)

definition store_fault :: "wc_error + 'a \<Rightarrow> bool" where
  "store_fault r \<longleftrightarrow> r = Inl ErrStoreFailure \<or> r = Inl ErrEventLogConflict"

lemma store_fault_Inr [simp]: "\<not> store_fault (Inr x)"
  by (simp add: store_fault_def)

locale case_store_contract =
  fixes S :: "'s case_store"
    and view :: "'s \<Rightarrow> case_db"
    and inv :: "'s \<Rightarrow> bool"
    and tx :: "string \<Rightarrow> string"
  assumes tx_law: "keeps_text tx"
    and stored_law: "inv s \<Longrightarrow> db_stored tx (view s)"
    and get_law:
      "inv s \<Longrightarrow> store_get S ent org cid s = spec_get ent org cid (view s) \<or> store_fault (store_get S ent org cid s)"
    and apply_law:
      "inv s \<Longrightarrow> nul_free (cm_enterprise_id cmd) \<Longrightarrow> keeps_identity cmd et f \<Longrightarrow>
       store_apply S now cmd et f s = (r, s') \<Longrightarrow>
         (r, view s') = spec_apply tx now cmd et f (view s)
         \<or> (store_fault r \<and> view s' \<in> {view s, snd (spec_apply tx now cmd et f (view s))})"
    and apply_inv:
      "inv s \<Longrightarrow> nul_free (cm_enterprise_id cmd) \<Longrightarrow> keeps_identity cmd et f \<Longrightarrow> inv (snd (store_apply S now cmd et f s))"
begin

lemma apply_ok:
  assumes "inv s" and "nul_free (cm_enterprise_id cmd)" and "keeps_identity cmd et f"
    and "store_apply S now cmd et f s = (Inr c, s')"
  shows "spec_apply tx now cmd et f (view s) = (Inr c, view s')"
  using apply_law [OF assms] by (auto simp: store_fault_def)

lemma apply_failed:
  assumes "inv s" and "nul_free (cm_enterprise_id cmd)" and "keeps_identity cmd et f"
    and "store_apply S now cmd et f s = (Inl e, s')"
  shows "view s' = view s
       \<or> store_fault (Inl e :: wc_error + work_case) \<and> (\<exists>c. spec_apply tx now cmd et f (view s) = (Inr c, view s'))"
  using apply_law [OF assms] by (auto simp: spec_apply_def split: option.splits sum.splits)

end

text \<open>A store without faults of its own answers exactly as the abstract one.\<close>

locale exact_case_store = case_store_contract S view inv tx
  for S :: "'s case_store"
    and view :: "'s \<Rightarrow> case_db"
    and inv :: "'s \<Rightarrow> bool"
    and tx :: "string \<Rightarrow> string" +
  assumes get_exact: "inv s \<Longrightarrow> store_get S ent org cid s = spec_get ent org cid (view s)"
    and apply_exact: "inv s \<Longrightarrow> nul_free (cm_enterprise_id cmd) \<Longrightarrow> keeps_identity cmd et f \<Longrightarrow>
       (fst (store_apply S now cmd et f s), view (snd (store_apply S now cmd et f s))) = spec_apply tx now cmd et f (view s)"

subsection \<open>Facts about the abstract store\<close>

lemma precheck_Inr:
  "precheck cmd et db = Inr c \<Longrightarrow>
     (if et = EventCaseCreated then c = zero_case \<and> db_cases db (cm_case_id cmd) = None \<and> cm_expected_revision cmd = 0
      else db_cases db (cm_case_id cmd) = Some c \<and> in_scope (cm_enterprise_id cmd) (cm_org_scope cmd) c
           \<and> wc_revision c = cm_expected_revision cmd)"
  by (auto simp: precheck_def visible_case_def split: option.splits if_splits)

text \<open>A successful command either replays the recorded result or appends exactly one event.\<close>

lemma spec_apply_Inr_cases:
  assumes "spec_apply tx now cmd et f db = (Inr c, db')"
  obtains (replay) "db_replay db (cm_enterprise_id cmd) (cm_idempotency_key cmd) = Some (cm_case_id cmd, c)"
      "wc_org_scope c = cm_org_scope cmd" "db' = db"
  | (fresh) cur where "db_replay db (cm_enterprise_id cmd) (cm_idempotency_key cmd) = None"
      "precheck cmd et db = Inr cur" "f cur = Inr c" "db' = record_event now cmd et (stored_case tx c) db"
proof (cases "db_replay db (cm_enterprise_id cmd) (cm_idempotency_key cmd)")
  case None
  with assms obtain cur where "precheck cmd et db = Inr cur" "f cur = Inr c" "db' = record_event now cmd et (stored_case tx c) db"
    by (auto simp: spec_apply_def split: sum.splits)
  with None show ?thesis by (rule fresh)
next
  case (Some rec)
  with assms have "rec = (cm_case_id cmd, c)" "wc_org_scope c = cm_org_scope cmd" "db' = db"
    by (cases rec; auto simp: spec_apply_def replay_result_def split: if_splits)+
  with Some show ?thesis using replay by simp
qed

lemma record_event_simps [simp]:
  "db_cases (record_event now cmd et n db) = (db_cases db)(cm_case_id cmd := Some n)"
  "db_events (record_event now cmd et n db) =
     (db_events db)(cm_case_id cmd := db_events db (cm_case_id cmd) @
       [\<lparr>se_seq = wc_revision n, se_type = et, se_payload = n, se_created_at = now\<rparr>])"
  "db_replay (record_event now cmd et n db) e k =
     (if e = cm_enterprise_id cmd \<and> k = cm_idempotency_key cmd then Some (cm_case_id cmd, n) else db_replay db e k)"
  by (simp_all add: record_event_def)

subsection \<open>The memory store implements the contract\<close>

definition mem_view :: "memory_store \<Rightarrow> case_db" where
  "mem_view s = \<lparr>db_cases = ms_cases s,
     db_replay = (\<lambda>e k. if nul_free e then ms_idempotency s (memKey e k) else None),
     db_events = ms_events s\<rparr>"

lemma mem_view_simps [simp]:
  "db_cases (mem_view s) = ms_cases s"
  "db_events (mem_view s) = ms_events s"
  "nul_free e \<Longrightarrow> db_replay (mem_view s) e k = ms_idempotency s (memKey e k)"
  by (simp_all add: mem_view_def)

lemma mem_get_spec: "mem_get ent org cid s = spec_get ent org cid (mem_view s)"
  by (simp add: mem_get_def spec_get_def split: option.splits)

lemma mem_view_record:
  assumes "nul_free (cm_enterprise_id cmd)"
  shows "mem_view (s\<lparr>ms_cases := (ms_cases s)(cm_case_id cmd := Some n),
            ms_idempotency := (ms_idempotency s)
              (memKey (cm_enterprise_id cmd) (cm_idempotency_key cmd) := Some (cm_case_id cmd, n)),
            ms_events := (ms_events s)(cm_case_id cmd := ms_events s (cm_case_id cmd) @
              [\<lparr>se_seq = wc_revision n, se_type = et, se_payload = n, se_created_at = now\<rparr>])\<rparr>)
         = record_event now cmd et n (mem_view s)"
  using assms by (auto simp: mem_view_def record_event_def memKey_def nul_key_inj fun_eq_iff)

lemma mem_apply_spec:
  assumes "nul_free (cm_enterprise_id cmd)"
  shows "(fst (mem_apply now cmd et f s), mem_view (snd (mem_apply now cmd et f s)))
           = spec_apply (\<lambda>s. s) now cmd et f (mem_view s)"
proof (cases "ms_idempotency s (memKey (cm_enterprise_id cmd) (cm_idempotency_key cmd))")
  case (Some rec)
  with assms show ?thesis
    by (cases rec) (simp add: mem_apply_def spec_apply_def replay_result_def Let_def)
next
  case None
  note defs = mem_apply_def spec_apply_def precheck_def visible_case_def Let_def mem_view_record [OF assms]
  show ?thesis
  proof (cases "ms_cases s (cm_case_id cmd)")
    case None
    with \<open>ms_idempotency s _ = None\<close> assms show ?thesis
      by (auto simp: defs zero_case_def split: sum.splits)
  next
    case (Some c)
    with \<open>ms_idempotency s _ = None\<close> assms show ?thesis
      by (cases "in_scope (cm_enterprise_id cmd) (cm_org_scope cmd) c") (auto simp: defs zero_case_def split: sum.splits)
  qed
qed

interpretation mem: exact_case_store memory_case_store mem_view "\<lambda>_. True" "\<lambda>s. s"
proof
  fix now cmd et f r and s s' :: memory_store
  assume "nul_free (cm_enterprise_id cmd)" and "store_apply memory_case_store now cmd et f s = (r, s')"
  then show "(r, mem_view s') = spec_apply (\<lambda>s. s) now cmd et f (mem_view s)
      \<or> store_fault r \<and> mem_view s' \<in> {mem_view s, snd (spec_apply (\<lambda>s. s) now cmd et f (mem_view s))}"
    using mem_apply_spec [of cmd now et f s] by (simp add: memory_case_store_def)
qed (simp_all add: memory_case_store_def mem_get_spec mem_apply_spec keeps_text_same db_stored_same)

end
