(* ===== verification/WcService.thy ===== *)
theory WcService
  imports WcStore GoCrypto
begin

text \<open>
  The WorkCase aggregate service, \<^verbatim>\<open>internal/workcase/service.go\<close>, over any \<open>Store\<close>: command
  validation, the mutation each command applies, and the entry points.  The entry points take the
  store dictionary, the case-id generator and the clock reading of the event, and return the
  result with the new store state.  The lemmas in \<open>context case_store_contract\<close> hold for every
  store that keeps the contract; the properties at the end are their instances on the in-memory
  store.
\<close>

subsection \<open>Validation and ids\<close>

definition minIdempotencyKeyLen :: nat where
  "minIdempotencyKeyLen = 16"

definition maxIdempotencyKeyLen :: nat where
  "maxIdempotencyKeyLen = 128"

definition deriveCaseID :: "string \<Rightarrow> string \<Rightarrow> wc_error + string" where
  "deriveCaseID enterpriseID idempotencyKey =
     Inr (''case_'' @ hex_encode (take 16 (sha256 (nul_key enterpriseID idempotencyKey))))"

definition validateCommand :: "wc_command \<Rightarrow> wc_error option" where
  "validateCommand cmd =
     (if cm_enterprise_id cmd = [] \<or> cm_org_scope cmd = [] \<or> cm_actor_ref cmd = [] then Some ErrInvalidCommand
      else if length (cm_idempotency_key cmd) < minIdempotencyKeyLen
              \<or> length (cm_idempotency_key cmd) > maxIdempotencyKeyLen then Some ErrInvalidCommand
      else None)"

subsection \<open>Mutations\<close>

definition create_mutate :: "wc_command \<Rightarrow> wc_mutate" where
  "create_mutate cmd current =
     Inr \<lparr>wc_id = cm_case_id cmd, wc_enterprise_id = cm_enterprise_id cmd, wc_org_scope = cm_org_scope cmd,
          wc_actor_ref = cm_actor_ref cmd, wc_status = StatusDraft, wc_revision = 1, wc_plans = []\<rparr>"

definition next_plan_revision :: "work_plan list \<Rightarrow> uint64" where
  "next_plan_revision plans = (if plans = [] then 1 else pl_revision (last plans) + 1)"

definition propose_plan_mutate :: "work_plan \<Rightarrow> wc_mutate" where
  "propose_plan_mutate plan current =
     (if wc_status current = StatusCompleted \<or> wc_status current = StatusTerminated then Inl ErrInvalidTransition
      else Inr (current\<lparr>wc_plans := wc_plans current @ [plan\<lparr>pl_revision := next_plan_revision (wc_plans current)\<rparr>],
                        wc_revision := wc_revision current + 1\<rparr>))"

definition start_review_mutate :: wc_mutate where
  "start_review_mutate current =
     (if wc_status current \<noteq> StatusDraft then Inl ErrInvalidTransition
      else if wc_plans current = [] then Inl ErrInvalidTransition
      else Inr (current\<lparr>wc_status := StatusReviewing, wc_revision := wc_revision current + 1\<rparr>))"

definition start_execution_mutate :: wc_mutate where
  "start_execution_mutate current =
     (if wc_status current \<noteq> StatusReviewing then Inl ErrInvalidTransition
      else Inr (current\<lparr>wc_status := StatusExecuting, wc_revision := wc_revision current + 1\<rparr>))"

fun legalStepTransitions :: "step_status \<Rightarrow> step_status \<Rightarrow> bool" where
  "legalStepTransitions StepPending StepRunning = True"
| "legalStepTransitions StepRunning StepCompleted = True"
| "legalStepTransitions StepRunning StepFailed = True"
| "legalStepTransitions _ _ = False"

definition from_status :: "step_status \<Rightarrow> step_status" where
  "from_status s = (if s = StepUnset then StepPending else s)"

definition step_mutate :: "string \<Rightarrow> step_status \<Rightarrow> wc_evidence_ref list \<Rightarrow> wc_mutate" where
  "step_mutate stepID status ev current =
     (if wc_status current \<noteq> StatusExecuting then Inl ErrInvalidTransition
      else if wc_plans current = [] then Inl ErrInvalidTransition
      else
        (let top = last (wc_plans current); steps = pl_steps top in
         case find_index (\<lambda>st. st_id st = stepID) steps of
           None \<Rightarrow> Inl ErrInvalidTransition
         | Some found \<Rightarrow>
             (if \<not> legalStepTransitions (from_status (st_status (steps ! found))) status then Inl ErrInvalidTransition
              else
                (let st = (steps ! found)\<lparr>st_status := status, st_evidence := st_evidence (steps ! found) @ ev\<rparr> in
                 Inr (current\<lparr>wc_plans := butlast (wc_plans current) @ [top\<lparr>pl_steps := steps[found := st]\<rparr>],
                              wc_revision := wc_revision current + 1\<rparr>)))))"

definition complete_mutate :: wc_mutate where
  "complete_mutate current =
     (if wc_status current \<noteq> StatusExecuting then Inl ErrInvalidTransition
      else Inr (current\<lparr>wc_status := StatusCompleted, wc_revision := wc_revision current + 1\<rparr>))"

definition terminate_mutate :: wc_mutate where
  "terminate_mutate current =
     (if wc_status current \<noteq> StatusExecuting then Inl ErrInvalidTransition
      else Inr (current\<lparr>wc_status := StatusTerminated, wc_revision := wc_revision current + 1\<rparr>))"

subsection \<open>Entry points\<close>

type_synonym 's wc_result = "(wc_error + work_case) \<times> 's"

definition Create :: "'s case_store \<Rightarrow> (string \<Rightarrow> string \<Rightarrow> wc_error + string) \<Rightarrow> go_time \<Rightarrow> wc_command \<Rightarrow> 's \<Rightarrow> 's wc_result" where
  "Create S nextID now cmd s =
     (case validateCommand cmd of Some e \<Rightarrow> (Inl e, s)
      | None \<Rightarrow>
          (if cm_expected_revision cmd \<noteq> 0 then (Inl ErrInvalidCommand, s)
           else case (if cm_case_id cmd = [] then nextID (cm_enterprise_id cmd) (cm_idempotency_key cmd)
                      else Inr (cm_case_id cmd)) of
                  Inl e \<Rightarrow> (Inl e, s)
                | Inr caseID \<Rightarrow>
                    (let cmd' = cmd\<lparr>cm_case_id := caseID\<rparr>
                     in store_apply S now cmd' EventCaseCreated (create_mutate cmd') s)))"

definition ProposePlan :: "'s case_store \<Rightarrow> go_time \<Rightarrow> wc_command \<Rightarrow> work_plan \<Rightarrow> 's \<Rightarrow> 's wc_result" where
  "ProposePlan S now cmd plan s =
     (case validateCommand cmd of Some e \<Rightarrow> (Inl e, s)
      | None \<Rightarrow>
          (if cm_case_id cmd = [] then (Inl ErrInvalidCommand, s)
           else if ValidatePlan plan \<noteq> None then (Inl ErrInvalidCommand, s)
           else store_apply S now cmd EventPlanProposed (propose_plan_mutate plan) s))"

definition StartReview :: "'s case_store \<Rightarrow> go_time \<Rightarrow> wc_command \<Rightarrow> 's \<Rightarrow> 's wc_result" where
  "StartReview S now cmd s =
     (case validateCommand cmd of Some e \<Rightarrow> (Inl e, s)
      | None \<Rightarrow>
          (if cm_case_id cmd = [] then (Inl ErrInvalidCommand, s)
           else store_apply S now cmd EventReviewStarted start_review_mutate s))"

definition StartExecution :: "'s case_store \<Rightarrow> go_time \<Rightarrow> wc_command \<Rightarrow> 's \<Rightarrow> 's wc_result" where
  "StartExecution S now cmd s =
     (case validateCommand cmd of Some e \<Rightarrow> (Inl e, s)
      | None \<Rightarrow>
          (if cm_case_id cmd = [] then (Inl ErrInvalidCommand, s)
           else store_apply S now cmd EventExecutionStarted start_execution_mutate s))"

definition target_step_status :: "step_status \<Rightarrow> bool" where
  "target_step_status status \<longleftrightarrow> status = StepRunning \<or> status = StepCompleted \<or> status = StepFailed"

definition stepTransition ::
    "'s case_store \<Rightarrow> go_time \<Rightarrow> wc_command \<Rightarrow> string \<Rightarrow> step_status \<Rightarrow> wc_evidence_ref list \<Rightarrow> 's \<Rightarrow> 's wc_result" where
  "stepTransition S now cmd stepID status evidence s =
     (case validateCommand cmd of Some e \<Rightarrow> (Inl e, s)
      | None \<Rightarrow>
          (if cm_case_id cmd = [] \<or> stepID = [] then (Inl ErrInvalidCommand, s)
           else if \<not> target_step_status status then (Inl ErrInvalidCommand, s)
           else store_apply S now cmd EventStepTransitioned (step_mutate stepID status evidence) s))"

definition TransitionStep ::
    "'s case_store \<Rightarrow> go_time \<Rightarrow> wc_command \<Rightarrow> string \<Rightarrow> step_status \<Rightarrow> wc_evidence_ref list \<Rightarrow> 's \<Rightarrow> 's wc_result" where
  "TransitionStep S now cmd stepID status evidence s = stepTransition S now cmd stepID status evidence s"

definition AdvanceStep ::
    "'s case_store \<Rightarrow> go_time \<Rightarrow> wc_command \<Rightarrow> string \<Rightarrow> step_status \<Rightarrow> wc_evidence_ref list \<Rightarrow> 's \<Rightarrow> 's wc_result" where
  "AdvanceStep S now cmd stepID status evidence s = stepTransition S now cmd stepID status evidence s"

definition CompleteCase :: "'s case_store \<Rightarrow> go_time \<Rightarrow> wc_command \<Rightarrow> string \<Rightarrow> 's \<Rightarrow> 's wc_result" where
  "CompleteCase S now cmd outcomeRef s =
     (case validateCommand cmd of Some e \<Rightarrow> (Inl e, s)
      | None \<Rightarrow>
          (if cm_case_id cmd = [] then (Inl ErrInvalidCommand, s)
           else if outcomeRef = [] then (Inl ErrInvalidCommand, s)
           else store_apply S now cmd EventStepTransitioned complete_mutate s))"

definition TerminateCase :: "'s case_store \<Rightarrow> go_time \<Rightarrow> wc_command \<Rightarrow> string \<Rightarrow> 's \<Rightarrow> 's wc_result" where
  "TerminateCase S now cmd reason s =
     (case validateCommand cmd of Some e \<Rightarrow> (Inl e, s)
      | None \<Rightarrow>
          (if cm_case_id cmd = [] then (Inl ErrInvalidCommand, s)
           else if reason = [] then (Inl ErrInvalidCommand, s)
           else store_apply S now cmd EventStepTransitioned terminate_mutate s))"

definition GetCase :: "'s case_store \<Rightarrow> string \<Rightarrow> string \<Rightarrow> string \<Rightarrow> 's \<Rightarrow> wc_error + work_case" where
  "GetCase S ent org cid s = store_get S ent org cid s"

subsection \<open>One request type for every command\<close>

datatype svc_req =
    ReqCreate wc_command
  | ReqProposePlan wc_command work_plan
  | ReqStartReview wc_command
  | ReqStartExecution wc_command
  | ReqTransitionStep wc_command string step_status "wc_evidence_ref list"
  | ReqAdvanceStep wc_command string step_status "wc_evidence_ref list"
  | ReqCompleteCase wc_command string
  | ReqTerminateCase wc_command string

fun svc_exec :: "'s case_store \<Rightarrow> (string \<Rightarrow> string \<Rightarrow> wc_error + string) \<Rightarrow> go_time \<Rightarrow> svc_req \<Rightarrow> 's \<Rightarrow> 's wc_result" where
  "svc_exec S nextID now (ReqCreate c) s = Create S nextID now c s"
| "svc_exec S nextID now (ReqProposePlan c p) s = ProposePlan S now c p s"
| "svc_exec S nextID now (ReqStartReview c) s = StartReview S now c s"
| "svc_exec S nextID now (ReqStartExecution c) s = StartExecution S now c s"
| "svc_exec S nextID now (ReqTransitionStep c i st ev) s = TransitionStep S now c i st ev s"
| "svc_exec S nextID now (ReqAdvanceStep c i st ev) s = AdvanceStep S now c i st ev s"
| "svc_exec S nextID now (ReqCompleteCase c r) s = CompleteCase S now c r s"
| "svc_exec S nextID now (ReqTerminateCase c r) s = TerminateCase S now c r s"

fun req_command :: "svc_req \<Rightarrow> wc_command" where
  "req_command (ReqCreate c) = c"
| "req_command (ReqProposePlan c p) = c"
| "req_command (ReqStartReview c) = c"
| "req_command (ReqStartExecution c) = c"
| "req_command (ReqTransitionStep c i st ev) = c"
| "req_command (ReqAdvanceStep c i st ev) = c"
| "req_command (ReqCompleteCase c r) = c"
| "req_command (ReqTerminateCase c r) = c"

text \<open>
  A request either fails its validation, touching nothing, or is one \<open>Apply\<close> of the store: this is
  the apply it makes.
\<close>

fun req_plan :: "(string \<Rightarrow> string \<Rightarrow> wc_error + string) \<Rightarrow> svc_req \<Rightarrow> wc_error + (wc_command \<times> event_type \<times> wc_mutate)" where
  "req_plan nextID (ReqCreate c) =
     guard_err (validateCommand c)
       (if cm_expected_revision c \<noteq> 0 then Inl ErrInvalidCommand
        else rbind (if cm_case_id c = [] then nextID (cm_enterprise_id c) (cm_idempotency_key c) else Inr (cm_case_id c))
          (\<lambda>cid. let c' = c\<lparr>cm_case_id := cid\<rparr> in Inr (c', EventCaseCreated, create_mutate c')))"
| "req_plan nextID (ReqProposePlan c p) =
     guard_err (validateCommand c)
       (if cm_case_id c = [] \<or> ValidatePlan p \<noteq> None then Inl ErrInvalidCommand
        else Inr (c, EventPlanProposed, propose_plan_mutate p))"
| "req_plan nextID (ReqStartReview c) =
     guard_err (validateCommand c)
       (if cm_case_id c = [] then Inl ErrInvalidCommand else Inr (c, EventReviewStarted, start_review_mutate))"
| "req_plan nextID (ReqStartExecution c) =
     guard_err (validateCommand c)
       (if cm_case_id c = [] then Inl ErrInvalidCommand else Inr (c, EventExecutionStarted, start_execution_mutate))"
| "req_plan nextID (ReqTransitionStep c i st ev) =
     guard_err (validateCommand c)
       (if cm_case_id c = [] \<or> i = [] \<or> \<not> target_step_status st then Inl ErrInvalidCommand
        else Inr (c, EventStepTransitioned, step_mutate i st ev))"
| "req_plan nextID (ReqAdvanceStep c i st ev) =
     guard_err (validateCommand c)
       (if cm_case_id c = [] \<or> i = [] \<or> \<not> target_step_status st then Inl ErrInvalidCommand
        else Inr (c, EventStepTransitioned, step_mutate i st ev))"
| "req_plan nextID (ReqCompleteCase c r) =
     guard_err (validateCommand c)
       (if cm_case_id c = [] \<or> r = [] then Inl ErrInvalidCommand else Inr (c, EventStepTransitioned, complete_mutate))"
| "req_plan nextID (ReqTerminateCase c r) =
     guard_err (validateCommand c)
       (if cm_case_id c = [] \<or> r = [] then Inl ErrInvalidCommand else Inr (c, EventStepTransitioned, terminate_mutate))"

lemmas svc_entry_defs = Create_def ProposePlan_def StartReview_def StartExecution_def TransitionStep_def
  AdvanceStep_def stepTransition_def CompleteCase_def TerminateCase_def

lemma svc_exec_plan:
  "svc_exec S nextID now req s =
     (case req_plan nextID req of
        Inl e \<Rightarrow> (Inl e, s)
      | Inr (cmd, et, f) \<Rightarrow> store_apply S now cmd et f s)"
  by (cases req) (auto simp: svc_entry_defs guard_err_def Let_def split: option.splits sum.splits)

end
