(* ===== verification/WcPostgres.thy ===== *)
theory WcPostgres
  imports WcStore
begin

text \<open>
  The PostgreSQL store of \<^verbatim>\<open>internal/workcase/postgres.go\<close> over the tables of
  \<^verbatim>\<open>db/migrations/000014_workcases.sql\<close>.

  \<^item> a table is its rows; the constraints the migration declares are checked by the statements that
    write (\<open>insert_case\<close>, \<open>update_case\<close>, \<open>insert_event\<close>), in PostgreSQL's order: first the values
    must fit their columns, then CHECK, then UNIQUE.
  \<^item> a \<open>text\<close> value is valid UTF-8 without NUL bytes (\<open>text_ok\<close>); a statement given anything else
    fails.  A \<open>jsonb\<close> column holds what \<open>json.Marshal\<close> made of the Go value: each invalid byte has
    become U+FFFD (\<open>stored_case clean\<close> for the plans, \<open>json_case\<close> for the event payload), and a NUL
    byte, written \<^verbatim>\<open>\u0000\<close>, is refused (\<open>jsonb_ok\<close>).  So the case a fresh command answers
    and the case it stores can differ.
  \<^item> \<open>Apply\<close> is split where other transactions can commit: \<open>pg_read\<close> runs the replay SELECT on the
    tables \<open>dbr\<close> and the case SELECT on \<open>dbs\<close>, \<open>pg_write\<close> the INSERT/UPDATE statements and the commit on
    \<open>dbw\<close>.  The rows and keys a write statement touches stay locked to the end of the transaction,
    so the write statements can be taken together, at the moment of the last.  Nothing is assumed of
    the row lock of \<^verbatim>\<open>FOR UPDATE\<close>: between the SELECT and the write every other commit is allowed.
  \<^item> every statement, \<open>json.Marshal\<close> and the commit can fail for a reason outside the code (connection,
    timeout, a year past 9999 in an expiry): the argument \<open>fail\<close> says which do.  A commit can also take
    effect and lose its acknowledgment (\<open>AtAck\<close>).  Such an error passes through \<open>mapPgError\<close> unchanged
    and is \<open>ErrStoreFailure\<close> here.
  \<^item> the \<open>created_at\<close> columns hold the clock reading as it was given; no code reads them back.
\<close>

subsection \<open>Tables and statements\<close>

record pg_event =
  ev_case_id :: string
  ev_seq :: uint64
  ev_enterprise_id :: string
  ev_type :: event_type
  ev_payload :: work_case
  ev_idempotency_key :: string
  ev_created_at :: go_time

record outbox_row =
  ox_tenant :: string
  ox_sequence :: nat
  ox_case :: work_case
  ox_recorded_at :: go_time

record pg_tables =
  pg_enterprises :: "string \<Rightarrow> bool"
  pg_workcases :: "string \<Rightarrow> work_case option"
  pg_events :: "pg_event list"
  pg_outbox :: "outbox_row list"

datatype pg_error = NoRows | UniqueViolation string | OtherPgError

definition constraintWorkcasesPK :: string where
  "constraintWorkcasesPK = ''workcases_pkey''"

definition constraintEventsPK :: string where
  "constraintEventsPK = ''workcase_events_pkey''"

definition constraintEventsIdempotency :: string where
  "constraintEventsIdempotency = ''workcase_events_idempotency_uniq''"

fun mapPgError :: "pg_error \<Rightarrow> wc_error" where
  "mapPgError (UniqueViolation c) =
     (if c = constraintWorkcasesPK then ErrStaleRevision
      else if c = constraintEventsIdempotency then ErrIdempotencyKeyReused
      else if c = constraintEventsPK then ErrEventLogConflict
      else ErrStoreFailure)"
| "mapPgError _ = ErrStoreFailure"

definition status_column_ok :: "wc_status \<Rightarrow> bool" where
  "status_column_ok st \<longleftrightarrow>
     st \<in> {StatusDraft, StatusReviewing, StatusExecuting, StatusCompleted, StatusTerminated}"

text \<open>A \<open>bigint\<close> column holding a revision: a larger \<open>uint64\<close> has no encoding.\<close>

definition bigint_param :: "uint64 \<Rightarrow> bool" where
  "bigint_param r \<longleftrightarrow> unat r < 2 ^ 63"

definition bigint_ok :: "uint64 \<Rightarrow> bool" where
  "bigint_ok r \<longleftrightarrow> 1 \<le> unat r \<and> bigint_param r"

definition text_ok :: "string \<Rightarrow> bool" where
  "text_ok s \<longleftrightarrow> clean s = s \<and> nul_free s"

text \<open>The texts \<open>json.Marshal\<close> writes for a case.\<close>

fun status_texts :: "wc_status \<Rightarrow> string list" where
  "status_texts (StatusOther s) = [s]"
| "status_texts _ = []"

definition action_texts :: "action_spec \<Rightarrow> string list" where
  "action_texts a =
     [as_kind a, as_business_capability a, as_parameters_hash a, as_risk a, as_idempotency_key a]
     @ concat (map (\<lambda>p. [wp_kind p, wp_value_hash p]) (as_preconditions a))
     @ [as_expected_receipt_schema a] @ (case as_compensation_action_id a of None \<Rightarrow> [] | Some i \<Rightarrow> [i])
     @ [as_failure_policy a]"

definition step_texts :: "wc_step \<Rightarrow> string list" where
  "step_texts s =
     [st_id s, step_status_text (st_status s)]
     @ concat (map (\<lambda>e. [we_handle e, we_content_hash e, we_authority e]) (st_evidence s))
     @ (case st_action s of None \<Rightarrow> [] | Some a \<Rightarrow> action_texts a)"

definition plans_texts :: "work_plan list \<Rightarrow> string list" where
  "plans_texts ps = concat (map (\<lambda>p. concat (map step_texts (pl_steps p))) ps)"

definition case_texts :: "work_case \<Rightarrow> string list" where
  "case_texts c =
     [wc_id c, wc_enterprise_id c, wc_org_scope c, wc_actor_ref c] @ status_texts (wc_status c) @ plans_texts (wc_plans c)"

definition jsonb_ok :: "string list \<Rightarrow> bool" where
  "jsonb_ok ts \<longleftrightarrow> list_all nul_free ts"

text \<open>A case written by \<open>json.Marshal\<close> and read back by \<open>json.Unmarshal\<close>.\<close>

fun json_status :: "wc_status \<Rightarrow> wc_status" where
  "json_status (StatusOther s) = StatusOther (clean s)"
| "json_status st = st"

definition json_case :: "work_case \<Rightarrow> work_case" where
  "json_case c =
     \<lparr>wc_id = clean (wc_id c), wc_enterprise_id = clean (wc_enterprise_id c), wc_org_scope = clean (wc_org_scope c),
      wc_actor_ref = clean (wc_actor_ref c), wc_status = json_status (wc_status c), wc_revision = wc_revision c,
      wc_plans = map (stored_plan clean) (wc_plans c)\<rparr>"

definition select_event :: "string \<Rightarrow> string \<Rightarrow> pg_tables \<Rightarrow> pg_event option" where
  "select_event ent key db = find (\<lambda>r. ev_enterprise_id r = ent \<and> ev_idempotency_key r = key) (pg_events db)"

definition select_replay :: "string \<Rightarrow> string \<Rightarrow> pg_tables \<Rightarrow> pg_error + pg_event" where
  "select_replay ent key db =
     (if \<not> text_ok ent \<or> \<not> text_ok key then Inl OtherPgError
      else case select_event ent key db of Some r \<Rightarrow> Inr r | None \<Rightarrow> Inl NoRows)"

definition select_case :: "string \<Rightarrow> string \<Rightarrow> string \<Rightarrow> pg_tables \<Rightarrow> pg_error + work_case" where
  "select_case ent org cid db =
     (if \<not> text_ok cid \<or> \<not> text_ok ent \<or> \<not> text_ok org then Inl OtherPgError
      else case pg_workcases db cid of
        Some c \<Rightarrow> if in_scope ent org c then Inr c else Inl NoRows
      | None \<Rightarrow> Inl NoRows)"

definition insert_case :: "work_case \<Rightarrow> pg_tables \<Rightarrow> pg_error + pg_tables" where
  "insert_case c db =
     (if \<not> text_ok (wc_id c) \<or> \<not> text_ok (wc_enterprise_id c) \<or> \<not> text_ok (wc_org_scope c) \<or> \<not> text_ok (wc_actor_ref c)
         \<or> \<not> jsonb_ok (plans_texts (wc_plans c)) then Inl OtherPgError
      else if wc_org_scope c = [] \<or> wc_actor_ref c = [] \<or> \<not> status_column_ok (wc_status c)
         \<or> \<not> bigint_ok (wc_revision c) then Inl OtherPgError
      else if pg_workcases db (wc_id c) \<noteq> None then Inl (UniqueViolation constraintWorkcasesPK)
      else if \<not> pg_enterprises db (wc_enterprise_id c) then Inl OtherPgError
      else Inr (db\<lparr>pg_workcases := (pg_workcases db)(wc_id c := Some (stored_case clean c))\<rparr>))"

definition update_case ::
    "work_case \<Rightarrow> string \<Rightarrow> string \<Rightarrow> string \<Rightarrow> uint64 \<Rightarrow> pg_tables \<Rightarrow> pg_error + (nat \<times> pg_tables)" where
  "update_case nxt cid ent org expected db =
     (if \<not> text_ok cid \<or> \<not> text_ok ent \<or> \<not> text_ok org \<or> \<not> bigint_param (wc_revision nxt) \<or> \<not> bigint_param expected
         \<or> \<not> jsonb_ok (plans_texts (wc_plans nxt)) then Inl OtherPgError
      else case pg_workcases db cid of
        None \<Rightarrow> Inr (0, db)
      | Some c \<Rightarrow>
          (if \<not> in_scope ent org c \<or> wc_revision c \<noteq> expected then Inr (0, db)
           else if \<not> status_column_ok (wc_status nxt) \<or> \<not> bigint_ok (wc_revision nxt) then Inl OtherPgError
           else Inr (1, db\<lparr>pg_workcases := (pg_workcases db)(cid :=
                  Some (c\<lparr>wc_status := wc_status nxt, wc_revision := wc_revision nxt,
                          wc_plans := wc_plans (stored_case clean nxt)\<rparr>))\<rparr>)))"

text \<open>The row an event becomes: its payload goes through JSON.\<close>

definition insert_event :: "pg_event \<Rightarrow> pg_tables \<Rightarrow> pg_error + pg_tables" where
  "insert_event r db =
     (if \<not> text_ok (ev_case_id r) \<or> \<not> text_ok (ev_enterprise_id r) \<or> \<not> text_ok (ev_idempotency_key r)
         \<or> \<not> jsonb_ok (case_texts (ev_payload r)) then Inl OtherPgError
      else if \<not> bigint_ok (ev_seq r) \<or> rune_count (ev_idempotency_key r) < 16 \<or> rune_count (ev_idempotency_key r) > 128
      then Inl OtherPgError
      else if (ev_case_id r, ev_seq r) \<in> set (map (\<lambda>q. (ev_case_id q, ev_seq q)) (pg_events db))
      then Inl (UniqueViolation constraintEventsPK)
      else if (ev_enterprise_id r, ev_idempotency_key r)
              \<in> set (map (\<lambda>q. (ev_enterprise_id q, ev_idempotency_key q)) (pg_events db))
      then Inl (UniqueViolation constraintEventsIdempotency)
      else Inr (db\<lparr>pg_events := pg_events db @ [r\<lparr>ev_payload := json_case (ev_payload r)\<rparr>]\<rparr>))"

definition append_outbox :: "work_case \<Rightarrow> go_time \<Rightarrow> pg_tables \<Rightarrow> pg_tables" where
  "append_outbox c now db =
     db\<lparr>pg_outbox := pg_outbox db @
       [\<lparr>ox_tenant = wc_enterprise_id c,
         ox_sequence = fold max (map ox_sequence (filter (\<lambda>r. ox_tenant r = wc_enterprise_id c) (pg_outbox db))) 0 + 1,
         ox_case = c, ox_recorded_at = now\<rparr>]\<rparr>"

subsection \<open>Get and Apply\<close>

datatype pg_stage = AtBegin | AtReplay | AtSelect | AtEncode | AtSnapshot | AtEvent | AtOutbox | AtCommit | AtAck

definition pg_get :: "(pg_stage \<Rightarrow> bool) \<Rightarrow> string \<Rightarrow> string \<Rightarrow> string \<Rightarrow> pg_tables \<Rightarrow> wc_error + work_case" where
  "pg_get fail ent org cid db =
     (if fail AtSelect then Inl ErrStoreFailure
      else case select_case ent org cid db of
             Inr c \<Rightarrow> Inr c
           | Inl NoRows \<Rightarrow> Inl ErrNotFound
           | Inl _ \<Rightarrow> Inl ErrStoreFailure)"

text \<open>The checks on the case the second SELECT found (or not), and the mutation.\<close>

definition pg_decide ::
    "wc_command \<Rightarrow> event_type \<Rightarrow> wc_mutate \<Rightarrow> bool \<Rightarrow> work_case \<Rightarrow> (wc_error + work_case) + work_case" where
  "pg_decide cmd et mutate exists current =
     (if et = EventCaseCreated \<and> exists then Inl (Inl ErrStaleRevision)
      else if et \<noteq> EventCaseCreated \<and> \<not> exists then Inl (Inl ErrNotFound)
      else if wc_revision current \<noteq> cm_expected_revision cmd then Inl (Inl ErrStaleRevision)
      else case mutate current of Inl e \<Rightarrow> Inl (Inl e) | Inr nxt \<Rightarrow> Inr nxt)"

text \<open>
  The reads of \<open>Apply\<close>, the replay SELECT on \<open>dbr\<close> and the case SELECT on \<open>dbs\<close>: \<open>Inl\<close> is an answer
  without a write, \<open>Inr\<close> the next aggregate state.
\<close>

definition pg_read ::
    "(pg_stage \<Rightarrow> bool) \<Rightarrow> wc_command \<Rightarrow> event_type \<Rightarrow> wc_mutate \<Rightarrow> pg_tables \<Rightarrow> pg_tables \<Rightarrow> (wc_error + work_case) + work_case" where
  "pg_read fail cmd et mutate dbr dbs =
     (if fail AtBegin \<or> fail AtReplay then Inl (Inl ErrStoreFailure)
      else case select_replay (cm_enterprise_id cmd) (cm_idempotency_key cmd) dbr of
        Inr row \<Rightarrow>
          (if wc_org_scope (ev_payload row) \<noteq> cm_org_scope cmd then Inl (Inl ErrNotFound)
           else if ev_case_id row \<noteq> cm_case_id cmd then Inl (Inl ErrIdempotencyKeyReused)
           else Inl (Inr (ev_payload row)))
      | Inl NoRows \<Rightarrow>
          (if fail AtSelect then Inl (Inl ErrStoreFailure)
           else case select_case (cm_enterprise_id cmd) (cm_org_scope cmd) (cm_case_id cmd) dbs of
             Inr current \<Rightarrow> pg_decide cmd et mutate True current
           | Inl NoRows \<Rightarrow> pg_decide cmd et mutate False zero_case
           | Inl _ \<Rightarrow> Inl (Inl ErrStoreFailure))
      | Inl _ \<Rightarrow> Inl (Inl ErrStoreFailure))"

definition write_snapshot :: "(pg_stage \<Rightarrow> bool) \<Rightarrow> wc_command \<Rightarrow> event_type \<Rightarrow> work_case \<Rightarrow> pg_tables \<Rightarrow> wc_error + pg_tables" where
  "write_snapshot fail cmd et nxt db =
     (if fail AtSnapshot then Inl ErrStoreFailure
      else if et = EventCaseCreated then
        (case insert_case nxt db of Inl e \<Rightarrow> Inl (mapPgError e) | Inr db1 \<Rightarrow> Inr db1)
      else
        (case update_case nxt (cm_case_id cmd) (cm_enterprise_id cmd) (cm_org_scope cmd) (cm_expected_revision cmd) db of
           Inl e \<Rightarrow> Inl (mapPgError e)
         | Inr (affected, db1) \<Rightarrow> if affected = 0 then Inl ErrStaleRevision else Inr db1))"

definition event_row :: "go_time \<Rightarrow> wc_command \<Rightarrow> event_type \<Rightarrow> work_case \<Rightarrow> pg_event" where
  "event_row now cmd et nxt =
     \<lparr>ev_case_id = cm_case_id cmd, ev_seq = wc_revision nxt, ev_enterprise_id = cm_enterprise_id cmd,
      ev_type = et, ev_payload = nxt, ev_idempotency_key = cm_idempotency_key cmd, ev_created_at = now\<rparr>"

definition write_event :: "(pg_stage \<Rightarrow> bool) \<Rightarrow> pg_event \<Rightarrow> pg_tables \<Rightarrow> wc_error + pg_tables" where
  "write_event fail r db =
     (if fail AtEvent then Inl ErrStoreFailure
      else case insert_event r db of Inl e \<Rightarrow> Inl (mapPgError e) | Inr db1 \<Rightarrow> Inr db1)"

definition pg_write ::
    "(pg_stage \<Rightarrow> bool) \<Rightarrow> go_time \<Rightarrow> wc_command \<Rightarrow> event_type \<Rightarrow> work_case \<Rightarrow> pg_tables \<Rightarrow> (wc_error + work_case) \<times> pg_tables" where
  "pg_write fail now cmd et nxt db =
     (case (if fail AtEncode then Inl ErrStoreFailure else
            rbind (write_snapshot fail cmd et nxt db) (\<lambda>db1.
            rbind (write_event fail (event_row now cmd et nxt) db1) (\<lambda>db2.
              if fail AtOutbox then Inl ErrStoreFailure else
              let db3 = append_outbox nxt now db2 in
              if fail AtCommit then Inl ErrStoreFailure else Inr db3))) of
        Inl e \<Rightarrow> (Inl e, db)
      | Inr db' \<Rightarrow> (Inr nxt, db'))"

text \<open>
  \<open>Apply\<close> with its replay SELECT on \<open>dbr\<close>, its case SELECT on \<open>dbs\<close> and its writes on \<open>dbw\<close>.  A write
  whose commit took effect answers a failure where the acknowledgment is lost.
\<close>

definition pg_apply_between ::
    "(pg_stage \<Rightarrow> bool) \<Rightarrow> go_time \<Rightarrow> wc_command \<Rightarrow> event_type \<Rightarrow> wc_mutate \<Rightarrow> pg_tables \<Rightarrow> pg_tables \<Rightarrow> pg_tables
      \<Rightarrow> (wc_error + work_case) \<times> pg_tables" where
  "pg_apply_between fail now cmd et mutate dbr dbs dbw =
     (case pg_read fail cmd et mutate dbr dbs of
        Inl answer \<Rightarrow> (answer, dbw)
      | Inr nxt \<Rightarrow>
          (case pg_write fail now cmd et nxt dbw of
             (Inl e, db') \<Rightarrow> (Inl e, db')
           | (Inr c, db') \<Rightarrow> (if fail AtAck then Inl ErrStoreFailure else Inr c, db')))"

text \<open>One call on its own.\<close>

definition pg_apply ::
    "(pg_stage \<Rightarrow> bool) \<Rightarrow> go_time \<Rightarrow> wc_command \<Rightarrow> event_type \<Rightarrow> wc_mutate \<Rightarrow> pg_tables
      \<Rightarrow> (wc_error + work_case) \<times> pg_tables" where
  "pg_apply fail now cmd et mutate db = pg_apply_between fail now cmd et mutate db db db"

text \<open>The store of one client: its tables and the fault schedule of its calls.\<close>

record pg_state =
  ps_tables :: pg_tables
  ps_faults :: "nat \<Rightarrow> pg_stage \<Rightarrow> bool"
  ps_calls :: nat

definition pg_case_store :: "pg_state case_store" where
  "pg_case_store =
     \<lparr>store_get = (\<lambda>ent org cid s. pg_get (ps_faults s (ps_calls s)) ent org cid (ps_tables s)),
      store_apply = (\<lambda>now cmd et f s.
        let (r, db) = pg_apply (ps_faults s (ps_calls s)) now cmd et f (ps_tables s)
        in (r, s\<lparr>ps_tables := db, ps_calls := ps_calls s + 1\<rparr>))\<rparr>"

subsection \<open>The tables as abstract data\<close>

definition pg_view :: "pg_tables \<Rightarrow> case_db" where
  "pg_view db =
     \<lparr>db_cases = pg_workcases db,
      db_replay = (\<lambda>e k. map_option (\<lambda>r. (ev_case_id r, ev_payload r)) (select_event e k db)),
      db_events = (\<lambda>cid. map (\<lambda>r. \<lparr>se_seq = ev_seq r, se_type = ev_type r, se_payload = ev_payload r, se_created_at = ev_created_at r\<rparr>)
                    (filter (\<lambda>r. ev_case_id r = cid) (pg_events db)))\<rparr>"

lemma find_snoc: "find p (xs @ [x]) = (case find p xs of Some y \<Rightarrow> Some y | None \<Rightarrow> if p x then Some x else None)"
  by (induction xs) auto

lemma find_append_Some: "find p xs = Some x \<Longrightarrow> find p (xs @ ys) = Some x"
  by (induction xs) auto

lemma select_event_None:
  "select_event e k db = None \<longleftrightarrow> (e, k) \<notin> set (map (\<lambda>q. (ev_enterprise_id q, ev_idempotency_key q)) (pg_events db))"
  by (auto simp: select_event_def find_None_iff image_iff)

lemma select_event_in: "select_event e k db = Some r \<Longrightarrow> r \<in> set (pg_events db)"
  using find_Some_set by (fastforce simp: select_event_def)

text \<open>A case whose identity columns are valid texts loses nothing in JSON that it does not lose in its row.\<close>

lemma json_case_stored:
  assumes "text_ok (wc_id c)" and "text_ok (wc_enterprise_id c)" and "text_ok (wc_org_scope c)" and "text_ok (wc_actor_ref c)"
    and "status_column_ok (wc_status c)"
  shows "json_case c = stored_case clean c"
proof -
  have "json_status (wc_status c) = wc_status c"
    using assms(5) by (auto simp: status_column_ok_def)
  with assms(1-4) show ?thesis by (simp add: json_case_def stored_case_def text_ok_def)
qed

lemma json_case_twice [simp]: "json_case (json_case c) = json_case c"
proof -
  have "json_status (json_status st) = json_status st" for st by (cases st) simp_all
  then show ?thesis by (simp add: json_case_def keeps_text_clean)
qed

lemma json_case_fixed:
  assumes "json_case c = c"
  shows "stored_case clean c = c \<and> clean (wc_id c) = wc_id c \<and> clean (wc_enterprise_id c) = wc_enterprise_id c
       \<and> clean (wc_org_scope c) = wc_org_scope c \<and> clean (wc_actor_ref c) = wc_actor_ref c"
  using assms by (cases c) (simp add: json_case_def stored_case_def)

text \<open>What a successful write leaves.\<close>

definition committed :: "go_time \<Rightarrow> wc_command \<Rightarrow> event_type \<Rightarrow> work_case \<Rightarrow> pg_tables \<Rightarrow> pg_tables \<Rightarrow> bool" where
  "committed now cmd et nxt db db' \<longleftrightarrow>
     pg_workcases db' = (pg_workcases db)(cm_case_id cmd := Some (stored_case clean nxt))
   \<and> pg_events db' = pg_events db @ [event_row now cmd et (stored_case clean nxt)]
   \<and> select_event (cm_enterprise_id cmd) (cm_idempotency_key cmd) db = None
   \<and> (cm_case_id cmd, wc_revision nxt) \<notin> set (map (\<lambda>q. (ev_case_id q, ev_seq q)) (pg_events db))
   \<and> json_case (stored_case clean nxt) = stored_case clean nxt \<and> 16 \<le> rune_count (cm_idempotency_key cmd)"

lemma event_row_simps [simp]:
  "ev_case_id (event_row now cmd et c) = cm_case_id cmd" "ev_seq (event_row now cmd et c) = wc_revision c"
  "ev_enterprise_id (event_row now cmd et c) = cm_enterprise_id cmd" "ev_type (event_row now cmd et c) = et"
  "ev_payload (event_row now cmd et c) = c" "ev_idempotency_key (event_row now cmd et c) = cm_idempotency_key cmd"
  "ev_created_at (event_row now cmd et c) = now"
  by (simp_all add: event_row_def)

lemma event_row_json: "(event_row now cmd et c)\<lparr>ev_payload := json_case c\<rparr> = event_row now cmd et (json_case c)"
  by (simp add: event_row_def json_case_def)

lemma insert_event_Inr:
  "insert_event r db = Inr db' \<longleftrightarrow>
     text_ok (ev_case_id r) \<and> text_ok (ev_enterprise_id r) \<and> text_ok (ev_idempotency_key r)
     \<and> jsonb_ok (case_texts (ev_payload r))
     \<and> bigint_ok (ev_seq r) \<and> 16 \<le> rune_count (ev_idempotency_key r) \<and> rune_count (ev_idempotency_key r) \<le> 128
     \<and> (ev_case_id r, ev_seq r) \<notin> set (map (\<lambda>q. (ev_case_id q, ev_seq q)) (pg_events db))
     \<and> select_event (ev_enterprise_id r) (ev_idempotency_key r) db = None
     \<and> db' = db\<lparr>pg_events := pg_events db @ [r\<lparr>ev_payload := json_case (ev_payload r)\<rparr>]\<rparr>"
  by (auto simp: insert_event_def select_event_None)

lemma append_outbox_simps [simp]:
  "pg_workcases (append_outbox c now db) = pg_workcases db"
  "pg_events (append_outbox c now db) = pg_events db"
  "pg_enterprises (append_outbox c now db) = pg_enterprises db"
  by (simp_all add: append_outbox_def)

lemma write_event_Inr:
  "write_event fail r db = Inr db' \<longleftrightarrow> \<not> fail AtEvent \<and> insert_event r db = Inr db'"
  by (auto simp: write_event_def split: sum.splits)

lemma pg_write_Inr:
  assumes "pg_write fail now cmd et nxt db = (Inr c, db')"
  obtains db1 where "c = nxt" "write_snapshot fail cmd et nxt db = Inr db1"
    "insert_event (event_row now cmd et nxt) db1 = Inr (db1\<lparr>pg_events := pg_events db1 @ [event_row now cmd et (json_case nxt)]\<rparr>)"
    "db' = append_outbox nxt now (db1\<lparr>pg_events := pg_events db1 @ [event_row now cmd et (json_case nxt)]\<rparr>)"
  using assms
  by (auto simp: pg_write_def write_event_Inr insert_event_Inr event_row_json Let_def split: sum.splits if_splits)

lemma write_snapshot_keeps: "write_snapshot fail cmd et nxt db = Inr db1 \<Longrightarrow> pg_enterprises db1 = pg_enterprises db"
  by (auto simp: write_snapshot_def insert_case_def update_case_def split: sum.splits if_splits option.splits)

lemma pg_write_keeps: "pg_write fail now cmd et nxt db = (Inr c, db') \<Longrightarrow> pg_enterprises db' = pg_enterprises db"
  by (erule pg_write_Inr) (simp add: write_snapshot_keeps)

lemma pg_write_Inl: "pg_write fail now cmd et nxt db = (Inl e, db') \<Longrightarrow> db' = db"
  by (auto simp: pg_write_def split: sum.splits if_splits)

text \<open>
  The snapshot statement of a command that passed its reads on the same case keeps the identity
  columns, so the row it leaves is \<open>nxt\<close> with its plans as JSON keeps them.
\<close>

lemma write_snapshot_Inr:
  assumes "write_snapshot fail cmd et nxt db = Inr db1"
  shows "pg_events db1 = pg_events db" and "status_column_ok (wc_status nxt)"
    and "et = EventCaseCreated \<Longrightarrow> pg_workcases db (wc_id nxt) = None
           \<and> text_ok (wc_id nxt) \<and> text_ok (wc_enterprise_id nxt) \<and> text_ok (wc_org_scope nxt) \<and> text_ok (wc_actor_ref nxt)
           \<and> pg_workcases db1 = (pg_workcases db)(wc_id nxt := Some (stored_case clean nxt))"
    and "et \<noteq> EventCaseCreated \<Longrightarrow>
           \<exists>c. pg_workcases db (cm_case_id cmd) = Some c \<and> in_scope (cm_enterprise_id cmd) (cm_org_scope cmd) c
             \<and> wc_revision c = cm_expected_revision cmd
             \<and> pg_workcases db1 = (pg_workcases db)(cm_case_id cmd :=
                  Some (c\<lparr>wc_status := wc_status nxt, wc_revision := wc_revision nxt,
                          wc_plans := wc_plans (stored_case clean nxt)\<rparr>))"
  using assms
  by (auto simp: write_snapshot_def insert_case_def update_case_def split: sum.splits if_splits option.splits)

lemma same_identity_update:
  fixes c n :: work_case
  assumes "wc_id n = wc_id c" and "wc_enterprise_id n = wc_enterprise_id c"
    and "wc_org_scope n = wc_org_scope c" and "wc_actor_ref n = wc_actor_ref c"
  shows "c\<lparr>wc_status := wc_status n, wc_revision := wc_revision n, wc_plans := wc_plans (stored_case tx n)\<rparr> = stored_case tx n"
  using assms by (cases c, cases n) (simp add: stored_case_def)

text \<open>
  The invariant of the tables.  The declared keys are keys, a stored idempotency key has the length
  its CHECK demands and a payload reads back as it is stored, as every JSON column does; and every
  snapshot is an event's payload.
\<close>

definition pg_inv :: "pg_tables \<Rightarrow> bool" where
  "pg_inv db \<longleftrightarrow>
     distinct (map (\<lambda>q. (ev_case_id q, ev_seq q)) (pg_events db))
   \<and> distinct (map (\<lambda>q. (ev_enterprise_id q, ev_idempotency_key q)) (pg_events db))
   \<and> (\<forall>r \<in> set (pg_events db). json_case (ev_payload r) = ev_payload r \<and> 16 \<le> rune_count (ev_idempotency_key r))
   \<and> (\<forall>cid c. pg_workcases db cid = Some c \<longrightarrow>
        (\<exists>r \<in> set (pg_events db). ev_case_id r = cid \<and> ev_seq r = wc_revision c \<and> ev_payload r = c))"

lemma committed_inv: "committed now cmd et nxt db db' \<Longrightarrow> pg_inv db \<Longrightarrow> pg_inv db'"
  by (auto simp: committed_def pg_inv_def select_event_None)

lemma pg_inv_snapshot: "pg_inv db \<Longrightarrow> pg_workcases db cid = Some c \<Longrightarrow>
     \<exists>r \<in> set (pg_events db). ev_case_id r = cid \<and> ev_seq r = wc_revision c \<and> ev_payload r = c"
  by (simp add: pg_inv_def)

lemma pg_inv_payload: "pg_inv db \<Longrightarrow> r \<in> set (pg_events db) \<Longrightarrow> json_case (ev_payload r) = ev_payload r"
  by (simp add: pg_inv_def)

lemma pg_inv_row: "pg_inv db \<Longrightarrow> pg_workcases db cid = Some c \<Longrightarrow> json_case c = c"
  using pg_inv_snapshot pg_inv_payload by blast

lemma committed_view:
  assumes "committed now cmd et nxt db db'"
  shows "pg_view db' = record_event now cmd et (stored_case clean nxt) (pg_view db)"
  using assms
  by (auto simp: committed_def pg_view_def record_event_def select_event_def fun_eq_iff find_snoc
      split: option.splits)

text \<open>Two tables of one history agree on a case they hold at the same revision.\<close>

lemma same_revision_same_case:
  assumes "pg_inv db0" and "pg_inv db1" and ext: "pg_events db1 = pg_events db0 @ evs"
    and "pg_workcases db0 cid = Some c0" and "pg_workcases db1 cid = Some c1" and "wc_revision c0 = wc_revision c1"
  shows "c0 = c1"
proof -
  let ?k = "\<lambda>q. (ev_case_id q, ev_seq q)"
  obtain r0 where r0: "r0 \<in> set (pg_events db0)" "?k r0 = (cid, wc_revision c0)" "ev_payload r0 = c0"
    using pg_inv_snapshot [OF assms(1,4)] by auto
  obtain r1 where r1: "r1 \<in> set (pg_events db1)" "?k r1 = (cid, wc_revision c1)" "ev_payload r1 = c1"
    using pg_inv_snapshot [OF assms(2,5)] by auto
  have "inj_on ?k (set (pg_events db1))"
    using assms(2) by (simp add: pg_inv_def distinct_map)
  moreover have "r0 \<in> set (pg_events db1)" using r0(1) ext by simp
  moreover have "?k r0 = ?k r1" using r0(2) r1(2) assms(6) by simp
  ultimately have "r0 = r1" using r1(1) by (blast dest: inj_onD)
  then show ?thesis using r0(3) r1(3) by simp
qed

subsection \<open>Reads\<close>

lemma pg_read_Inr:
  assumes "pg_read fail cmd et f dbr dbs = Inr nxt"
  obtains cur where "select_event (cm_enterprise_id cmd) (cm_idempotency_key cmd) dbr = None" "f cur = Inr nxt"
    "wc_revision cur = cm_expected_revision cmd"
    "et = EventCaseCreated \<Longrightarrow> cur = zero_case"
    "et \<noteq> EventCaseCreated \<Longrightarrow> pg_workcases dbs (cm_case_id cmd) = Some cur \<and> in_scope (cm_enterprise_id cmd) (cm_org_scope cmd) cur"
  using assms
  by (auto simp: pg_read_def select_replay_def select_case_def pg_decide_def
      split: if_splits option.splits sum.splits pg_error.splits)

lemma pg_view_simps [simp]:
  "db_cases (pg_view db) = pg_workcases db"
  "db_replay (pg_view db) e k = map_option (\<lambda>r. (ev_case_id r, ev_payload r)) (select_event e k db)"
  by (simp_all add: pg_view_def)

text \<open>An answer without a write is the abstract answer on the tables read, or a fault.\<close>

lemma pg_read_Inl:
  assumes "pg_read fail cmd et f db db = Inl answer" and "keeps_identity cmd et f"
  shows "store_fault answer \<or> spec_apply clean now cmd et f (pg_view db) = (answer, pg_view db)"
proof (cases "select_event (cm_enterprise_id cmd) (cm_idempotency_key cmd) db")
  case (Some row)
  with assms(1) show ?thesis
    by (auto simp: pg_read_def select_replay_def spec_apply_def replay_result_def store_fault_def split: if_splits)
next
  case None
  show ?thesis
  proof (cases "et = EventCaseCreated")
    case True
    with assms None show ?thesis
      by (auto simp: pg_read_def select_replay_def pg_decide_def spec_apply_def precheck_def select_case_def keeps_identity_def
          store_fault_def zero_case_def split: if_splits option.splits sum.splits)
  next
    case False
    with assms(1) None show ?thesis
      by (auto simp: pg_read_def select_replay_def pg_decide_def spec_apply_def precheck_def visible_case_def select_case_def
          store_fault_def split: if_splits option.splits sum.splits)
  qed
qed

text \<open>A replayed answer is the abstract one on every later table, too.\<close>

lemma select_event_later:
  "pg_events db1 = pg_events db0 @ evs \<Longrightarrow> select_event e k db0 = Some r \<Longrightarrow> select_event e k db1 = Some r"
  by (simp add: select_event_def find_append_Some)

lemma pg_read_replay:
  assumes "pg_read fail cmd et f dbr dbs = Inl (Inr c)" and "pg_events dbw = pg_events dbr @ evs"
  shows "spec_apply clean now cmd et f (pg_view dbw) = (Inr c, pg_view dbw)"
proof -
  have "\<exists>row. select_event (cm_enterprise_id cmd) (cm_idempotency_key cmd) dbr = Some row
      \<and> wc_org_scope (ev_payload row) = cm_org_scope cmd \<and> ev_case_id row = cm_case_id cmd \<and> c = ev_payload row"
    using assms(1)
    by (auto simp: pg_read_def select_replay_def pg_decide_def split: if_splits option.splits sum.splits pg_error.splits)
  then show ?thesis
    using select_event_later [OF assms(2)] by (auto simp: spec_apply_def replay_result_def)
qed

subsection \<open>Writes on the tables as they are by then\<close>

lemma write_committed:
  assumes inv: "pg_inv dbs" "pg_inv dbw" and ext: "pg_events dbw = pg_events dbs @ evs"
    and id: "keeps_identity cmd et f" and rd: "pg_read fail cmd et f dbr dbs = Inr nxt"
    and wr: "pg_write fail now cmd et nxt dbw = (Inr c, db2)"
  shows "c = nxt \<and> committed now cmd et nxt dbw db2
       \<and> spec_apply clean now cmd et f (pg_view dbw) = (Inr nxt, pg_view db2)"
proof -
  obtain cur where cur: "f cur = Inr nxt" "wc_revision cur = cm_expected_revision cmd"
      "et = EventCaseCreated \<Longrightarrow> cur = zero_case"
      "et \<noteq> EventCaseCreated \<Longrightarrow> pg_workcases dbs (cm_case_id cmd) = Some cur \<and> in_scope (cm_enterprise_id cmd) (cm_org_scope cmd) cur"
    using pg_read_Inr [OF rd] by metis
  obtain d where d: "c = nxt" "write_snapshot fail cmd et nxt dbw = Inr d"
      "insert_event (event_row now cmd et nxt) d = Inr (d\<lparr>pg_events := pg_events d @ [event_row now cmd et (json_case nxt)]\<rparr>)"
      "db2 = append_outbox nxt now (d\<lparr>pg_events := pg_events d @ [event_row now cmd et (json_case nxt)]\<rparr>)"
    by (rule pg_write_Inr [OF wr])
  note snap = write_snapshot_Inr [OF d(2)]
  have sel: "select_event e k d = select_event e k dbw" for e k
    using snap(1) by (simp add: select_event_def)
  have row: "pg_workcases d = (pg_workcases dbw)(cm_case_id cmd := Some (stored_case clean nxt))
      \<and> precheck cmd et (pg_view dbw) = Inr cur \<and> json_case nxt = stored_case clean nxt"
  proof (cases "et = EventCaseCreated")
    case True
    with id cur(1,3) have "wc_id nxt = cm_case_id cmd" by (auto simp: keeps_identity_def)
    moreover have "json_case nxt = stored_case clean nxt"
      using snap(2) snap(3) [OF True] by (intro json_case_stored) simp_all
    ultimately show ?thesis using snap(3) [OF True] cur(2,3) True by (simp add: precheck_def zero_case_def)
  next
    case False
    obtain c1 where c1: "pg_workcases dbw (cm_case_id cmd) = Some c1" "in_scope (cm_enterprise_id cmd) (cm_org_scope cmd) c1"
        "wc_revision c1 = cm_expected_revision cmd"
        "pg_workcases d = (pg_workcases dbw)(cm_case_id cmd :=
            Some (c1\<lparr>wc_status := wc_status nxt, wc_revision := wc_revision nxt, wc_plans := wc_plans (stored_case clean nxt)\<rparr>))"
      using snap(4) [OF False] by blast
    have "cur = c1"
      using same_revision_same_case [OF inv ext _ c1(1)] cur(2) cur(4) [OF False] c1(3) by simp
    then have same: "wc_id nxt = wc_id c1" "wc_enterprise_id nxt = wc_enterprise_id c1"
        "wc_org_scope nxt = wc_org_scope c1" "wc_actor_ref nxt = wc_actor_ref c1"
      using id False cur(1) by (simp_all add: keeps_identity_def)
    have "json_status (wc_status nxt) = wc_status nxt"
      using snap(2) by (auto simp: status_column_ok_def)
    then have "json_case nxt = stored_case clean nxt"
      using json_case_fixed [OF pg_inv_row [OF inv(2) c1(1)]] same by (simp add: json_case_def stored_case_def)
    then show ?thesis
      using c1 False \<open>cur = c1\<close> same_identity_update [OF same, of clean] by (simp add: precheck_def visible_case_def)
  qed
  have com: "committed now cmd et nxt dbw db2"
    using d(3) row snap(1) sel json_case_twice [of nxt]
    by (simp add: committed_def d(4) insert_event_Inr del: json_case_twice)
  then have "spec_apply clean now cmd et f (pg_view dbw) = (Inr nxt, pg_view db2)"
    using row cur(1) committed_view [OF com] by (simp add: spec_apply_def committed_def)
  with d(1) com show ?thesis by simp
qed

lemma write_rejected:
  assumes rd: "pg_read fail cmd et f dbr db = Inr nxt" and id: "keeps_identity cmd et f"
    and sel: "select_event (cm_enterprise_id cmd) (cm_idempotency_key cmd) db = None"
    and wr: "pg_write fail now cmd et nxt db = (Inl e, db')"
  shows "store_fault (Inl e :: wc_error + work_case) \<or> spec_apply clean now cmd et f (pg_view db) = (Inl e, pg_view db)"
proof -
  obtain cur where cur:
      "f cur = Inr nxt" "wc_revision cur = cm_expected_revision cmd" "et = EventCaseCreated \<Longrightarrow> cur = zero_case"
      "et \<noteq> EventCaseCreated \<Longrightarrow> pg_workcases db (cm_case_id cmd) = Some cur \<and> in_scope (cm_enterprise_id cmd) (cm_org_scope cmd) cur"
    using pg_read_Inr [OF rd] by metis
  show ?thesis
  proof (cases "fail AtEncode")
    case True
    with wr show ?thesis by (simp add: pg_write_def store_fault_def)
  next
    case enc: False
    show ?thesis
    proof (cases "write_snapshot fail cmd et nxt db")
      case (Inl e')
      then have "e = e'" using wr enc by (simp add: pg_write_def)
      with Inl cur sel id show ?thesis
        by (auto simp: write_snapshot_def insert_case_def update_case_def store_fault_def spec_apply_def precheck_def
            constraintWorkcasesPK_def constraintEventsPK_def constraintEventsIdempotency_def keeps_identity_def
            split: if_splits option.splits sum.splits)
    next
      case (Inr d)
      have "select_event (cm_enterprise_id cmd) (cm_idempotency_key cmd) d = None"
        using sel write_snapshot_Inr(1) [OF Inr] by (simp add: select_event_def)
      with Inr wr enc show ?thesis
        by (auto simp: pg_write_def write_event_def insert_event_def store_fault_def select_event_None Let_def
            constraintWorkcasesPK_def constraintEventsPK_def constraintEventsIdempotency_def
            split: if_splits sum.splits)
    qed
  qed
qed

subsection \<open>The PostgreSQL store implements the contract\<close>

lemma pg_apply_law:
  assumes inv: "pg_inv db" and id: "keeps_identity cmd et f" and x: "pg_apply fail now cmd et f db = (r, db')"
  shows "pg_inv db' \<and>
     ((r, pg_view db') = spec_apply clean now cmd et f (pg_view db)
      \<or> (store_fault r \<and> pg_view db' \<in> {pg_view db, snd (spec_apply clean now cmd et f (pg_view db))}))"
proof (cases "pg_read fail cmd et f db db")
  case (Inl answer)
  with x inv pg_read_Inl [OF Inl id, of now] show ?thesis by (auto simp: pg_apply_def pg_apply_between_def)
next
  case (Inr nxt)
  obtain w db2 where wr: "pg_write fail now cmd et nxt db = (w, db2)" by fastforce
  show ?thesis
  proof (cases w)
    case (Inl e)
    with wr have wr': "pg_write fail now cmd et nxt db = (Inl e, db2)" by simp
    with x Inr have "r = Inl e" "db' = db2" by (simp_all add: pg_apply_def pg_apply_between_def)
    moreover have "db2 = db" using wr' by (rule pg_write_Inl)
    moreover have "select_event (cm_enterprise_id cmd) (cm_idempotency_key cmd) db = None"
      by (rule pg_read_Inr [OF Inr])
    ultimately show ?thesis
      using write_rejected [OF Inr id _ wr'] inv by auto
  next
    fix c
    assume w: "w = Inr c"
    have com: "c = nxt \<and> committed now cmd et nxt db db2 \<and> spec_apply clean now cmd et f (pg_view db) = (Inr nxt, pg_view db2)"
      by (rule write_committed [OF inv inv _ id Inr, where evs = "[]"]) (use wr w in simp_all)
    from x Inr wr w have "r = (if fail AtAck then Inl ErrStoreFailure else Inr c)" "db' = db2"
      by (simp_all add: pg_apply_def pg_apply_between_def)
    with com committed_inv inv show ?thesis by (auto simp: store_fault_def)
  qed
qed

definition pg_state_view :: "pg_state \<Rightarrow> case_db" where
  "pg_state_view s = pg_view (ps_tables s)"

definition pg_state_inv :: "pg_state \<Rightarrow> bool" where
  "pg_state_inv s \<longleftrightarrow> pg_inv (ps_tables s)"

lemma pg_store_apply:
  "store_apply pg_case_store now cmd et f s = (r, s') \<longleftrightarrow>
     (\<exists>db. pg_apply (ps_faults s (ps_calls s)) now cmd et f (ps_tables s) = (r, db)
        \<and> s' = s\<lparr>ps_tables := db, ps_calls := ps_calls s + 1\<rparr>)"
  by (auto simp: pg_case_store_def split: prod.splits)

interpretation pg: case_store_contract pg_case_store pg_state_view pg_state_inv clean
proof (rule case_store_contract.intro)
  show "keeps_text clean" by (rule keeps_text_clean)
next
  fix s :: pg_state
  assume "pg_state_inv s"
  then have inv: "pg_inv (ps_tables s)" by (simp add: pg_state_inv_def)
  have "stored_case clean c = c" if "pg_workcases (ps_tables s) cid = Some c" for cid c
    using json_case_fixed [OF pg_inv_row [OF inv that]] by blast
  moreover have "stored_case clean (ev_payload r) = ev_payload r" if "r \<in> set (pg_events (ps_tables s))" for r
    using json_case_fixed [OF pg_inv_payload [OF inv that]] by blast
  ultimately show "db_stored clean (pg_state_view s)"
    by (auto simp: db_stored_def pg_state_view_def dest: select_event_in)
next
  fix s :: pg_state and ent org cid
  show "store_get pg_case_store ent org cid s = spec_get ent org cid (pg_state_view s)
      \<or> store_fault (store_get pg_case_store ent org cid s)"
    by (auto simp: pg_case_store_def pg_get_def select_case_def spec_get_def pg_state_view_def store_fault_def
        split: option.splits if_splits)
next
  fix s s' :: pg_state and now cmd et f r
  assume a: "pg_state_inv s" "keeps_identity cmd et f" "store_apply pg_case_store now cmd et f s = (r, s')"
  then show "(r, pg_state_view s') = spec_apply clean now cmd et f (pg_state_view s)
      \<or> (store_fault r \<and> pg_state_view s' \<in> {pg_state_view s, snd (spec_apply clean now cmd et f (pg_state_view s))})"
    using pg_apply_law [of "ps_tables s" cmd et f] by (fastforce simp: pg_state_inv_def pg_state_view_def pg_store_apply)
next
  fix s :: pg_state and now cmd et f
  assume a: "pg_state_inv s" "keeps_identity cmd et f"
  obtain r s' where x: "store_apply pg_case_store now cmd et f s = (r, s')" by fastforce
  then obtain db where "pg_apply (ps_faults s (ps_calls s)) now cmd et f (ps_tables s) = (r, db)"
      "s' = s\<lparr>ps_tables := db, ps_calls := ps_calls s + 1\<rparr>"
    by (auto simp: pg_store_apply)
  with a x pg_apply_law [of "ps_tables s" cmd et f] show "pg_state_inv (snd (store_apply pg_case_store now cmd et f s))"
    by (auto simp: pg_state_inv_def)
qed

subsection \<open>Concurrent commands\<close>

text \<open>
  C9: concurrent commands are atomic.  Other transactions may commit between the replay SELECT, the
  case SELECT and the writes of one \<open>Apply\<close>: what they leave are tables that satisfy the constraints
  and continue the event log.  An \<open>Apply\<close> that answers a case has acted exactly as the abstract
  \<open>spec_apply\<close> in one step on the tables at the time of its writes.  One that answers an error has
  left them as they are; the exception is a commit whose acknowledgment was lost, which answers a
  store failure after the whole abstract step.  So no interleaving loses an update, applies a command
  in part or twice, or duplicates a revision.
\<close>
theorem interleaved_apply_linearizes:
  assumes "pg_inv dbs" and "pg_inv dbw"
    and "pg_events dbs = pg_events dbr @ evs1" and "pg_events dbw = pg_events dbs @ evs2"
    and "keeps_identity cmd et f"
    and "pg_apply_between fail now cmd et f dbr dbs dbw = (r, db2)"
  shows "(\<forall>c. r = Inr c \<longrightarrow> spec_apply clean now cmd et f (pg_view dbw) = (Inr c, pg_view db2) \<and> pg_inv db2)
       \<and> (\<forall>e. r = Inl e \<longrightarrow> db2 = dbw
            \<or> (e = ErrStoreFailure \<and> fail AtAck \<and> pg_inv db2
               \<and> (\<exists>c. spec_apply clean now cmd et f (pg_view dbw) = (Inr c, pg_view db2))))"
proof (cases "pg_read fail cmd et f dbr dbs")
  case (Inl answer)
  with assms(6) have r: "r = answer" "db2 = dbw" by (simp_all add: pg_apply_between_def)
  have "pg_events dbw = pg_events dbr @ evs1 @ evs2" using assms(3,4) by simp
  from pg_read_replay [OF _ this] Inl r assms(2) show ?thesis by auto
next
  case (Inr nxt)
  obtain w db' where wr: "pg_write fail now cmd et nxt dbw = (w, db')" by fastforce
  show ?thesis
  proof (cases w)
    case (Inl e)
    with wr pg_write_Inl Inr assms(6) show ?thesis by (auto simp: pg_apply_between_def)
  next
    fix c
    assume w: "w = Inr c"
    with wr have "pg_write fail now cmd et nxt dbw = (Inr c, db')" by simp
    with write_committed [OF assms(1,2,4,5) Inr this] committed_inv [OF _ assms(2)] Inr assms(6) show ?thesis
      by (auto simp: pg_apply_between_def split: if_splits)
  qed
qed

lemma write_event_duplicate:
  assumes "pg_write fail now cmd et nxt db = (Inr c, db')" and "pg_events db2 = pg_events db1 @ [row]"
    and "pg_events db1 = pg_events db"
    and "ev_enterprise_id row = cm_enterprise_id cmd" and "ev_idempotency_key row = cm_idempotency_key cmd"
    and "ev_case_id row \<noteq> cm_case_id cmd" and "\<not> fail AtEvent"
  shows "write_event fail (event_row now cmd et nxt) db2 = Inl ErrIdempotencyKeyReused"
proof -
  obtain d where d: "write_snapshot fail cmd et nxt db = Inr d"
      "insert_event (event_row now cmd et nxt) d = Inr (d\<lparr>pg_events := pg_events d @ [event_row now cmd et (json_case nxt)]\<rparr>)"
    by (rule pg_write_Inr [OF assms(1)])
  note ok = d(2) [unfolded insert_event_Inr] write_snapshot_Inr(1) [OF d(1)]
  let ?r = "event_row now cmd et nxt"
  have "(ev_case_id ?r, ev_seq ?r) \<notin> set (map (\<lambda>q. (ev_case_id q, ev_seq q)) (pg_events db2))"
    using ok assms(2,3,6) by auto
  moreover have "(ev_enterprise_id ?r, ev_idempotency_key ?r)
      \<in> set (map (\<lambda>q. (ev_enterprise_id q, ev_idempotency_key q)) (pg_events db2))"
    using assms(2,4,5) by simp
  moreover have "text_ok (ev_case_id ?r) \<and> text_ok (ev_enterprise_id ?r) \<and> text_ok (ev_idempotency_key ?r)
      \<and> jsonb_ok (case_texts (ev_payload ?r))"
    using ok by simp
  moreover have "bigint_ok (ev_seq ?r) \<and> 16 \<le> rune_count (ev_idempotency_key ?r) \<and> rune_count (ev_idempotency_key ?r) \<le> 128"
    using ok by simp
  ultimately have "insert_event ?r db2 = Inl (UniqueViolation constraintEventsIdempotency)"
    by (simp add: insert_event_def)
  then show ?thesis
    using assms(7) by (simp add: write_event_def constraintEventsIdempotency_def constraintEventsPK_def constraintWorkcasesPK_def)
qed

text \<open>
  C10: racing one new idempotency key.  Two commands that would each succeed alone, carrying the same
  new key and both past their reads when the first commits: the first wins, and the second fails
  without effect, with \<open>ErrStaleRevision\<close> where it targets the same case and with
  \<open>ErrIdempotencyKeyReused\<close> where it targets another.
\<close>
theorem same_key_race_loser:
  assumes inv: "pg_inv db"
    and ida: "keeps_identity ca eta fa" and idb: "keeps_identity cb etb fb"
    and key: "cm_enterprise_id ca = cm_enterprise_id cb" "cm_idempotency_key ca = cm_idempotency_key cb"
    and reads: "pg_read sa ca eta fa db db = Inr na" "pg_read sb cb etb fb db db = Inr nb"
    and wa: "pg_write sa now ca eta na db = (Inr a, db1)" and wb: "pg_write sb now cb etb nb db = (Inr b, db1')"
  shows "pg_write sb now cb etb nb db1
    = (Inl (if cm_case_id ca = cm_case_id cb then ErrStaleRevision else ErrIdempotencyKeyReused), db1)"
proof -
  have coma: "committed now ca eta na db db1"
    using write_committed [OF inv inv _ ida reads(1) wa, of "[]"] by simp
  obtain d where d: "write_snapshot sb cb etb nb db = Inr d"
    by (rule pg_write_Inr [OF wb])
  have nofault: "\<not> sb AtSnapshot" "\<not> sb AtEvent"
    using wb d by (auto simp: pg_write_def write_snapshot_def write_event_def split: if_splits sum.splits)
  have enc: "\<not> sb AtEncode" using wb by (auto simp: pg_write_def split: if_splits)
  note snap = write_snapshot_Inr [OF d]
  have idnb: "etb = EventCaseCreated \<Longrightarrow> wc_id nb = cm_case_id cb"
    using pg_read_Inr [OF reads(2)] idb by (metis keeps_identity_def sum.inject(2))
  show ?thesis
  proof (cases "cm_case_id ca = cm_case_id cb")
    case True
    have "write_snapshot sb cb etb nb db1 = Inl ErrStaleRevision"
    proof (cases "etb = EventCaseCreated")
      case create: True
      then show ?thesis
        using d idnb coma \<open>cm_case_id ca = cm_case_id cb\<close>
        by (auto simp: write_snapshot_def insert_case_def committed_def constraintWorkcasesPK_def split: if_splits)
    next
      case False
      obtain c where c: "pg_workcases db (cm_case_id cb) = Some c" "wc_revision c = cm_expected_revision cb"
        using snap(4) [OF False] by blast
      then have "(cm_case_id cb, cm_expected_revision cb) \<in> (\<lambda>q. (ev_case_id q, ev_seq q)) ` set (pg_events db)"
        using inv by (force simp: pg_inv_def)
      then have "wc_revision na \<noteq> cm_expected_revision cb"
        using coma True by (auto simp: committed_def)
      then show ?thesis
        using False coma True nofault d by (auto simp: write_snapshot_def update_case_def committed_def split: if_splits)
    qed
    with True enc show ?thesis by (simp add: pg_write_def)
  next
    case False
    obtain d1 where d1: "write_snapshot sb cb etb nb db1 = Inr d1" "pg_events d1 = pg_events db1"
      using d coma False idnb nofault wa pg_write_keeps [OF wa]
      by (cases "etb = EventCaseCreated")
        (fastforce simp: write_snapshot_def insert_case_def update_case_def committed_def split: if_splits option.splits)+
    have "write_event sb (event_row now cb etb nb) d1 = Inl ErrIdempotencyKeyReused"
      by (rule write_event_duplicate [OF wb, of d1 db "event_row now ca eta (stored_case clean na)"])
        (use d1 coma key False nofault in \<open>simp_all add: committed_def\<close>)
    with d1 False enc show ?thesis by (simp add: pg_write_def)
  qed
qed

text \<open>A key with fewer than 16 characters is rejected by the events table, whatever its bytes.\<close>

lemma pg_apply_short_key:
  assumes "rune_count (cm_idempotency_key cmd) < 16" and "pg_inv db"
  shows "\<exists>e. pg_apply fail now cmd et f db = (Inl e, db)"
proof (cases "pg_read fail cmd et f db db")
  case (Inl answer)
  have none: "select_event (cm_enterprise_id cmd) (cm_idempotency_key cmd) db = None"
    using assms by (fastforce simp: select_event_None pg_inv_def)
  then have "answer \<noteq> Inr c" for c
    using Inl by (auto simp: pg_read_def select_replay_def pg_decide_def split: if_splits option.splits sum.splits pg_error.splits)
  then obtain e where "answer = Inl e" by (cases answer) auto
  with Inl show ?thesis by (simp add: pg_apply_def pg_apply_between_def)
next
  case (Inr nxt)
  obtain r db' where wr: "pg_write fail now cmd et nxt db = (r, db')" by fastforce
  have "r \<noteq> Inr c" for c
  proof
    assume "r = Inr c"
    with wr have "pg_write fail now cmd et nxt db = (Inr c, db')" by simp
    then show False by (rule pg_write_Inr) (use assms(1) in \<open>simp add: insert_event_Inr\<close>)
  qed
  then obtain e where "r = Inl e" by (cases r) auto
  with wr pg_write_Inl Inr show ?thesis by (auto simp: pg_apply_def pg_apply_between_def)
qed

subsection \<open>Concrete runs\<close>

definition empty_tables :: pg_tables where
  "empty_tables = \<lparr>pg_enterprises = (\<lambda>e. e = ''t''), pg_workcases = (\<lambda>_. None), pg_events = [], pg_outbox = []\<rparr>"

definition race_cmd :: "string \<Rightarrow> wc_command" where
  "race_cmd cid = \<lparr>cm_enterprise_id = ''t'', cm_org_scope = ''o'', cm_actor_ref = ''u'', cm_case_id = cid,
     cm_expected_revision = 0, cm_idempotency_key = ''0123456789abcdef''\<rparr>"

definition race_new :: "string \<Rightarrow> work_case" where
  "race_new cid = \<lparr>wc_id = cid, wc_enterprise_id = ''t'', wc_org_scope = ''o'', wc_actor_ref = ''u'',
     wc_status = StatusDraft, wc_revision = 1, wc_plans = []\<rparr>"

definition race_tables :: pg_tables where
  "race_tables = snd (pg_write (\<lambda>_. False) 0 (race_cmd ''a'') EventCaseCreated (race_new ''a'') empty_tables)"

lemma empty_inv: "pg_inv empty_tables"
  by (simp add: pg_inv_def empty_tables_def)

lemma ack_only: "pg_read (\<lambda>st. st = AtAck) = pg_read (\<lambda>_. False)" "pg_write (\<lambda>st. st = AtAck) = pg_write (\<lambda>_. False)"
  by (simp_all add: fun_eq_iff pg_read_def pg_write_def write_snapshot_def write_event_def)

lemma text_ok_ascii: "\<forall>c \<in> set s. byte c < 128 \<Longrightarrow> nul_free s \<Longrightarrow> text_ok s"
  by (simp add: text_ok_def clean_ascii)

lemma race_texts: "text_ok ''t''" "text_ok ''o''" "text_ok ''u''" "text_ok ''0123456789abcdef''" "text_ok ''a''" "text_ok ''b''"
  by (rule text_ok_ascii; simp add: byte_def nul_free_def NUL_def)+

lemma race_reads: "pg_read (\<lambda>_. False) (race_cmd cid) EventCaseCreated (\<lambda>_. Inr (race_new cid)) empty_tables empty_tables = Inr (race_new cid)"
  if "text_ok cid"
  using that
  by (simp add: pg_read_def pg_decide_def empty_tables_def select_replay_def select_event_def select_case_def race_cmd_def
      zero_case_def race_texts)

lemma race_identity: "keeps_identity (race_cmd cid) EventCaseCreated (\<lambda>_. Inr (race_new cid))"
  by (simp add: keeps_identity_def race_cmd_def race_new_def in_scope_def)

lemma race_writes:
  assumes "text_ok cid"
  shows "\<exists>db. pg_write (\<lambda>_. False) 0 (race_cmd cid) EventCaseCreated (race_new cid) empty_tables = (Inr (race_new cid), db)"
proof -
  have "jsonb_ok (plans_texts (wc_plans (race_new cid))) \<and> jsonb_ok (case_texts (race_new cid))"
    using assms race_texts by (simp add: jsonb_ok_def case_texts_def plans_texts_def race_new_def text_ok_def)
  then show ?thesis
    using assms
    by (simp add: pg_write_def write_snapshot_def insert_case_def write_event_def insert_event_def
        empty_tables_def race_cmd_def race_new_def status_column_ok_def bigint_ok_def bigint_param_def byte_def race_texts)
qed

text \<open>The same creation twice: acknowledged, and with the acknowledgment of its commit lost.\<close>

lemma interleaved_apply_linearizes_witness:
  "\<exists>c db. pg_apply_between (\<lambda>_. False) 0 (race_cmd ''a'') EventCaseCreated (\<lambda>_. Inr (race_new ''a'')) empty_tables empty_tables empty_tables
      = (Inr c, db) \<and> pg_inv db
    \<and> pg_apply_between (\<lambda>st. st = AtAck) 0 (race_cmd ''a'') EventCaseCreated (\<lambda>_. Inr (race_new ''a'')) empty_tables empty_tables empty_tables
      = (Inl ErrStoreFailure, db) \<and> pg_view db \<noteq> pg_view empty_tables"
proof -
  let ?f = "\<lambda>_ :: work_case. Inr (race_new ''a'') :: wc_error + work_case"
  obtain db where w: "pg_write (\<lambda>_. False) 0 (race_cmd ''a'') EventCaseCreated (race_new ''a'') empty_tables = (Inr (race_new ''a''), db)"
    using race_writes [OF race_texts(5)] by blast
  then have x: "pg_apply_between (\<lambda>_. False) 0 (race_cmd ''a'') EventCaseCreated ?f empty_tables empty_tables empty_tables
      = (Inr (race_new ''a''), db)"
    by (simp add: pg_apply_between_def race_reads [OF race_texts(5)])
  have y: "pg_apply_between (\<lambda>st. st = AtAck) 0 (race_cmd ''a'') EventCaseCreated ?f empty_tables empty_tables empty_tables
      = (Inl ErrStoreFailure, db)"
    by (simp add: pg_apply_between_def ack_only race_reads [OF race_texts(5)] w)
  have "spec_apply clean 0 (race_cmd ''a'') EventCaseCreated ?f (pg_view empty_tables) = (Inr (race_new ''a''), pg_view db)"
      "pg_inv db"
    using interleaved_apply_linearizes [OF empty_inv empty_inv _ _ race_identity x] by simp_all
  moreover have "db_cases (snd (spec_apply clean 0 (race_cmd ''a'') EventCaseCreated ?f (pg_view empty_tables))) ''a'' \<noteq> None"
    by (simp add: spec_apply_def precheck_def race_cmd_def empty_tables_def select_event_def)
  ultimately have "db_cases (pg_view db) ''a'' \<noteq> None" by simp
  moreover have "db_cases (pg_view empty_tables) ''a'' = None" by (simp add: empty_tables_def)
  ultimately have "pg_view db \<noteq> pg_view empty_tables" by metis
  then show ?thesis using x y \<open>pg_inv db\<close> by blast
qed

lemma same_key_race_loser_witness:
  "\<exists>db. pg_write (\<lambda>_. False) 0 (race_cmd ''b'') EventCaseCreated (race_new ''b'') db = (Inl ErrIdempotencyKeyReused, db)"
proof -
  obtain da db where "pg_write (\<lambda>_. False) 0 (race_cmd ''a'') EventCaseCreated (race_new ''a'') empty_tables = (Inr (race_new ''a''), da)"
      "pg_write (\<lambda>_. False) 0 (race_cmd ''b'') EventCaseCreated (race_new ''b'') empty_tables = (Inr (race_new ''b''), db)"
    using race_writes race_texts(5,6) by metis
  from same_key_race_loser [OF empty_inv race_identity race_identity _ _ race_reads race_reads this]
  show ?thesis by (auto simp: race_cmd_def race_texts)
qed

end
