(* ===== verification/WcHistory.thy ===== *)
theory WcHistory
  imports WcService WcPostgres
begin

text \<open>
  What the WorkCase service keeps true over any history of commands, on any store that keeps
  \<open>case_store_contract\<close>.  \<open>lifecycle\<close> is the abstract state machine of a case: every mutation of
  the service is one of its steps.  \<open>wf_db\<close> is the invariant of the stored data: the event log of a
  case is a lifecycle run that starts with the creation, its sequence numbers are the revisions, and
  the snapshot is its last payload.  The argument \<open>tx\<close> is what the store keeps of a text
  (\<open>stored_case\<close>): a store that keeps less than it was given still records lifecycle steps
  (\<open>lifecycle_stored\<close>).  The lemmas in the locale are instantiated for the in-memory store and for
  PostgreSQL at the end.
\<close>

subsection \<open>The lifecycle of a case\<close>

definition evolves :: "work_case \<Rightarrow> wc_status \<Rightarrow> work_plan list \<Rightarrow> work_case" where
  "evolves c st plans = c\<lparr>wc_status := st, wc_plans := plans, wc_revision := wc_revision c + 1\<rparr>"

inductive lifecycle :: "work_case \<Rightarrow> work_case \<Rightarrow> bool" where
  propose: "wc_status c \<noteq> StatusCompleted \<Longrightarrow> wc_status c \<noteq> StatusTerminated \<Longrightarrow>
     pl_revision p = next_plan_revision (wc_plans c) \<Longrightarrow> ValidatePlan p = None \<Longrightarrow>
     lifecycle c (evolves c (wc_status c) (wc_plans c @ [p]))"
| review: "wc_status c = StatusDraft \<Longrightarrow> wc_plans c \<noteq> [] \<Longrightarrow> lifecycle c (evolves c StatusReviewing (wc_plans c))"
| execute: "wc_status c = StatusReviewing \<Longrightarrow> lifecycle c (evolves c StatusExecuting (wc_plans c))"
| step: "wc_status c = StatusExecuting \<Longrightarrow> wc_plans c = older @ [tp] \<Longrightarrow>
     i < length (pl_steps tp) \<Longrightarrow> st_id st = st_id (pl_steps tp ! i) \<Longrightarrow>
     st_action st = st_action (pl_steps tp ! i) \<Longrightarrow>
     legalStepTransitions (from_status (st_status (pl_steps tp ! i))) (st_status st) \<Longrightarrow>
     st_evidence st = st_evidence (pl_steps tp ! i) @ ev \<Longrightarrow>
     lifecycle c (evolves c StatusExecuting (older @ [tp\<lparr>pl_steps := (pl_steps tp)[i := st]\<rparr>]))"
| finish: "wc_status c = StatusExecuting \<Longrightarrow> st \<in> {StatusCompleted, StatusTerminated} \<Longrightarrow>
     lifecycle c (evolves c st (wc_plans c))"

inductive_cases lifecycle_cases: "lifecycle c d"

lemma evolves_simps [simp]:
  "wc_status (evolves c st ps) = st"
  "wc_plans (evolves c st ps) = ps"
  "wc_revision (evolves c st ps) = wc_revision c + 1"
  "wc_id (evolves c st ps) = wc_id c"
  "wc_enterprise_id (evolves c st ps) = wc_enterprise_id c"
  "wc_org_scope (evolves c st ps) = wc_org_scope c"
  "wc_actor_ref (evolves c st ps) = wc_actor_ref c"
  by (simp_all add: evolves_def)

lemma lifecycle_keeps:
  assumes "lifecycle c d"
  shows "wc_id d = wc_id c \<and> wc_enterprise_id d = wc_enterprise_id c \<and> wc_org_scope d = wc_org_scope c
       \<and> wc_actor_ref d = wc_actor_ref c \<and> wc_revision d = wc_revision c + 1"
  using assms by cases simp_all

lemma lifecycle_terminal: "lifecycle c d \<Longrightarrow> wc_status c \<noteq> StatusCompleted \<and> wc_status c \<noteq> StatusTerminated"
  by (erule lifecycle_cases) auto

text \<open>What a store keeps of the next state is a lifecycle step, too.\<close>

lemma stored_evolves: "stored_case tx (evolves c st ps) = evolves c st (map (stored_plan tx) ps)"
  by (simp add: stored_case_def evolves_def)

lemma stored_case_plans: "stored_case tx c = c \<Longrightarrow> map (stored_plan tx) (wc_plans c) = wc_plans c"
  by (metis stored_case_fields(7))

lemma stored_step_fields [simp]:
  "st_id (stored_step tx st) = tx (st_id st)" "st_status (stored_step tx st) = stored_status tx (st_status st)"
  "st_evidence (stored_step tx st) = map (stored_evidence tx) (st_evidence st)"
  "st_action (stored_step tx st) = map_option (stored_action tx) (st_action st)"
  by (simp_all add: stored_step_def)

lemma legal_target: "legalStepTransitions from to \<Longrightarrow> stored_status tx to = to"
  by (cases to) simp_all

lemma lifecycle_stored:
  assumes l: "lifecycle c d" and c: "stored_case tx c = c" and tx: "keeps_text tx"
  shows "lifecycle c (stored_case tx d)"
  using l
proof cases
  case (propose p)
  have "pl_revision (stored_plan tx p) = pl_revision p" by (simp add: stored_plan_def)
  with propose show ?thesis
    using stored_case_plans [OF c] stored_plan_validates [OF tx, of p] by (auto simp: stored_evolves intro: lifecycle.propose)
next
  case (step older tp i st ev)
  have tp: "map (stored_plan tx) older = older" "stored_plan tx tp = tp"
    using stored_case_plans [OF c] step(3) by simp_all
  then have steps: "map (stored_step tx) (pl_steps tp) = pl_steps tp" by (metis stored_plan_def work_plan.select_convs(2))
  then have old: "stored_step tx (pl_steps tp ! i) = pl_steps tp ! i" using step(4) by (metis nth_map)
  have "stored_plan tx (tp\<lparr>pl_steps := (pl_steps tp)[i := st]\<rparr>) = tp\<lparr>pl_steps := (pl_steps tp)[i := stored_step tx st]\<rparr>"
    using steps by (simp add: stored_plan_def map_update)
  moreover have "st_id (stored_step tx st) = st_id (pl_steps tp ! i)" "st_action (stored_step tx st) = st_action (pl_steps tp ! i)"
    using step(5,6) arg_cong [OF old, of st_id] arg_cong [OF old, of st_action] by simp_all
  moreover have "st_evidence (stored_step tx st) = st_evidence (pl_steps tp ! i) @ map (stored_evidence tx) ev"
    using step(8) arg_cong [OF old, of st_evidence] by simp
  ultimately show ?thesis
    using lifecycle.step [OF step(2,3,4), of "stored_step tx st" "map (stored_evidence tx) ev"] step(1,7) tp(1) legal_target [OF step(7), of tx]
    by (simp add: stored_evolves)
qed (use c in \<open>auto simp: stored_evolves stored_case_plans intro: lifecycle.intros\<close>)

subsection \<open>Every mutation is a lifecycle step\<close>

lemma ValidatePlan_revision [simp]: "ValidatePlan (p\<lparr>pl_revision := r\<rparr>) = ValidatePlan p"
  by (simp add: ValidatePlan_def)

lemma propose_lifecycle:
  assumes "propose_plan_mutate p c = Inr d" and "ValidatePlan p = None"
  shows "lifecycle c d"
proof -
  let ?p = "p\<lparr>pl_revision := next_plan_revision (wc_plans c)\<rparr>"
  have "wc_status c \<noteq> StatusCompleted" "wc_status c \<noteq> StatusTerminated"
    and d: "d = evolves c (wc_status c) (wc_plans c @ [?p])"
    using assms(1) by (auto simp: propose_plan_mutate_def evolves_def split: if_splits)
  then show ?thesis unfolding d using assms(2) by (intro lifecycle.propose) simp_all
qed

lemma review_lifecycle: "start_review_mutate c = Inr d \<Longrightarrow> lifecycle c d"
  using lifecycle.review [of c] by (auto simp: start_review_mutate_def evolves_def split: if_splits)

lemma execution_lifecycle: "start_execution_mutate c = Inr d \<Longrightarrow> lifecycle c d"
  using lifecycle.execute [of c] by (auto simp: start_execution_mutate_def evolves_def split: if_splits)

lemma complete_lifecycle: "complete_mutate c = Inr d \<Longrightarrow> lifecycle c d"
  using lifecycle.finish [of c StatusCompleted] by (auto simp: complete_mutate_def evolves_def split: if_splits)

lemma terminate_lifecycle: "terminate_mutate c = Inr d \<Longrightarrow> lifecycle c d"
  using lifecycle.finish [of c StatusTerminated] by (auto simp: terminate_mutate_def evolves_def split: if_splits)

lemma step_lifecycle:
  assumes "step_mutate sid status ev c = Inr d"
  shows "lifecycle c d"
proof -
  define tp where tp_def: "tp = last (wc_plans c)"
  from assms obtain i where c: "wc_status c = StatusExecuting" "wc_plans c \<noteq> []"
    and i: "find_index (\<lambda>st. st_id st = sid) (pl_steps tp) = Some i"
    and leg: "legalStepTransitions (from_status (st_status (pl_steps tp ! i))) status"
    and d: "d = c\<lparr>wc_plans := butlast (wc_plans c) @ [tp\<lparr>pl_steps := (pl_steps tp)
               [i := (pl_steps tp ! i)\<lparr>st_status := status, st_evidence := st_evidence (pl_steps tp ! i) @ ev\<rparr>]\<rparr>],
             wc_revision := wc_revision c + 1\<rparr>"
    by (auto simp: step_mutate_def Let_def tp_def split: if_splits option.splits)
  have plans: "wc_plans c = butlast (wc_plans c) @ [tp]"
    using c(2) by (simp add: tp_def)
  have len: "i < length (pl_steps tp)" using i by (auto dest: find_index_Some)
  have "d = evolves c StatusExecuting (butlast (wc_plans c) @ [tp\<lparr>pl_steps := (pl_steps tp)
               [i := (pl_steps tp ! i)\<lparr>st_status := status, st_evidence := st_evidence (pl_steps tp ! i) @ ev\<rparr>]\<rparr>])"
    using c(1) by (simp add: d evolves_def)
  then show ?thesis
    using lifecycle.step [OF c(1) plans len, of "(pl_steps tp ! i)\<lparr>st_status := status, st_evidence := st_evidence (pl_steps tp ! i) @ ev\<rparr>" ev] leg
    by simp
qed

text \<open>What \<open>req_plan\<close> hands to the store.\<close>

lemma req_plan_fields:
  assumes "req_plan nextID req = Inr (cmd, et, f)"
  shows "validateCommand (req_command req) = None
       \<and> (\<exists>cid. cmd = (req_command req)\<lparr>cm_case_id := cid\<rparr>)
       \<and> (et \<noteq> EventCaseCreated \<longrightarrow> cmd = req_command req)
       \<and> (et = EventCaseCreated \<longrightarrow> f = create_mutate cmd)"
  using assms by (cases req) (auto simp: Let_def split: if_splits intro: exI [of _ "cm_case_id (req_command req)"])

lemma req_plan_lifecycle:
  assumes "req_plan nextID req = Inr (cmd, et, f)" and "et \<noteq> EventCaseCreated" and "f c = Inr d"
  shows "lifecycle c d"
  using assms
  by (cases req)
    (auto simp: Let_def split: if_splits
      dest: propose_lifecycle review_lifecycle execution_lifecycle step_lifecycle complete_lifecycle terminate_lifecycle)

lemma req_plan_keeps_identity:
  assumes plan: "req_plan nextID req = Inr (cmd, et, f)"
  shows "keeps_identity cmd et f"
proof (cases "et = EventCaseCreated")
  case True
  then have "f = create_mutate cmd" using req_plan_fields [OF plan] by blast
  with True show ?thesis by (simp add: keeps_identity_def create_mutate_def in_scope_def)
next
  case False
  then show ?thesis
    using req_plan_lifecycle [OF plan False] lifecycle_keeps by (simp add: keeps_identity_def)
qed

subsection \<open>Well-formed stored data\<close>

definition newborn :: "work_case \<Rightarrow> bool" where
  "newborn c \<longleftrightarrow> wc_status c = StatusDraft \<and> wc_revision c = 1 \<and> wc_plans c = []"

definition case_ok :: "work_case \<Rightarrow> bool" where
  "case_ok c \<longleftrightarrow>
     wc_status c \<in> {StatusDraft, StatusReviewing, StatusExecuting, StatusCompleted, StatusTerminated}
   \<and> (wc_status c \<notin> {StatusDraft} \<longrightarrow> wc_plans c \<noteq> [])
   \<and> map pl_revision (wc_plans c) = revisions (length (wc_plans c))
   \<and> list_all (\<lambda>p. ValidatePlan p = None) (wc_plans c)"

lemma newborn_ok: "newborn c \<Longrightarrow> case_ok c"
  by (simp add: newborn_def case_ok_def)

lemma create_newborn: "create_mutate cmd c = Inr d \<Longrightarrow> newborn d \<and> wc_id d = cm_case_id cmd \<and> wc_enterprise_id d = cm_enterprise_id cmd \<and> wc_org_scope d = cm_org_scope cmd"
  by (auto simp: create_mutate_def newborn_def)

lemma next_plan_revision_ok:
  "map pl_revision ps = revisions (length ps) \<Longrightarrow> next_plan_revision ps = of_nat (Suc (length ps))"
proof (cases ps rule: rev_cases)
  case (snoc qs q)
  assume "map pl_revision ps = revisions (length ps)"
  with snoc show ?thesis by (simp add: next_plan_revision_def add.commute)
qed (simp add: next_plan_revision_def)

lemma ValidatePlan_step:
  assumes "ValidatePlan p = None" and "i < length (pl_steps p)" and "st_action st = st_action (pl_steps p ! i)"
  shows "ValidatePlan (p\<lparr>pl_steps := (pl_steps p)[i := st]\<rparr>) = None"
proof -
  have "write_without_policy st = write_without_policy (pl_steps p ! i)"
    using assms(3) by (simp add: write_without_policy_def)
  then show ?thesis
    using assms(1,2) set_update_subset_insert [of "pl_steps p" i st]
    by (auto simp: ValidatePlan_None_iff)
qed

lemma lifecycle_ok:
  assumes "lifecycle c d" and "case_ok c"
  shows "case_ok d"
  using assms
proof cases
  case (step older tp i st ev)
  then show ?thesis using assms(2) by (auto simp: case_ok_def ValidatePlan_step)
qed (auto simp: case_ok_def next_plan_revision_ok)

definition log_ok :: "string \<Rightarrow> work_case option \<Rightarrow> stored_event list \<Rightarrow> bool" where
  "log_ok cid snapshot evs \<longleftrightarrow>
     (case snapshot of
        None \<Rightarrow> evs = []
      | Some c \<Rightarrow> evs \<noteq> [] \<and> se_payload (last evs) = c \<and> newborn (se_payload (hd evs)) \<and> wc_id c = cid)
   \<and> successively lifecycle (map se_payload evs)
   \<and> map se_seq evs = map (\<lambda>e. wc_revision (se_payload e)) evs"

definition wf_db :: "case_db \<Rightarrow> bool" where
  "wf_db db \<longleftrightarrow>
     (\<forall>cid. log_ok cid (db_cases db cid) (db_events db cid))
   \<and> (\<forall>e k cid c. db_replay db e k = Some (cid, c) \<longrightarrow>
        c \<in> se_payload ` set (db_events db cid) \<and> wc_enterprise_id c = e)"

lemma wf_empty: "wf_db empty_db"
  by (simp add: wf_db_def empty_db_def log_ok_def)

lemma log_ok_born:
  assumes "newborn c" and "wc_id c = cid"
  shows "log_ok cid (Some c) [\<lparr>se_seq = wc_revision c, se_type = et, se_payload = c, se_created_at = now\<rparr>]"
  using assms by (simp add: log_ok_def)

lemma log_ok_snoc:
  assumes "log_ok cid (Some c) evs" and "lifecycle c d"
  shows "log_ok cid (Some d) (evs @ [\<lparr>se_seq = wc_revision d, se_type = et, se_payload = d, se_created_at = now\<rparr>])"
proof -
  have "evs \<noteq> []" "last (map se_payload evs) = c"
    using assms(1) by (auto simp: log_ok_def last_map)
  then show ?thesis
    using assms lifecycle_keeps [OF assms(2)]
    by (simp add: log_ok_def successively_append_iff)
qed

lemma stored_newborn [simp]: "newborn c \<Longrightarrow> stored_case tx c = c"
  by (simp add: newborn_def stored_case_def)

lemma wf_record:
  assumes wf: "wf_db db" and tx: "keeps_text tx" "db_stored tx db"
    and plan: "req_plan nextID req = Inr (cmd, et, f)"
    and pre: "precheck cmd et db = Inr cur" and f: "f cur = Inr n"
  shows "wf_db (record_event now cmd et (stored_case tx n) db)"
proof -
  define d where "d = stored_case tx n"
  note log = wf [unfolded wf_db_def, THEN conjunct1, rule_format, of "cm_case_id cmd"]
  have "log_ok (cm_case_id cmd) (Some d)
          (db_events db (cm_case_id cmd) @ [\<lparr>se_seq = wc_revision d, se_type = et, se_payload = d, se_created_at = now\<rparr>])
        \<and> wc_enterprise_id d = cm_enterprise_id cmd"
  proof (cases "et = EventCaseCreated")
    case True
    then have "f = create_mutate cmd" and "db_cases db (cm_case_id cmd) = None"
      using req_plan_fields [OF plan] precheck_Inr [OF pre] by auto
    then show ?thesis using log f create_newborn [of cmd cur n] by (simp add: log_ok_def d_def)
  next
    case False
    with precheck_Inr [OF pre] have "db_cases db (cm_case_id cmd) = Some cur"
      and "wc_enterprise_id cur = cm_enterprise_id cmd" by (auto simp: in_scope_def)
    moreover have "lifecycle cur d"
      using lifecycle_stored [OF req_plan_lifecycle [OF plan False f] _ tx(1)] tx(2) \<open>db_cases db _ = Some cur\<close>
      by (simp add: d_def db_stored_def)
    ultimately show ?thesis
      using log log_ok_snoc lifecycle_keeps by metis
  qed
  with wf show ?thesis by (auto simp: wf_db_def d_def)
qed

lemma log_revisions:
  assumes "evs \<noteq> []" and "newborn (se_payload (hd evs))" and "successively lifecycle (map se_payload evs)"
  shows "map (\<lambda>e. wc_revision (se_payload e)) evs = revisions (length evs) \<and> (\<forall>e \<in> set evs. case_ok (se_payload e))"
  using assms
proof (induction evs rule: rev_induct)
  case Nil
  then show ?case by simp
next
  case (snoc e evs)
  show ?case
  proof (cases evs rule: rev_cases)
    case Nil
    with snoc.prems show ?thesis by (simp add: newborn_def newborn_ok)
  next
    case (snoc evs' e')
    then have evs: "evs \<noteq> []" "last evs = e'" by auto
    with snoc.prems snoc.IH have IH: "map (\<lambda>e. wc_revision (se_payload e)) evs = revisions (length evs)"
        "\<forall>e \<in> set evs. case_ok (se_payload e)" and l: "lifecycle (se_payload e') (se_payload e)"
      by (simp_all add: successively_append_iff last_map)
    have "wc_revision (se_payload e') = of_nat (length evs)" using IH(1) snoc by simp
    with l IH lifecycle_keeps [OF l] lifecycle_ok [OF l] snoc show ?thesis by (simp add: add.commute)
  qed
qed

lemma wf_snapshot:
  assumes "wf_db db" and "db_cases db cid = Some c"
  shows "wc_id c = cid \<and> case_ok c \<and> wc_revision c = of_nat (length (db_events db cid))
       \<and> db_events db cid \<noteq> [] \<and> se_payload (last (db_events db cid)) = c
       \<and> map se_seq (db_events db cid) = revisions (length (db_events db cid))"
proof -
  have "log_ok cid (Some c) (db_events db cid)" using assms by (metis wf_db_def)
  then have *: "db_events db cid \<noteq> []" "se_payload (last (db_events db cid)) = c" "wc_id c = cid"
      "map se_seq (db_events db cid) = revisions (length (db_events db cid))"
      "\<forall>e \<in> set (db_events db cid). case_ok (se_payload e)"
      "map (\<lambda>e. wc_revision (se_payload e)) (db_events db cid) = revisions (length (db_events db cid))"
    using log_revisions [of "db_events db cid"] by (auto simp: log_ok_def simp del: map_eq_conv)
  moreover have "wc_revision c = of_nat (length (db_events db cid))"
    using *(1,2,6) by (cases "db_events db cid" rule: rev_cases) simp_all
  ultimately show ?thesis by (metis last_in_set)
qed

subsection \<open>Histories\<close>

text \<open>
  The states a store goes through: every request is accepted as long as its enterprise id has no
  NUL byte (the ids come from the gateway's verified principal).
\<close>

inductive svc_reachable ::
    "'s case_store \<Rightarrow> (string \<Rightarrow> string \<Rightarrow> wc_error + string) \<Rightarrow> 's \<Rightarrow> 's \<Rightarrow> bool"
  for S :: "'s case_store" and nextID and s0 :: 's where
  start: "svc_reachable S nextID s0 s0"
| command: "svc_reachable S nextID s0 s \<Longrightarrow> nul_free (cm_enterprise_id (req_command req)) \<Longrightarrow>
     svc_reachable S nextID s0 (snd (svc_exec S nextID now req s))"

text \<open>What one request does to the stored data.\<close>

definition db_succ ::
    "(string \<Rightarrow> string) \<Rightarrow> (string \<Rightarrow> string \<Rightarrow> wc_error + string) \<Rightarrow> svc_req \<Rightarrow> case_db \<Rightarrow> wc_error + work_case \<Rightarrow> case_db \<Rightarrow> bool" where
  "db_succ tx nextID req db r db' \<longleftrightarrow>
     (db' = db \<and> (\<forall>c. r = Inr c \<longrightarrow> (\<exists>cmd et f. req_plan nextID req = Inr (cmd, et, f)
          \<and> db_replay db (cm_enterprise_id cmd) (cm_idempotency_key cmd) = Some (cm_case_id cmd, c)
          \<and> wc_org_scope c = cm_org_scope cmd)))
   \<or> (\<exists>cmd et f cur d now. (r = Inr d \<or> store_fault r) \<and> req_plan nextID req = Inr (cmd, et, f)
        \<and> db_replay db (cm_enterprise_id cmd) (cm_idempotency_key cmd) = None
        \<and> precheck cmd et db = Inr cur \<and> f cur = Inr d \<and> db' = record_event now cmd et (stored_case tx d) db)"

lemma db_succ_cases:
  assumes "db_succ tx nextID req db r db'"
  obtains (same) "db' = db"
  | (fresh) cmd et f cur d now where "req_plan nextID req = Inr (cmd, et, f)" "precheck cmd et db = Inr cur"
      "f cur = Inr d" "db' = record_event now cmd et (stored_case tx d) db"
  using assms unfolding db_succ_def by metis

lemma db_succ_wf: "db_succ tx nextID req db r db' \<Longrightarrow> keeps_text tx \<Longrightarrow> db_stored tx db \<Longrightarrow> wf_db db \<Longrightarrow> wf_db db'"
  by (auto simp: db_succ_def wf_record)

lemma db_succ_events:
  assumes "db_succ tx nextID req db r db'"
  shows "\<exists>evs. db_events db' cid = db_events db cid @ evs"
  using assms by (auto simp: db_succ_def)

lemma db_succ_replay:
  assumes "db_succ tx nextID req db r db'" and "db_replay db e k = Some x"
  shows "db_replay db' e k = Some x"
  using assms by (auto simp: db_succ_def)

lemma fresh_scope:
  assumes "req_plan nextID req = Inr (cmd, et, f)" and "precheck cmd et db = Inr cur" and "f cur = Inr d"
  shows "wc_enterprise_id d = cm_enterprise_id cmd \<and> wc_org_scope d = cm_org_scope cmd"
proof (cases "et = EventCaseCreated")
  case True
  then show ?thesis using req_plan_fields [OF assms(1)] assms(3) create_newborn by blast
next
  case False
  with precheck_Inr [OF assms(2)] lifecycle_keeps [OF req_plan_lifecycle [OF assms(1) False assms(3)]]
  show ?thesis by (simp add: in_scope_def)
qed

text \<open>A successful answer is on record as the store keeps it.\<close>

lemma db_succ_recorded:
  assumes "db_succ tx nextID req db (Inr c) db'" and "db_stored tx db"
  obtains cmd et f where "req_plan nextID req = Inr (cmd, et, f)"
    "db_replay db' (cm_enterprise_id cmd) (cm_idempotency_key cmd) = Some (cm_case_id cmd, stored_case tx c)"
    "wc_org_scope c = cm_org_scope cmd"
  using assms(1) unfolding db_succ_def
proof (elim disjE conjE exE)
  assume "db' = db" and "\<forall>d. Inr c = Inr d \<longrightarrow> (\<exists>cmd et f. req_plan nextID req = Inr (cmd, et, f)
      \<and> db_replay db (cm_enterprise_id cmd) (cm_idempotency_key cmd) = Some (cm_case_id cmd, d)
      \<and> wc_org_scope d = cm_org_scope cmd)"
  with that assms(2) show thesis by (metis db_stored_def snd_conv)
next
  fix cmd et f cur d now
  assume "(Inr c :: wc_error + work_case) = Inr d" "req_plan nextID req = Inr (cmd, et, f)" "precheck cmd et db = Inr cur" "f cur = Inr d"
    "db' = record_event now cmd et (stored_case tx d) db"
  with that fresh_scope show thesis by auto
qed simp

definition spec_case_store :: "(string \<Rightarrow> string) \<Rightarrow> case_db case_store" where
  "spec_case_store tx = \<lparr>store_get = spec_get, store_apply = spec_apply tx\<rparr>"

context case_store_contract
begin

lemma svc_exec_succ:
  assumes s: "inv s" and e: "nul_free (cm_enterprise_id (req_command req))"
    and x: "svc_exec S nextID now req s = (r, s')"
  shows "db_succ tx nextID req (view s) r (view s') \<and> inv s'"
proof (cases "req_plan nextID req")
  case (Inl err)
  with x s show ?thesis by (auto simp: svc_exec_plan db_succ_def)
next
  case (Inr plan)
  obtain cmd et f where plan: "req_plan nextID req = Inr (cmd, et, f)"
    using Inr by (cases plan) auto
  note id = req_plan_keeps_identity [OF plan]
  have e': "nul_free (cm_enterprise_id cmd)"
    using req_plan_fields [OF plan] e by auto
  have app: "store_apply S now cmd et f s = (r, s')" using x plan by (simp add: svc_exec_plan)
  have "inv s'" using apply_inv [OF s e' id, of now] app by simp
  moreover have "db_succ tx nextID req (view s) r (view s')"
  proof (cases r)
    case (Inl err)
    with apply_failed [OF s e' id, of now err s'] app
    consider "view s' = view s" | c where "store_fault r" "spec_apply tx now cmd et f (view s) = (Inr c, view s')"
      by blast
    then show ?thesis
    proof cases
      case 2
      from 2(2) show ?thesis
        by (rule spec_apply_Inr_cases) (use plan 2(1) Inl in \<open>auto simp: db_succ_def\<close>)
    qed (use Inl in \<open>simp add: db_succ_def\<close>)
  next
    case (Inr c)
    with apply_ok [OF s e' id] app have "spec_apply tx now cmd et f (view s) = (Inr c, view s')" by simp
    then show ?thesis
      by (rule spec_apply_Inr_cases) (use plan Inr in \<open>auto simp: db_succ_def\<close>)
  qed
  ultimately show ?thesis by simp
qed

lemma reach_inv:
  assumes "svc_reachable S nextID s0 s" and "inv s0"
  shows "inv s"
  using assms by (induction rule: svc_reachable.induct) (auto dest: svc_exec_succ [OF _ _ surjective_pairing])

lemma reach_wf:
  assumes "svc_reachable S nextID s0 s" and "inv s0" and "wf_db (view s0)"
  shows "inv s \<and> wf_db (view s)"
  using assms
proof (induction rule: svc_reachable.induct)
  case (command s req now)
  then show ?case
    using svc_exec_succ [of s req nextID now] db_succ_wf [OF _ tx_law stored_law] by (metis prod.collapse)
qed simp

lemma reach_extends:
  assumes "svc_reachable S nextID s0 s" and "inv s0"
  shows "(\<exists>evs. db_events (view s) cid = db_events (view s0) cid @ evs)
       \<and> (\<forall>e k x. db_replay (view s0) e k = Some x \<longrightarrow> db_replay (view s) e k = Some x)"
  using assms
proof (induction rule: svc_reachable.induct)
  case (command s req now)
  have s: "inv s" using command.hyps command.prems by (rule_tac reach_inv)
  have "db_succ tx nextID req (view s) (fst (svc_exec S nextID now req s)) (view (snd (svc_exec S nextID now req s)))"
    using svc_exec_succ [OF s command.hyps(2)] by (metis prod.collapse)
  with command.IH [OF command.prems] show ?case
    using db_succ_events db_succ_replay by (metis append.assoc)
qed simp

text \<open>
  The service over any store behaves as the service over the abstract data, up to a store fault,
  after which the data is as before or as after the whole command.
\<close>

lemma svc_exec_refines:
  assumes "inv s" and "nul_free (cm_enterprise_id (req_command req))"
    and "svc_exec S nextID now req s = (r, s')"
  shows "(r, view s') = svc_exec (spec_case_store tx) nextID now req (view s)
       \<or> (store_fault r \<and> view s' \<in> {view s, snd (svc_exec (spec_case_store tx) nextID now req (view s))})"
proof (cases "req_plan nextID req")
  case (Inr plan)
  obtain cmd et f where plan: "req_plan nextID req = Inr (cmd, et, f)" using Inr by (cases plan) auto
  then show ?thesis
    using apply_law [OF assms(1) _ req_plan_keeps_identity [OF plan], of now r s'] req_plan_fields [OF plan] assms(2,3)
    by (auto simp: svc_exec_plan spec_case_store_def)
qed (use assms in \<open>auto simp: svc_exec_plan\<close>)

text \<open>
  A command that succeeded answers what the store kept of its first answer, for ever after and
  without touching the data.
\<close>

lemma retry_spec:
  assumes s: "inv s" and e: "nul_free (cm_enterprise_id (req_command req))"
    and x: "svc_exec S nextID now req s = (Inr c, s1)"
    and later: "svc_reachable S nextID s1 s2"
  shows "svc_exec (spec_case_store tx) nextID now' req (view s2) = (Inr (stored_case tx c), view s2)"
proof -
  have succ: "db_succ tx nextID req (view s) (Inr c) (view s1)" and s1: "inv s1"
    using svc_exec_succ [OF s e x] by auto
  obtain cmd et f where plan: "req_plan nextID req = Inr (cmd, et, f)"
    and rep: "db_replay (view s1) (cm_enterprise_id cmd) (cm_idempotency_key cmd) = Some (cm_case_id cmd, stored_case tx c)"
    and org: "wc_org_scope c = cm_org_scope cmd"
    by (rule db_succ_recorded [OF succ stored_law [OF s]])
  have "db_replay (view s2) (cm_enterprise_id cmd) (cm_idempotency_key cmd) = Some (cm_case_id cmd, stored_case tx c)"
    using reach_extends [OF later s1] rep by blast
  then have "spec_apply tx now' cmd et f (view s2) = (Inr (stored_case tx c), view s2)"
    using org by (simp add: spec_apply_def replay_result_def)
  with plan show ?thesis by (simp add: svc_exec_plan spec_case_store_def)
qed

lemma retry_same:
  assumes "inv s" and "nul_free (cm_enterprise_id (req_command req))"
    and "svc_exec S nextID now req s = (Inr c, s1)"
    and "svc_reachable S nextID s1 s2"
    and "svc_exec S nextID now' req s2 = (r, s3)"
  shows "view s3 = view s2 \<and> (r = Inr (stored_case tx c) \<or> store_fault r)"
proof -
  have "inv s2" using assms(4) svc_exec_succ [OF assms(1-3)] reach_inv by blast
  then show ?thesis
    using svc_exec_refines [OF _ assms(2,5)] retry_spec [OF assms(1-4), of now'] by auto
qed

end

context exact_case_store
begin

lemma exec_exact:
  assumes "inv s" and "nul_free (cm_enterprise_id (req_command req))"
  shows "(fst (svc_exec S nextID now req s), view (snd (svc_exec S nextID now req s)))
           = svc_exec (spec_case_store tx) nextID now req (view s)"
proof (cases "req_plan nextID req")
  case (Inr plan)
  obtain cmd et f where plan: "req_plan nextID req = Inr (cmd, et, f)" using Inr by (cases plan) auto
  then show ?thesis
    using apply_exact [OF assms(1) _ req_plan_keeps_identity [OF plan]] req_plan_fields [OF plan] assms(2)
    by (auto simp: svc_exec_plan spec_case_store_def)
qed (simp add: svc_exec_plan)

lemma retry_exact:
  assumes "inv s" and "nul_free (cm_enterprise_id (req_command req))"
    and "svc_exec S nextID now req s = (Inr c, s1)"
    and "svc_reachable S nextID s1 s2"
  shows "fst (svc_exec S nextID now' req s2) = Inr (stored_case tx c) \<and> view (snd (svc_exec S nextID now' req s2)) = view s2"
proof -
  have "inv s2" using assms(4) svc_exec_succ [OF assms(1-3)] reach_inv by blast
  then show ?thesis using exec_exact [OF _ assms(2)] retry_spec [OF assms] by (metis prod.inject)
qed

end

subsection \<open>What one request can do to a case\<close>

text \<open>A snapshot changes only by the mutation of a request addressed to that case.\<close>

lemma db_succ_snapshot:
  assumes "db_succ tx nextID req db r db'" and "db_cases db cid = Some c"
  obtains "db_cases db' cid = Some c" "db_events db' cid = db_events db cid"
  | cmd et f d where "req_plan nextID req = Inr (cmd, et, f)" "cm_case_id cmd = cid" "et \<noteq> EventCaseCreated"
      "in_scope (cm_enterprise_id cmd) (cm_org_scope cmd) c" "wc_revision c = cm_expected_revision cmd"
      "f c = Inr d" "db_cases db' cid = Some (stored_case tx d)"
proof (rule db_succ_cases [OF assms(1)])
  fix cmd et f cur d now
  assume r: "req_plan nextID req = Inr (cmd, et, f)" "precheck cmd et db = Inr cur" "f cur = Inr d"
      "db' = record_event now cmd et (stored_case tx d) db"
  show thesis
  proof (cases "cm_case_id cmd = cid")
    case True
    with precheck_Inr [OF r(2)] assms(2) have "et \<noteq> EventCaseCreated" "cur = c"
        "in_scope (cm_enterprise_id cmd) (cm_org_scope cmd) c" "wc_revision c = cm_expected_revision cmd"
      by (auto split: if_splits)
    with r True show thesis using that(2) by simp
  qed (use r assms(2) in \<open>auto intro: that(1)\<close>)
qed (use assms(2) in \<open>auto intro: that(1)\<close>)

lemma db_succ_isolated:
  assumes "db_succ tx nextID req db r db'" and "db_cases db cid = Some c"
    and "\<not> in_scope (cm_enterprise_id (req_command req)) (cm_org_scope (req_command req)) c"
  shows "db_cases db' cid = Some c \<and> db_events db' cid = db_events db cid"
proof (rule db_succ_snapshot [OF assms(1,2)])
  fix cmd et f d
  assume "req_plan nextID req = Inr (cmd, et, f)" and "in_scope (cm_enterprise_id cmd) (cm_org_scope cmd) c"
  with req_plan_fields [of nextID req cmd et f] assms(3) show ?thesis by auto
qed simp

lemma completing_plan:
  assumes "req_plan nextID req = Inr (cmd, et, f)" and "et \<noteq> EventCaseCreated"
    and "f c = Inr d" and "wc_status d = StatusCompleted"
  shows "wc_status c = StatusExecuting \<and> (\<exists>ref. req = ReqCompleteCase cmd ref \<and> ref \<noteq> [])"
  using assms
  by (cases req)
    (auto simp: Let_def propose_plan_mutate_def start_review_mutate_def start_execution_mutate_def step_mutate_def
      complete_mutate_def terminate_mutate_def split: if_splits option.splits)


text \<open>A request that changes the data was checked against the latest revision.\<close>

lemma fresh_revision:
  assumes "wf_db db" and "db_succ (\<lambda>s. s) nextID req db (Inr d) db'" and "db_cases db' \<noteq> db_cases db"
  shows "cm_expected_revision (req_command req) = of_nat (length (db_events db (wc_id d)))
       \<and> length (db_events db' (wc_id d)) = Suc (length (db_events db (wc_id d)))"
proof -
  from assms(2,3) obtain cmd et f cur now where plan: "req_plan nextID req = Inr (cmd, et, f)"
    and pre: "precheck cmd et db = Inr cur" and f: "f cur = Inr d" and db': "db' = record_event now cmd et d db"
    by (auto simp: db_succ_def)
  have "wf_db db'" using wf_record [OF assms(1) keeps_text_same db_stored_same plan pre f] db' by simp
  then have id: "wc_id d = cm_case_id cmd" using wf_snapshot [of db' "cm_case_id cmd" d] db' by simp
  have exp: "cm_expected_revision (req_command req) = cm_expected_revision cmd"
    using req_plan_fields [OF plan] by auto
  have "cm_expected_revision cmd = of_nat (length (db_events db (cm_case_id cmd)))"
  proof (cases "et = EventCaseCreated")
    case True
    with precheck_Inr [OF pre] have "db_cases db (cm_case_id cmd) = None" "cm_expected_revision cmd = 0" by auto
    moreover have "log_ok (cm_case_id cmd) (db_cases db (cm_case_id cmd)) (db_events db (cm_case_id cmd))"
      using assms(1) by (simp add: wf_db_def)
    ultimately show ?thesis by (simp add: log_ok_def)
  next
    case False
    with precheck_Inr [OF pre] wf_snapshot [OF assms(1)] show ?thesis by auto
  qed
  with id exp db' show ?thesis by simp
qed

subsection \<open>Properties of the service on the in-memory store\<close>

lemma wf_new: "wf_db (mem_view NewMemoryStore)"
  using wf_empty by (simp add: mem_view_def NewMemoryStore_def empty_db_def cong: if_cong)

lemma mem_reach_wf: "svc_reachable memory_case_store nextID NewMemoryStore s \<Longrightarrow> wf_db (mem_view s)"
  using mem.reach_wf wf_new by blast

lemma mem_exec_succ:
  "nul_free (cm_enterprise_id (req_command req)) \<Longrightarrow> svc_exec memory_case_store nextID now req s = (r, s') \<Longrightarrow>
     db_succ (\<lambda>s. s) nextID req (mem_view s) r (mem_view s')"
  using mem.svc_exec_succ by blast

text \<open>
  C4: over any history of commands a stored case and its event log agree.  The log starts with a
  draft at revision 1 without plans; each later payload is one \<open>lifecycle\<close> step from the one before;
  the sequence numbers are 1, 2, 3, ...; the snapshot is the payload of the last event, and its
  revision is the number of events.  The snapshot has one of the five statuses, a plan unless it is a
  draft, plan revisions 1, 2, 3, ..., and no write action without a failure policy.
\<close>
theorem case_history_well_formed:
  assumes "svc_reachable memory_case_store nextID NewMemoryStore s" and "ms_cases s cid = Some c"
  shows "wc_id c = cid \<and> wc_revision c = of_nat (length (ms_events s cid)) \<and> case_ok c
       \<and> ms_events s cid \<noteq> [] \<and> se_payload (last (ms_events s cid)) = c
       \<and> newborn (se_payload (hd (ms_events s cid)))
       \<and> successively lifecycle (map se_payload (ms_events s cid))
       \<and> map se_seq (ms_events s cid) = revisions (length (ms_events s cid))"
proof -
  have "log_ok cid (Some c) (ms_events s cid)"
    using mem_reach_wf [OF assms(1)] assms(2) by (metis wf_db_def mem_view_simps(1,2))
  with wf_snapshot [OF mem_reach_wf [OF assms(1)], of cid c] assms(2) show ?thesis
    by (simp add: log_ok_def)
qed

text \<open>
  C5: retries are safe.  Once a request has succeeded, issuing it again after any further history
  gives the recorded result and leaves every case and every event log as it is.
\<close>
theorem retried_request_replays:
  assumes "nul_free (cm_enterprise_id (req_command req))"
    and "svc_exec memory_case_store nextID now req s = (Inr c, s1)"
    and "svc_reachable memory_case_store nextID s1 s2"
  shows "fst (svc_exec memory_case_store nextID now' req s2) = Inr c
       \<and> mem_view (snd (svc_exec memory_case_store nextID now' req s2)) = mem_view s2"
  using mem.retry_exact [OF TrueI assms] by simp

text \<open>
  C6: no lost update.  Of two requests that both change data of the same case, at any two moments of
  a history, the second never carries the revision the first was checked against (while the case has
  fewer than \<open>2 ^ 64\<close> events, so that its revision has not wrapped).
\<close>
theorem no_lost_update:
  assumes "svc_reachable memory_case_store nextID NewMemoryStore s"
    and "nul_free (cm_enterprise_id (req_command req1))" and "nul_free (cm_enterprise_id (req_command req2))"
    and "svc_exec memory_case_store nextID now1 req1 s = (Inr c1, s1)" and "ms_cases s1 \<noteq> ms_cases s"
    and "svc_reachable memory_case_store nextID s1 s2"
    and "svc_exec memory_case_store nextID now2 req2 s2 = (Inr c2, s3)" and "ms_cases s3 \<noteq> ms_cases s2"
    and "wc_id c1 = wc_id c2" and "length (ms_events s3 (wc_id c2)) < 2 ^ 64"
  shows "cm_expected_revision (req_command req1) \<noteq> cm_expected_revision (req_command req2)"
proof -
  have wf: "wf_db (mem_view s)" by (rule mem_reach_wf [OF assms(1)])
  note succ1 = mem_exec_succ [OF assms(2,4)] and succ2 = mem_exec_succ [OF assms(3,7)]
  have "wf_db (mem_view s2)"
    using mem.reach_wf [OF assms(6)] db_succ_wf [OF succ1 keeps_text_same db_stored_same wf] by simp
  then have "cm_expected_revision (req_command req2) = of_nat (length (ms_events s2 (wc_id c2)))"
      "length (ms_events s3 (wc_id c2)) = Suc (length (ms_events s2 (wc_id c2)))"
    using fresh_revision [OF _ succ2] assms(8) by simp_all
  moreover have "cm_expected_revision (req_command req1) = of_nat (length (ms_events s (wc_id c2)))"
      "length (ms_events s1 (wc_id c2)) = Suc (length (ms_events s (wc_id c2)))"
    using fresh_revision [OF wf succ1] assms(5,9) by simp_all
  moreover have "length (ms_events s1 (wc_id c2)) \<le> length (ms_events s2 (wc_id c2))"
    using mem.reach_extends [OF assms(6), of "wc_id c2"] by auto
  ultimately show ?thesis
    using assms(10) by (simp add: of_nat_uint64_eq_iff)
qed

text \<open>
  C7: tenants are isolated.  A request of one enterprise and org scope leaves the snapshot and the
  event log of every case of another scope as they are, and reading such a case answers
  \<open>ErrNotFound\<close>, as for a case that does not exist.
\<close>
theorem requests_are_scope_isolated:
  assumes "nul_free (cm_enterprise_id (req_command req))"
    and "svc_exec memory_case_store nextID now req s = (r, s')"
    and "ms_cases s cid = Some c"
    and "wc_enterprise_id c \<noteq> cm_enterprise_id (req_command req) \<or> wc_org_scope c \<noteq> cm_org_scope (req_command req)"
  shows "ms_cases s' cid = Some c \<and> ms_events s' cid = ms_events s cid
       \<and> GetCase memory_case_store (cm_enterprise_id (req_command req)) (cm_org_scope (req_command req)) cid s' = Inl ErrNotFound"
  using db_succ_isolated [OF mem_exec_succ [OF assms(1,2)], of cid c] assms(3,4)
  by (auto simp: GetCase_def memory_case_store_def mem_get_def in_scope_def)

text \<open>
  C8: a case becomes completed only through \<open>CompleteCase\<close> with a non-empty outcome reference, on an
  executing case of the caller's own scope at the revision the caller expected.
\<close>
theorem completed_only_by_CompleteCase:
  assumes "nul_free (cm_enterprise_id (req_command req))"
    and "svc_exec memory_case_store nextID now req s = (r, s')"
    and "ms_cases s cid = Some c" and "wc_status c \<noteq> StatusCompleted"
    and "ms_cases s' cid = Some d" and "wc_status d = StatusCompleted"
  shows "\<exists>cmd ref. req = ReqCompleteCase cmd ref \<and> ref \<noteq> [] \<and> cm_case_id cmd = cid
       \<and> wc_status c = StatusExecuting \<and> wc_revision c = cm_expected_revision cmd
       \<and> wc_enterprise_id c = cm_enterprise_id cmd \<and> wc_org_scope c = cm_org_scope cmd"
proof (rule db_succ_snapshot [OF mem_exec_succ [OF assms(1,2)], of cid c])
  fix cmd et f d'
  assume p: "req_plan nextID req = Inr (cmd, et, f)" "cm_case_id cmd = cid" "et \<noteq> EventCaseCreated"
    "in_scope (cm_enterprise_id cmd) (cm_org_scope cmd) c" "wc_revision c = cm_expected_revision cmd"
    "f c = Inr d'" "db_cases (mem_view s') cid = Some (stored_case (\<lambda>s. s) d')"
  from p(7) assms(5) have "d' = d" by simp
  with completing_plan [OF p(1,3)] p(6) assms(6) obtain ref cmd' where
    "wc_status c = StatusExecuting" "req = ReqCompleteCase cmd' ref" "ref \<noteq> []" by blast
  with p req_plan_fields [OF p(1)] show ?thesis by (auto simp: in_scope_def)
qed (use assms in simp_all)


subsection \<open>Properties of the service on PostgreSQL\<close>

text \<open>
  C11: the service over PostgreSQL refines the service over the abstract store that keeps of a case
  what its JSON columns keep (\<open>stored_case clean\<close>): each request answers and acts as there, or ends
  with a store fault, and then the data is as before or as after the whole request.  This holds from
  any tables that satisfy their constraints, and the resulting tables satisfy them again.
\<close>
theorem service_on_postgres_refines:
  assumes "pg_inv (ps_tables s)" and "nul_free (cm_enterprise_id (req_command req))"
    and "svc_exec pg_case_store nextID now req s = (r, s')"
  shows "pg_inv (ps_tables s')
       \<and> ((r, pg_view (ps_tables s')) = svc_exec (spec_case_store clean) nextID now req (pg_view (ps_tables s))
          \<or> store_fault r \<and> pg_view (ps_tables s')
              \<in> {pg_view (ps_tables s), snd (svc_exec (spec_case_store clean) nextID now req (pg_view (ps_tables s)))})"
  using pg.svc_exec_refines [of s req nextID now r s'] pg.svc_exec_succ [of s req nextID now r s'] assms
  by (auto simp: pg_state_inv_def pg_state_view_def)

text \<open>
  C12: on PostgreSQL, too, a request that once succeeded never touches the data again: after any
  further history it fails with a store fault, or answers the case as the JSON columns kept it.  That
  is the first answer where its texts are valid UTF-8; an invalid byte of a plan comes back as U+FFFD.
\<close>
theorem postgres_retry_is_safe:
  assumes "pg_inv (ps_tables s)" and "nul_free (cm_enterprise_id (req_command req))"
    and "svc_exec pg_case_store nextID now req s = (Inr c, s1)"
    and "svc_reachable pg_case_store nextID s1 s2"
    and "svc_exec pg_case_store nextID now' req s2 = (r, s3)"
  shows "pg_view (ps_tables s3) = pg_view (ps_tables s2) \<and> (r = Inr (stored_case clean c) \<or> store_fault r)"
  using pg.retry_same [OF _ assms(2-5)] assms(1) by (simp add: pg_state_inv_def pg_state_view_def)

text \<open>
  C13: a key bound checked in bytes and stored in characters.  A creation whose idempotency key has
  fewer than 16 characters never succeeds on PostgreSQL, with a given or a generated case id, and
  leaves the tables as they are: the events table bounds \<open>char_length\<close>, although \<open>validateCommand\<close>,
  which bounds the bytes, can accept the key.
\<close>
theorem short_multibyte_key_never_created:
  assumes "rune_count (cm_idempotency_key cmd) < 16" and "pg_inv (ps_tables s)"
  shows "\<exists>e s'. Create pg_case_store nextID now cmd s = (Inl e, s') \<and> ps_tables s' = ps_tables s"
proof -
  have rejected: "\<exists>e s'. store_apply pg_case_store now c EventCaseCreated f s = (Inl e, s') \<and> ps_tables s' = ps_tables s"
    if "cm_idempotency_key c = cm_idempotency_key cmd" for c f
    using pg_apply_short_key [of c "ps_tables s"] assms that by (fastforce simp: pg_store_apply)
  show ?thesis
    by (auto simp: Create_def Let_def rejected split: option.splits sum.splits)
qed

subsection \<open>A concrete history\<close>

definition no_ids :: "string \<Rightarrow> string \<Rightarrow> wc_error + string" where
  "no_ids _ _ = Inl ErrStoreFailure"

definition sample_cmd :: "string \<Rightarrow> uint64 \<Rightarrow> wc_command" where
  "sample_cmd k r = \<lparr>cm_enterprise_id = ''t'', cm_org_scope = ''o'', cm_actor_ref = ''u'',
     cm_case_id = ''c'', cm_expected_revision = r, cm_idempotency_key = ''key-00000000000'' @ k\<rparr>"

definition sample_plan :: work_plan where
  "sample_plan = \<lparr>pl_revision = 0, pl_steps = []\<rparr>"

definition sample_reqs :: "svc_req list" where
  "sample_reqs = [ReqCreate (sample_cmd ''1'' 0), ReqProposePlan (sample_cmd ''2'' 1) sample_plan,
     ReqStartReview (sample_cmd ''3'' 2), ReqStartExecution (sample_cmd ''4'' 3),
     ReqCompleteCase (sample_cmd ''5'' 4) ''outcome-1'']"

definition sample_run :: "nat \<Rightarrow> memory_store" where
  "sample_run n = fold (\<lambda>req s. snd (svc_exec memory_case_store no_ids 0 req s)) (take n sample_reqs) NewMemoryStore"

definition sample_case :: "wc_status \<Rightarrow> uint64 \<Rightarrow> work_plan list \<Rightarrow> work_case" where
  "sample_case st r ps = \<lparr>wc_id = ''c'', wc_enterprise_id = ''t'', wc_org_scope = ''o'', wc_actor_ref = ''u'',
     wc_status = st, wc_revision = r, wc_plans = ps\<rparr>"

lemmas sample_eval = sample_reqs_def sample_cmd_def sample_plan_def sample_case_def svc_entry_defs memory_case_store_def mem_apply_def
  NewMemoryStore_def memKey_def nul_key_def NUL_def validateCommand_def minIdempotencyKeyLen_def maxIdempotencyKeyLen_def
  create_mutate_def propose_plan_mutate_def next_plan_revision_def start_review_mutate_def start_execution_mutate_def
  complete_mutate_def in_scope_def ValidatePlan_def zero_case_def Let_def

lemma sample_run_Suc:
  "n < 5 \<Longrightarrow> sample_run (Suc n) = snd (svc_exec memory_case_store no_ids 0 (sample_reqs ! n) (sample_run n))"
proof -
  assume "n < 5"
  then have "take (Suc n) sample_reqs = take n sample_reqs @ [sample_reqs ! n]"
    by (intro take_Suc_conv_app_nth) (simp add: sample_reqs_def)
  then show ?thesis by (simp add: sample_run_def)
qed

lemma sample_nul_free: "n < 5 \<Longrightarrow> nul_free (cm_enterprise_id (req_command (sample_reqs ! n)))"
  by (auto simp: sample_reqs_def sample_cmd_def nul_free_def NUL_def less_Suc_eq numeral_eq_Suc)

lemma sample_reachable: "n \<le> 5 \<Longrightarrow> m \<le> n \<Longrightarrow> svc_reachable memory_case_store no_ids (sample_run m) (sample_run n)"
proof (induction n)
  case (Suc n)
  show ?case
  proof (cases "m = Suc n")
    case True
    then show ?thesis by (simp add: svc_reachable.start)
  next
    case False
    with Suc have n: "n < 5" and r: "svc_reachable memory_case_store no_ids (sample_run m) (sample_run n)" by simp_all
    show ?thesis
      using svc_reachable.command [OF r sample_nul_free [OF n]] by (simp add: sample_run_Suc [OF n])
  qed
qed (simp add: svc_reachable.start)

lemma sample_run_0: "sample_run 0 = NewMemoryStore"
  by (simp add: sample_run_def)

lemma sample_run_cases:
  "ms_cases (sample_run (Suc 0)) = [''c'' \<mapsto> sample_case StatusDraft 1 []]"
  "ms_cases (sample_run 2) = [''c'' \<mapsto> sample_case StatusDraft 2 [sample_plan\<lparr>pl_revision := 1\<rparr>]]"
  "ms_cases (sample_run 4) = [''c'' \<mapsto> sample_case StatusExecuting 4 [sample_plan\<lparr>pl_revision := 1\<rparr>]]"
  "ms_cases (sample_run 5) = [''c'' \<mapsto> sample_case StatusCompleted 5 [sample_plan\<lparr>pl_revision := 1\<rparr>]]"
  "length (ms_events (sample_run 2) ''c'') = 2"
  by (simp_all add: sample_run_def sample_eval fun_eq_iff)

lemma sample_results:
  "svc_exec memory_case_store no_ids 0 (sample_reqs ! 0) (sample_run 0) = (Inr (sample_case StatusDraft 1 []), sample_run 1)"
  "svc_exec memory_case_store no_ids 0 (sample_reqs ! 1) (sample_run 1)
     = (Inr (sample_case StatusDraft 2 [sample_plan\<lparr>pl_revision := 1\<rparr>]), sample_run 2)"
  "svc_exec memory_case_store no_ids 0 (sample_reqs ! 4) (sample_run 4)
     = (Inr (sample_case StatusCompleted 5 [sample_plan\<lparr>pl_revision := 1\<rparr>]), sample_run 5)"
  by (simp_all add: sample_run_def sample_eval)

lemma case_history_well_formed_witness:
  "wc_revision (sample_case StatusCompleted 5 [sample_plan\<lparr>pl_revision := 1\<rparr>]) = of_nat (length (ms_events (sample_run 5) ''c''))"
  using case_history_well_formed [OF sample_reachable [of 5 0, unfolded sample_run_0], of "''c''"] by (simp add: sample_run_cases)

lemma retried_request_replays_witness:
  "fst (svc_exec memory_case_store no_ids 7 (sample_reqs ! 0) (sample_run 5)) = Inr (sample_case StatusDraft 1 [])"
  using retried_request_replays [OF sample_nul_free sample_results(1) sample_reachable, of 5 7] by simp

lemma sample_changes:
  "ms_cases (sample_run 1) \<noteq> ms_cases NewMemoryStore"
  "ms_cases (sample_run 2) \<noteq> ms_cases (sample_run 1)"
proof -
  show "ms_cases (sample_run 1) \<noteq> ms_cases NewMemoryStore"
    by (simp add: sample_run_cases NewMemoryStore_def)
  have "ms_cases (sample_run 2) ''c'' \<noteq> ms_cases (sample_run 1) ''c''"
    by (simp add: sample_run_cases sample_case_def)
  then show "ms_cases (sample_run 2) \<noteq> ms_cases (sample_run 1)" by metis
qed

lemma no_lost_update_witness:
  "cm_expected_revision (req_command (sample_reqs ! 0)) \<noteq> cm_expected_revision (req_command (sample_reqs ! 1))"
proof (rule no_lost_update [OF sample_reachable [of 0 0, unfolded sample_run_0] sample_nul_free [of 0] sample_nul_free [of 1]
      sample_results(1) [unfolded sample_run_0] sample_changes(1) sample_reachable [of 1 1] sample_results(2) sample_changes(2)])
qed (simp_all add: sample_case_def sample_run_cases)

lemma requests_are_scope_isolated_witness:
  "ms_cases (snd (svc_exec memory_case_store no_ids 0 (ReqCreate (sample_cmd ''9'' 0 \<lparr>cm_org_scope := ''p''\<rparr>)) (sample_run 1))) ''c''
     = Some (sample_case StatusDraft 1 [])"
  using requests_are_scope_isolated [of "ReqCreate (sample_cmd ''9'' 0 \<lparr>cm_org_scope := ''p''\<rparr>)" no_ids 0 "sample_run 1"
      "fst (svc_exec memory_case_store no_ids 0 (ReqCreate (sample_cmd ''9'' 0 \<lparr>cm_org_scope := ''p''\<rparr>)) (sample_run 1))"
      "snd (svc_exec memory_case_store no_ids 0 (ReqCreate (sample_cmd ''9'' 0 \<lparr>cm_org_scope := ''p''\<rparr>)) (sample_run 1))"
      "''c''" "sample_case StatusDraft 1 []"]
  by (simp add: sample_run_cases) (auto simp: sample_cmd_def sample_case_def nul_free_def NUL_def sample_run_cases)

lemma completed_only_by_CompleteCase_witness:
  "\<exists>cmd ref. sample_reqs ! 4 = ReqCompleteCase cmd ref \<and> ref \<noteq> []"
  using completed_only_by_CompleteCase [OF sample_nul_free sample_results(3), of "''c''"
      "sample_case StatusExecuting 4 [sample_plan\<lparr>pl_revision := 1\<rparr>]"]
  by (simp add: sample_run_cases) (auto simp: sample_case_def)


definition sample_pg :: pg_state where
  "sample_pg = \<lparr>ps_tables = empty_tables, ps_faults = (\<lambda>_ _. False), ps_calls = 0\<rparr>"

lemma sample_texts: "text_ok ''c''" "text_ok ''key-000000000001''" "text_ok ''key-000000000002''"
  by (rule text_ok_ascii; simp add: byte_def nul_free_def NUL_def)+

lemmas pg_eval = svc_entry_defs validateCommand_def minIdempotencyKeyLen_def maxIdempotencyKeyLen_def
  sample_cmd_def pg_case_store_def pg_apply_def pg_apply_between_def pg_read_def pg_decide_def
  select_replay_def select_event_def select_case_def zero_case_def pg_write_def write_snapshot_def insert_case_def update_case_def
  write_event_def insert_event_def event_row_def status_column_ok_def bigint_ok_def bigint_param_def byte_def sample_case_def
  race_texts sample_texts jsonb_ok_def case_texts_def plans_texts_def nul_free_def NUL_def in_scope_def
  create_mutate_def sample_reqs_def json_case_def stored_case_def

definition sample_pg_created :: pg_state where
  "sample_pg_created = snd (svc_exec pg_case_store no_ids 0 (sample_reqs ! 0) sample_pg)"

lemma sample_pg_create:
  "svc_exec pg_case_store no_ids 0 (sample_reqs ! 0) sample_pg = (Inr (sample_case StatusDraft 1 []), sample_pg_created)"
proof -
  have "fst (svc_exec pg_case_store no_ids 0 (sample_reqs ! 0) sample_pg) = Inr (sample_case StatusDraft 1 [])"
    by (simp add: pg_eval sample_pg_def empty_tables_def)
  then show ?thesis by (simp add: sample_pg_created_def prod_eq_iff)
qed

text \<open>A plan with a step id that is no valid UTF-8, proposed on the case just created.\<close>

definition odd_plan :: work_plan where
  "odd_plan = \<lparr>pl_revision = 0, pl_steps = [\<lparr>st_id = [CHR 0xFF], st_status = StepPending, st_evidence = [], st_action = None\<rparr>]\<rparr>"

definition odd_req :: svc_req where
  "odd_req = ReqProposePlan (sample_cmd ''2'' 1) odd_plan"

lemma odd_answer:
  "\<exists>s'. svc_exec pg_case_store no_ids 0 odd_req sample_pg_created = (Inr (sample_case StatusDraft 2 [odd_plan\<lparr>pl_revision := 1\<rparr>]), s')"
proof -
  have "fst (svc_exec pg_case_store no_ids 0 odd_req sample_pg_created) = Inr (sample_case StatusDraft 2 [odd_plan\<lparr>pl_revision := 1\<rparr>])"
    by (simp add: sample_pg_created_def odd_req_def odd_plan_def pg_eval sample_pg_def empty_tables_def append_outbox_def
        propose_plan_mutate_def next_plan_revision_def ValidatePlan_def write_without_policy_def step_texts_def clean_ascii)
  then show ?thesis by (metis prod.collapse)
qed

lemma odd_kept: "stored_case clean (sample_case StatusDraft 2 [odd_plan\<lparr>pl_revision := 1\<rparr>]) \<noteq> sample_case StatusDraft 2 [odd_plan\<lparr>pl_revision := 1\<rparr>]"
  by (simp add: stored_case_def sample_case_def odd_plan_def stored_plan_def stored_step_def clean_Cons bad_head_def
      replacement_def byte_def)

lemma service_on_postgres_refines_witness:
  "pg_inv (ps_tables sample_pg_created)
   \<and> svc_exec pg_case_store no_ids 0 (sample_reqs ! 0) sample_pg = (Inr (sample_case StatusDraft 1 []), sample_pg_created)"
  using service_on_postgres_refines [of sample_pg "sample_reqs ! 0" no_ids 0] sample_pg_create empty_inv sample_nul_free [of 0]
  by (auto simp: sample_pg_def)

lemma postgres_retry_is_safe_witness:
  "\<exists>s1 c. svc_exec pg_case_store no_ids 0 odd_req sample_pg_created = (Inr c, s1)
     \<and> stored_case clean c \<noteq> c
     \<and> (\<forall>r s3. svc_exec pg_case_store no_ids 9 odd_req s1 = (r, s3) \<longrightarrow> r = Inr (stored_case clean c) \<or> store_fault r)"
proof -
  have inv: "pg_inv (ps_tables sample_pg_created)"
    using pg.svc_exec_succ [OF _ _ sample_pg_create] empty_inv sample_nul_free [of 0]
    by (simp add: sample_pg_def pg_state_inv_def)
  have nul: "nul_free (cm_enterprise_id (req_command odd_req))" by (simp add: odd_req_def sample_cmd_def nul_free_def NUL_def)
  obtain s1 where x: "svc_exec pg_case_store no_ids 0 odd_req sample_pg_created
      = (Inr (sample_case StatusDraft 2 [odd_plan\<lparr>pl_revision := 1\<rparr>]), s1)"
    using odd_answer by blast
  show ?thesis
    using postgres_retry_is_safe [OF inv nul x svc_reachable.start] x odd_kept by blast
qed

text \<open>Eight two-byte characters: 16 bytes.\<close>

definition short_key_cmd :: wc_command where
  "short_key_cmd = (sample_cmd ''1'' 0)\<lparr>cm_idempotency_key := concat (replicate 8 [CHR 0xC3, CHR 0xA9]), cm_case_id := []\<rparr>"

lemma short_multibyte_key_never_created_witness:
  "validateCommand short_key_cmd = None
   \<and> (\<exists>e s'. Create pg_case_store (\<lambda>_ _. Inr ''case_1'') 0 short_key_cmd sample_pg = (Inl e, s') \<and> ps_tables s' = empty_tables)"
proof -
  have "rune_count (cm_idempotency_key short_key_cmd) = 8"
    by (simp add: short_key_cmd_def numeral_eq_Suc rune_count.simps(2) byte_in_def byte_def)
  then have "\<exists>e s'. Create pg_case_store (\<lambda>_ _. Inr ''case_1'') 0 short_key_cmd sample_pg = (Inl e, s') \<and> ps_tables s' = empty_tables"
    using short_multibyte_key_never_created [of short_key_cmd sample_pg "\<lambda>_ _. Inr ''case_1''" 0] empty_inv
    by (simp add: sample_pg_def)
  moreover have "validateCommand short_key_cmd = None"
    by (simp add: short_key_cmd_def validateCommand_def sample_cmd_def minIdempotencyKeyLen_def maxIdempotencyKeyLen_def numeral_eq_Suc)
  ultimately show ?thesis by simp
qed

end
