(* ===== verification/OutClosure.thy ===== *)
theory OutClosure
  imports OutEval WcHistory
begin

text \<open>
  The closure service, the second half of \<^verbatim>\<open>internal/outcome/evaluator.go\<close>: \<open>ClosureService.Apply\<close> over an
  outcome store and the \<open>CaseCloser\<close> port, which \<open>workcase.Service.CompleteCase\<close> implements.

  \<^item> \<open>case_closer_contract\<close> is what the service relies on of the port, kept by \<open>CompleteCase\<close> over every
    case store that keeps its own contract.
  \<^item> \<open>closure_services\<close> joins it with the contract of the outcome store.
  \<^item> \<open>sys_reach\<close> runs the work-case service, the evaluator and the closure service together.

  \<open>Apply\<close> reads the outcome store twice; the model takes the store state of each read, so that other
  commits may fall between them.
\<close>

subsection \<open>The port and the service\<close>

record 'c case_closer =
  cl_complete :: "string \<Rightarrow> string \<Rightarrow> string \<Rightarrow> string \<Rightarrow> uint64 \<Rightarrow> string \<Rightarrow> string \<Rightarrow> 'c \<Rightarrow> (wc_error + work_case) \<times> 'c"

record outcome_ref =
  of_tenant :: string
  of_outcome_key :: string
  of_revision :: uint64
  of_org_scope :: string
  of_actor_ref :: string
  of_case_id :: string

datatype closure_err =
    ErrClosureStore out_store_err
  | ErrOutcomeSuperseded
  | ErrNotSatisfiedForClosure
  | ErrClosureCaseMismatch
  | ErrClosureCase wc_error

definition zero_outcome :: outcome where
  "zero_outcome = \<lparr>out_id = [], out_tenant = [], out_key = [], out_revision = 0,
     out_claim = \<lparr>ocl_goal = \<lparr>gl_tenant = [], gl_goal_key = [], gl_goal_version = 0\<rparr>, ocl_status = OutcomeOther [],
       ocl_rule_version = [], ocl_evidence = [], ocl_observations = [], ocl_blockers = [], ocl_confidence = []\<rparr>,
     out_work_case_id = [], out_work_case_revision = 0, out_work_plan_revision = 0, out_operating_map_version = 0,
     out_org_version = 0, out_action_receipts = [], out_contributions = [], out_decided_at = 0, out_supersedes = None\<rparr>"

record closure_result =
  cr_completed :: bool
  cr_case :: work_case
  cr_outcome :: outcome

definition no_closure :: "outcome \<Rightarrow> closure_result" where
  "no_closure x = \<lparr>cr_completed = False, cr_case = zero_case, cr_outcome = x\<rparr>"

definition closure_check :: "'s outcome_ops \<Rightarrow> outcome_ref \<Rightarrow> 's \<Rightarrow> 's \<Rightarrow> closure_err option \<times> outcome" where
  "closure_check S ref s1 s2 =
     (case oo_get S (of_tenant ref) (of_outcome_key ref) (of_revision ref) s1 of
        Inl e \<Rightarrow> (Some (ErrClosureStore e), zero_outcome)
      | Inr x \<Rightarrow>
          (case oo_latest S (of_tenant ref) (of_outcome_key ref) s2 of
             Inl e \<Rightarrow> (Some (ErrClosureStore e), zero_outcome)
           | Inr head \<Rightarrow>
               if of_revision ref \<noteq> out_revision head then (Some ErrOutcomeSuperseded, head)
               else if ocl_status (out_claim x) \<noteq> OutcomeSatisfied then (Some ErrNotSatisfiedForClosure, x)
               else if out_work_case_id x \<noteq> of_case_id ref then (Some ErrClosureCaseMismatch, x)
               else (None, x)))"

definition Apply ::
    "'s outcome_ops \<Rightarrow> 'c case_closer \<Rightarrow> outcome_ref \<Rightarrow> uint64 \<Rightarrow> string \<Rightarrow> 's \<Rightarrow> 's \<Rightarrow> 'c
      \<Rightarrow> (closure_err option \<times> closure_result) \<times> 'c" where
  "Apply S C ref expectedCaseRevision idempotencyKey s1 s2 c =
     (case closure_check S ref s1 s2 of
        (Some e, x) \<Rightarrow> ((Some e, no_closure x), c)
      | (None, x) \<Rightarrow>
          (case cl_complete C (of_tenant ref) (of_org_scope ref) (of_actor_ref ref) (of_case_id ref) expectedCaseRevision
                  idempotencyKey (out_id x) c of
             (Inl e, c') \<Rightarrow> ((Some (ErrClosureCase e), no_closure x), c')
           | (Inr wc, c') \<Rightarrow> ((None, \<lparr>cr_completed = True, cr_case = wc, cr_outcome = x\<rparr>), c')))"

definition closing_command :: "string \<Rightarrow> string \<Rightarrow> string \<Rightarrow> string \<Rightarrow> uint64 \<Rightarrow> string \<Rightarrow> wc_command" where
  "closing_command ent org actor cid rn key = \<lparr>cm_enterprise_id = ent, cm_org_scope = org, cm_actor_ref = actor,
     cm_case_id = cid, cm_expected_revision = rn, cm_idempotency_key = key\<rparr>"

definition service_closer :: "'c case_store \<Rightarrow> go_time \<Rightarrow> 'c case_closer" where
  "service_closer S now = \<lparr>cl_complete = (\<lambda>ent org actor cid rn key ref.
     CompleteCase S now (closing_command ent org actor cid rn key) ref)\<rparr>"

subsection \<open>Completion on the abstract data\<close>

definition completes :: "wc_command \<Rightarrow> case_db \<Rightarrow> case_db \<Rightarrow> work_case \<Rightarrow> bool" where
  "completes cmd db db' d \<longleftrightarrow>
     (\<exists>cur now. db_cases db (cm_case_id cmd) = Some cur \<and> in_scope (cm_enterprise_id cmd) (cm_org_scope cmd) cur
        \<and> wc_status cur = StatusExecuting \<and> wc_revision cur = cm_expected_revision cmd
        \<and> d = cur\<lparr>wc_status := StatusCompleted, wc_revision := wc_revision cur + 1\<rparr>
        \<and> db' = record_event now cmd EventStepTransitioned d db)"

lemma CompleteCase_spec:
  assumes "CompleteCase (spec_case_store tx) now cmd ref db = (r, db')" and "db_stored tx db"
  shows "(db' = db \<and> (\<forall>d. r = Inr d \<longrightarrow> db_replay db (cm_enterprise_id cmd) (cm_idempotency_key cmd) = Some (cm_case_id cmd, d)
            \<and> wc_org_scope d = cm_org_scope cmd))
       \<or> (\<exists>d. r = Inr d \<and> completes cmd db db' d)"
proof (cases "r")
  case (Inr d)
  then have "spec_apply tx now cmd EventStepTransitioned complete_mutate db = (Inr d, db')"
    using assms(1) by (auto simp: CompleteCase_def spec_case_store_def split: option.splits if_splits)
  then show ?thesis
  proof (rule spec_apply_Inr_cases)
    fix cur
    assume "precheck cmd EventStepTransitioned db = Inr cur" "complete_mutate cur = Inr d"
      "db' = record_event now cmd EventStepTransitioned (stored_case tx d) db"
    moreover have "stored_case tx d = d"
    proof -
      have "stored_case tx cur = cur"
        using calculation(1) precheck_Inr [of cmd EventStepTransitioned db cur] assms(2) by (auto simp: db_stored_def)
      then show ?thesis using calculation(2) by (cases cur) (auto simp: complete_mutate_def stored_case_def split: if_splits)
    qed
    ultimately show ?thesis
      using precheck_Inr [of cmd EventStepTransitioned db cur] Inr
      unfolding completes_def by (auto simp: complete_mutate_def split: if_splits)
  qed (use Inr in simp)
next
  case (Inl e)
  then have "db' = db"
    using assms(1) by (auto simp: CompleteCase_def spec_case_store_def spec_apply_def split: option.splits if_splits sum.splits)
  with Inl show ?thesis by simp
qed

subsection \<open>The contract of the port\<close>

locale case_closer_contract =
  fixes C :: "'c case_closer"
    and view :: "'c \<Rightarrow> case_db"
    and inv :: "'c \<Rightarrow> bool"
    and tx :: "string \<Rightarrow> string"
  assumes kept_law: "inv s \<Longrightarrow> db_stored tx (view s)"
    and complete_law: "inv s \<Longrightarrow> nul_free ent \<Longrightarrow> cl_complete C ent org actor cid rn key ref s = (r, s') \<Longrightarrow>
      (\<exists>now. (r, view s') = CompleteCase (spec_case_store tx) now (closing_command ent org actor cid rn key) ref (view s)
        \<or> (store_fault r \<and> view s' \<in> {view s,
            snd (CompleteCase (spec_case_store tx) now (closing_command ent org actor cid rn key) ref (view s))}))
      \<and> inv s'"
begin

text \<open>A completion changes the data only by completing the case it names.\<close>

lemma complete_effect:
  assumes "inv s" and "nul_free ent" and "cl_complete C ent org actor cid rn key ref s = (r, s')"
  shows "view s' = view s \<or> (\<exists>d. (r = Inr d \<or> store_fault r) \<and> completes (closing_command ent org actor cid rn key) (view s) (view s') d)"
proof -
  obtain now where l: "(r, view s') = CompleteCase (spec_case_store tx) now (closing_command ent org actor cid rn key) ref (view s)
      \<or> (store_fault r \<and> view s' \<in> {view s,
          snd (CompleteCase (spec_case_store tx) now (closing_command ent org actor cid rn key) ref (view s))})"
    using complete_law [OF assms] by blast
  obtain r' db' where c: "CompleteCase (spec_case_store tx) now (closing_command ent org actor cid rn key) ref (view s) = (r', db')"
    by (cases "CompleteCase (spec_case_store tx) now (closing_command ent org actor cid rn key) ref (view s)") auto
  show ?thesis using l CompleteCase_spec [OF c kept_law [OF assms(1)]] c by auto
qed

end

locale closure_services = outcome_chain_store fmt S chains + case_closer_contract C view inv tx
  for fmt :: json_fmt and S :: "'s outcome_ops" and chains :: "'s \<Rightarrow> chains"
    and C :: "'c case_closer" and view :: "'c \<Rightarrow> case_db" and inv :: "'c \<Rightarrow> bool" and tx :: "string \<Rightarrow> string"
begin

text \<open>An outcome that passes the checks is in the chain of both reads, satisfied and bound to the case.\<close>

lemma closure_check_None:
  assumes "closure_check S ref s1 s2 = (None, x)" and "nul_free (of_tenant ref)"
  shows "x \<in> set (chains s1 (of_tenant ref) (of_outcome_key ref)) \<and> ocl_status (out_claim x) = OutcomeSatisfied
       \<and> out_work_case_id x = of_case_id ref \<and> out_revision x = of_revision ref"
proof -
  have g: "oo_get S (of_tenant ref) (of_outcome_key ref) (of_revision ref) s1 = Inr x"
    and st: "ocl_status (out_claim x) = OutcomeSatisfied" "out_work_case_id x = of_case_id ref"
    using assms(1) by (auto simp: closure_check_def split: sum.splits if_splits)
  from g get_law [OF assms(2), of "of_outcome_key ref" "of_revision ref" s1]
  have "find (\<lambda>x. out_revision x = of_revision ref) (chains s1 (of_tenant ref) (of_outcome_key ref)) = Some x"
    by (auto simp: spec_revision_def out_fault_def split: option.splits)
  with st show ?thesis using find_Some_set by (metis (mono_tags, lifting))
qed

lemma closure_check_head:
  assumes "closure_check S ref s s = (None, x)" and "nul_free (of_tenant ref)" and "chains_ok (chains s)"
    and "length (chains s (of_tenant ref) (of_outcome_key ref)) < 2 ^ 64"
  shows "chains s (of_tenant ref) (of_outcome_key ref) \<noteq> [] \<and> x = last (chains s (of_tenant ref) (of_outcome_key ref))"
proof -
  obtain h where "oo_get S (of_tenant ref) (of_outcome_key ref) (of_revision ref) s = Inr x"
      "oo_latest S (of_tenant ref) (of_outcome_key ref) s = Inr h" "out_revision h = of_revision ref"
    using assms(1) by (auto simp: closure_check_def split: sum.splits if_splits)
  then show ?thesis using current_head [OF assms(2) _ _ _ assms(3,4)] by blast
qed

lemma Apply_effect:
  assumes "inv c" and "nul_free (of_tenant ref)" and "Apply S C ref rn key s1 s2 c = ((e, res), c')"
  shows "inv c' \<and> (view c' = view c
       \<or> (\<exists>x d. closure_check S ref s1 s2 = (None, x) \<and> (e = None \<longrightarrow> cr_case res = d \<and> cr_outcome res = x)
            \<and> completes (closing_command (of_tenant ref) (of_org_scope ref) (of_actor_ref ref) (of_case_id ref) rn key)
                (view c) (view c') d))"
proof (cases "closure_check S ref s1 s2")
  case (Pair err x)
  show ?thesis
  proof (cases err)
    case None
    obtain r c1 where r: "cl_complete C (of_tenant ref) (of_org_scope ref) (of_actor_ref ref) (of_case_id ref) rn key (out_id x) c = (r, c1)"
      by (cases "cl_complete C (of_tenant ref) (of_org_scope ref) (of_actor_ref ref) (of_case_id ref) rn key (out_id x) c") auto
    with assms(3) Pair None have c': "c' = c1"
      "e = None \<Longrightarrow> r = Inr (cr_case res) \<and> cr_outcome res = x" by (auto simp: Apply_def split: sum.splits)
    show ?thesis
      using complete_effect [OF assms(1,2) r] complete_law [OF assms(1,2) r] c' Pair None
      by (cases r) (auto simp: store_fault_def)
  qed (use assms Pair in \<open>auto simp: Apply_def\<close>)
qed

end

subsection \<open>The port on the case stores\<close>

context case_store_contract
begin

lemma service_closer_law:
  assumes "inv s" and "nul_free ent" and "cl_complete (service_closer S now) ent org actor cid rn key ref s = (r, s')"
  shows "((r, view s') = CompleteCase (spec_case_store tx) now (closing_command ent org actor cid rn key) ref (view s)
      \<or> (store_fault r \<and> view s' \<in> {view s,
            snd (CompleteCase (spec_case_store tx) now (closing_command ent org actor cid rn key) ref (view s))}))
      \<and> inv s'"
proof -
  have x: "svc_exec S (\<lambda>_ _. Inl ErrStoreFailure) now (ReqCompleteCase (closing_command ent org actor cid rn key) ref) s = (r, s')"
    using assms(3) by (simp add: service_closer_def)
  have n: "nul_free (cm_enterprise_id (req_command (ReqCompleteCase (closing_command ent org actor cid rn key) ref)))"
    using assms(2) by (simp add: closing_command_def)
  show ?thesis using svc_exec_refines [OF assms(1) n x] svc_exec_succ [OF assms(1) n x] by simp
qed

end

sublocale case_store_contract \<subseteq> service: case_closer_contract "service_closer S now" view inv tx for now
  by unfold_locales (use service_closer_law stored_law in blast)+

interpretation memc: case_closer_contract "service_closer memory_case_store now" mem_view "\<lambda>_. True" "\<lambda>s. s" for now
  by (rule mem.service.case_closer_contract_axioms)

interpretation mem_closure: closure_services fmt "outcome_memory_ops fmt" om_chains "service_closer memory_case_store now"
    mem_view "\<lambda>_. True" "\<lambda>s. s" for fmt now
  by unfold_locales

subsection \<open>Properties of closure on the in-memory stores\<close>

text \<open>
  C27: closure completes only the current satisfied outcome's case.  When \<open>Apply\<close> succeeds on a store
  whose chains are well formed, the outcome it applied is the head of its chain, is satisfied and names
  the case of the reference; the case data is then either unchanged (the key had been used: a replay) or the case, which was
  executing at the expected revision in the caller's scope, is completed.  A failing \<open>Apply\<close> changes
  nothing.
\<close>
theorem closure_applies_current_satisfied_head:
  assumes "Apply (outcome_memory_ops fmt) (service_closer memory_case_store now) ref rn key s s c = ((e, res), c')"
    and "nul_free (of_tenant ref)" and "chains_ok (om_chains s)"
    and "length (om_chains s (of_tenant ref) (of_outcome_key ref)) < 2 ^ 64"
  shows "case e of
      Some _ \<Rightarrow> mem_view c' = mem_view c
    | None \<Rightarrow> om_chains s (of_tenant ref) (of_outcome_key ref) \<noteq> []
        \<and> cr_outcome res = last (om_chains s (of_tenant ref) (of_outcome_key ref))
        \<and> ocl_status (out_claim (cr_outcome res)) = OutcomeSatisfied \<and> out_work_case_id (cr_outcome res) = of_case_id ref
        \<and> (mem_view c' = mem_view c
           \<or> completes (closing_command (of_tenant ref) (of_org_scope ref) (of_actor_ref ref) (of_case_id ref) rn key)
               (mem_view c) (mem_view c') (cr_case res))"
proof -
  note check = mem_closure.closure_check_head [OF _ assms(2-4)] mem_closure.closure_check_None [OF _ assms(2)]
  obtain err x where c: "closure_check (outcome_memory_ops fmt) ref s s = (err, x)" by fastforce
  show ?thesis
  proof (cases err)
    case (Some er)
    with c assms(1) show ?thesis by (auto simp: Apply_def)
  next
    case None
    let ?cmd = "closing_command (of_tenant ref) (of_org_scope ref) (of_actor_ref ref) (of_case_id ref) rn key"
    obtain r c1 where r: "CompleteCase memory_case_store now ?cmd (out_id x) c = (r, c1)" by fastforce
    have n: "nul_free (cm_enterprise_id ?cmd)" using assms(2) by (simp add: closing_command_def)
    have "(r, mem_view c1) = CompleteCase (spec_case_store (\<lambda>s. s)) now ?cmd (out_id x) (mem_view c)"
      using mem.exec_exact [OF TrueI, of "ReqCompleteCase ?cmd (out_id x)" "\<lambda>_ _. Inl ErrStoreFailure" now c] n r by simp
    from CompleteCase_spec [OF this [symmetric] db_stored_same] show ?thesis
      using assms(1) c None r check by (cases r) (auto simp: Apply_def service_closer_def)
  qed
qed

text \<open>
  C28: a redelivered closure does nothing.  Once \<open>Apply\<close> has succeeded, applying the same reference with
  the same key again, after any further history of the case service and of the outcome store, leaves
  all case data as it is, and when it succeeds it reports the same case.
\<close>
theorem redelivered_closure_is_noop:
  assumes "Apply (outcome_memory_ops fmt) (service_closer memory_case_store now) ref rn key s1 s2 c = ((None, res), c1)"
    and "nul_free (of_tenant ref)"
    and "svc_reachable memory_case_store nextID c1 c2"
    and "Apply (outcome_memory_ops fmt) (service_closer memory_case_store now') ref rn key s3 s4 c2 = ((e, res'), c3)"
  shows "mem_view c3 = mem_view c2 \<and> (e = None \<longrightarrow> cr_case res' = cr_case res)"
proof -
  let ?cmd = "closing_command (of_tenant ref) (of_org_scope ref) (of_actor_ref ref) (of_case_id ref) rn key"
  obtain x where x: "closure_check (outcome_memory_ops fmt) ref s1 s2 = (None, x)"
    and first: "CompleteCase memory_case_store now ?cmd (out_id x) c = (Inr (cr_case res), c1)"
    using assms(1) by (auto simp: Apply_def service_closer_def split: prod.splits option.splits sum.splits)
  obtain err y where y: "closure_check (outcome_memory_ops fmt) ref s3 s4 = (err, y)" by fastforce
  have n: "nul_free (cm_enterprise_id ?cmd)" using assms(2) by (simp add: closing_command_def)
  show ?thesis
  proof (cases "err = None \<and> out_id y \<noteq> []")
    case True
    then have "svc_exec memory_case_store nextID now (ReqCompleteCase ?cmd (out_id y)) c = (Inr (cr_case res), c1)"
      using first by (auto simp: CompleteCase_def split: option.splits if_splits)
    from mem.retry_exact [OF TrueI _ this assms(3), of now'] n
    have again: "fst (CompleteCase memory_case_store now' ?cmd (out_id y) c2) = Inr (cr_case res)"
      "mem_view (snd (CompleteCase memory_case_store now' ?cmd (out_id y) c2)) = mem_view c2" by simp_all
    obtain r c4 where "CompleteCase memory_case_store now' ?cmd (out_id y) c2 = (r, c4)" by fastforce
    with again assms(4) y True show ?thesis by (auto simp: Apply_def service_closer_def)
  next
    case False
    then show ?thesis
      using assms(4) y by (cases err) (auto simp: Apply_def service_closer_def CompleteCase_def split: option.splits if_splits)
  qed
qed

text \<open>
  C29: but a success need not be a completion.  When the idempotency key was used before by any other
  command on the same case (starting its execution, say), \<open>Apply\<close> replays that record: it reports
  \<open>Completed\<close> with the recorded case, whatever its status, and completes nothing.
\<close>
theorem reused_key_reports_completion:
  assumes "closure_check (outcome_memory_ops fmt) ref s1 s2 = (None, x)" and "out_id x \<noteq> []"
    and "validateCommand (closing_command (of_tenant ref) (of_org_scope ref) (of_actor_ref ref) (of_case_id ref) rn key) = None"
    and "of_case_id ref \<noteq> []" and "ms_idempotency c (memKey (of_tenant ref) key) = Some (of_case_id ref, d)"
    and "wc_org_scope d = of_org_scope ref"
  shows "Apply (outcome_memory_ops fmt) (service_closer memory_case_store now) ref rn key s1 s2 c
       = ((None, \<lparr>cr_completed = True, cr_case = d, cr_outcome = x\<rparr>), c)"
proof -
  have "mem_apply now (closing_command (of_tenant ref) (of_org_scope ref) (of_actor_ref ref) (of_case_id ref) rn key)
      EventStepTransitioned complete_mutate c = (Inr d, c)"
    using assms(5,6) by (simp add: mem_apply_def closing_command_def Let_def)
  then show ?thesis
    using assms(1-4) by (simp add: Apply_def service_closer_def CompleteCase_def memory_case_store_def closing_command_def)
qed

subsection \<open>The services together\<close>

lemma Evaluate_exec:
  assumes "nul_free (ec_tenant cmd)"
  shows "\<exists>reqs. list_all plain_req reqs
     \<and> snd (Evaluate_outcome E (outcome_memory_ops (de_fmt E)) cmd s) = fold (outcome_exec (de_fmt E)) reqs s"
proof (cases "Decide E cmd")
  case (Inl e)
  then show ?thesis by (intro exI [of _ "[]"]) (simp add: Evaluate_outcome_def)
next
  case (Inr x)
  let ?ops = "outcome_memory_ops (de_fmt E)"
  obtain r1 s1 where a: "oo_append ?ops x s = (r1, s1)" by fastforce
  have t: "out_tenant x = ec_tenant cmd" using Inr by (auto simp: Decide_Inr)
  have s1: "s1 = outcome_exec (de_fmt E) (ReqAppend x) s" using a by (simp add: outcome_memory_ops_def)
  show ?thesis
  proof (cases r1)
    case (Inl e)
    then show ?thesis using a s1 Inr t assms
      by (intro exI [of _ "[ReqAppend x]"]) (simp add: Evaluate_outcome_def)
  next
    case 2: (Inr y)
    let ?ns = "outcome_node y # map snd (outcome_targets y)"
      and ?es = "map (\<lambda>(t, n). graph_edge (out_tenant y) t (outcome_node y) n) (outcome_targets y)"
    obtain l s2 where b: "oo_lineage ?ops ?ns ?es s1 = (l, s2)" by fastforce
    have s2: "s2 = outcome_exec (de_fmt E) (ReqLineage ?ns ?es) s1" using b by (simp add: outcome_memory_ops_def)
    obtain p s3 where d: "oo_project ?ops (outcome_event (de_fmt E) y) s2 = (p, s3)" by fastforce
    have s3: "s3 = outcome_exec (de_fmt E) (ReqProject (outcome_event (de_fmt E) y)) s2"
      using d by (simp add: outcome_memory_ops_def)
    show ?thesis
    proof (cases l)
      case None
      then show ?thesis using a b d s1 s2 s3 Inr 2 t assms
        by (intro exI [of _ "[ReqAppend x, ReqLineage ?ns ?es, ReqProject (outcome_event (de_fmt E) y)]"])
          (cases p; simp add: Evaluate_outcome_def appendLineageAndProjection_def Let_def)
    next
      case (Some e)
      then show ?thesis using a b s1 s2 Inr 2 t assms
        by (intro exI [of _ "[ReqAppend x, ReqLineage ?ns ?es]"])
          (simp add: Evaluate_outcome_def appendLineageAndProjection_def Let_def)
    qed
  qed
qed

lemma fold_exec_later: "store_later s (fold (outcome_exec fmt) reqs s)"
  by (induction reqs arbitrary: s) (auto intro: store_later_refl store_later_trans exec_later)

lemma fold_exec_ok: "list_all plain_req reqs \<Longrightarrow> outcome_store_ok s \<Longrightarrow> outcome_store_ok (fold (outcome_exec fmt) reqs s)"
  by (induction reqs arbitrary: s) (simp_all add: exec_ok)

definition only_decided :: "decide_env \<Rightarrow> outcome_memory \<Rightarrow> bool" where
  "only_decided E s \<longleftrightarrow> (\<forall>k x. x \<in> set (om_outcomes s k) \<longrightarrow> (\<exists>cmd. Decide E cmd = Inr x))"

lemma Evaluate_only_decided:
  "only_decided E s \<Longrightarrow> only_decided E (snd (Evaluate_outcome E (outcome_memory_ops (de_fmt E)) cmd s))"
  by (auto simp: Evaluate_memory only_decided_def with_revision_def with_facts_def split: sum.splits option.splits)

text \<open>
  The work-case service, the evaluator and the closure service in any order.  The first argument is
  every state the outcome store has had, the current one first; a closure may act on reads of any two
  of them.  Only closure requests completions, and tenants hold no NUL byte.
\<close>

inductive sys_reach ::
    "decide_env \<Rightarrow> (string \<Rightarrow> string \<Rightarrow> wc_error + string) \<Rightarrow> outcome_memory list \<Rightarrow> memory_store \<Rightarrow> bool"
  for E :: decide_env and nextID where
  start: "sys_reach E nextID [NewOutcomeMemory] NewMemoryStore"
| serve: "sys_reach E nextID hs c \<Longrightarrow> nul_free (cm_enterprise_id (req_command req)) \<Longrightarrow>
     (\<forall>cmd ref. req \<noteq> ReqCompleteCase cmd ref) \<Longrightarrow>
     sys_reach E nextID hs (snd (svc_exec memory_case_store nextID now req c))"
| evaluate: "sys_reach E nextID hs c \<Longrightarrow> nul_free (ec_tenant cmd) \<Longrightarrow>
     sys_reach E nextID (snd (Evaluate_outcome E (outcome_memory_ops (de_fmt E)) cmd (hd hs)) # hs) c"
| close: "sys_reach E nextID hs c \<Longrightarrow> s1 \<in> set hs \<Longrightarrow> s2 \<in> set hs \<Longrightarrow> nul_free (of_tenant ref) \<Longrightarrow>
     sys_reach E nextID hs (snd (Apply (outcome_memory_ops (de_fmt E)) (service_closer memory_case_store now) ref rn key s1 s2 c))"

definition backed :: "decide_env \<Rightarrow> outcome_memory \<Rightarrow> string \<Rightarrow> work_case \<Rightarrow> bool" where
  "backed E s cid d \<longleftrightarrow> (\<exists>cmd x. Decide E cmd = Inr x \<and> ocl_status (out_claim x) = OutcomeSatisfied
     \<and> out_tenant x = wc_enterprise_id d \<and> out_work_case_id x = cid
     \<and> x \<in> set (om_outcomes s (outcomeKeyOf (out_tenant x) (out_key x))))"

lemma backed_later: "store_later s s' \<Longrightarrow> backed E s cid d \<Longrightarrow> backed E s' cid d"
  unfolding backed_def store_later_def extends_iff by (metis Un_iff set_append)

lemma serve_completes_nothing:
  assumes "db_succ (\<lambda>s. s) nextID req db r db'" and "\<forall>cmd ref. req \<noteq> ReqCompleteCase cmd ref"
    and "db_cases db' cid = Some d" and "wc_status d = StatusCompleted"
  shows "db_cases db cid = Some d"
proof (rule db_succ_cases [OF assms(1)])
  fix cmd et f cur d' now
  assume p: "req_plan nextID req = Inr (cmd, et, f)" "f cur = Inr d'" "db' = record_event now cmd et (stored_case (\<lambda>s. s) d') db"
  show ?thesis
  proof (cases "cm_case_id cmd = cid")
    case True
    then have d: "f cur = Inr d" using p assms(3) by simp
    show ?thesis
    proof (cases "et = EventCaseCreated")
      case True
      then have "f = create_mutate cmd" using req_plan_fields [OF p(1)] by blast
      then show ?thesis using d assms(4) by (auto simp: create_mutate_def)
    next
      case False
      then show ?thesis using completing_plan [OF p(1) _ d assms(4)] assms(2) by blast
    qed
  qed (use p assms(3) in simp)
qed (use assms in simp)

lemma close_completes:
  assumes "completes cmd db db' d'" and "db_cases db' cid = Some d"
  shows "db_cases db cid = Some d \<or> (cid = cm_case_id cmd \<and> wc_enterprise_id d = cm_enterprise_id cmd)"
  using assms by (auto simp: completes_def in_scope_def split: if_splits)

lemma sys_inv:
  assumes "sys_reach E nextID hs c"
  shows "hs \<noteq> [] \<and> (\<forall>h \<in> set hs. outcome_store_ok h \<and> only_decided E h \<and> store_later h (hd hs))
       \<and> (\<forall>cid d. ms_cases c cid = Some d \<longrightarrow> wc_status d = StatusCompleted \<longrightarrow> backed E (hd hs) cid d)"
  using assms
proof (induction rule: sys_reach.induct)
  case start
  have "only_decided E NewOutcomeMemory" "ms_cases NewMemoryStore cid = None" for cid
    by (simp_all add: only_decided_def NewOutcomeMemory_def NewMemoryStore_def)
  then show ?case by (simp add: new_store_ok store_later_refl)
next
  case (serve hs c req now)
  let ?r = "svc_exec memory_case_store nextID now req c"
  have "db_succ (\<lambda>s. s) nextID req (mem_view c) (fst ?r) (mem_view (snd ?r))"
    using mem_exec_succ [OF serve.hyps(2)] by (metis prod.collapse)
  from serve_completes_nothing [OF this serve.hyps(3)] serve.IH show ?case by auto
next
  case (evaluate hs c cmd)
  let ?s = "snd (Evaluate_outcome E (outcome_memory_ops (de_fmt E)) cmd (hd hs))"
  obtain reqs where r: "list_all plain_req reqs" "?s = fold (outcome_exec (de_fmt E)) reqs (hd hs)"
    using Evaluate_exec [OF evaluate.hyps(2)] by blast
  have h: "hd hs \<in> set hs" using evaluate.IH by simp
  have l: "store_later (hd hs) ?s" using r(2) fold_exec_later by simp
  moreover have "outcome_store_ok ?s" using r evaluate.IH h fold_exec_ok by simp
  moreover have "only_decided E ?s" by (rule Evaluate_only_decided) (use evaluate.IH h in simp)
  ultimately show ?case
    using evaluate.IH backed_later [OF l] store_later_refl store_later_trans [OF _ l] by auto
next
  case (close hs c s1 s2 ref now rn key)
  let ?r = "Apply (outcome_memory_ops (de_fmt E)) (service_closer memory_case_store now) ref rn key s1 s2 c"
  obtain e res c' where r: "?r = ((e, res), c')" by (metis prod.collapse)
  have "backed E (hd hs) cid d" if d: "ms_cases c' cid = Some d" "wc_status d = StatusCompleted" for cid d
  proof (cases "ms_cases c cid = Some d")
    case False
    from mem_closure.Apply_effect [OF TrueI close.hyps(4) r] False d obtain x d' where
      x: "closure_check (outcome_memory_ops (de_fmt E)) ref s1 s2 = (None, x)"
      and co: "completes (closing_command (of_tenant ref) (of_org_scope ref) (of_actor_ref ref) (of_case_id ref) rn key)
          (mem_view c) (mem_view c') d'" by (metis mem_view_simps(1))
    have cid: "cid = of_case_id ref" "wc_enterprise_id d = of_tenant ref"
      using close_completes [OF co, of cid d] False d(1) by (auto simp: closing_command_def)
    have m: "x \<in> set (om_chains s1 (of_tenant ref) (of_outcome_key ref))" "ocl_status (out_claim x) = OutcomeSatisfied"
      "out_work_case_id x = of_case_id ref"
      using mem_closure.closure_check_None [OF x close.hyps(4)] by auto
    have s1: "outcome_store_ok s1" "only_decided E s1" "store_later s1 (hd hs)" using close.IH close.hyps(2) by auto
    have t: "out_tenant x = of_tenant ref" "out_key x = of_outcome_key ref"
      using s1(1) m(1) unfolding outcome_store_ok_def chains_ok_def chain_ok_def list_all_iff by blast+
    have k: "x \<in> set (om_outcomes s1 (outcomeKeyOf (out_tenant x) (out_key x)))"
      using m(1) close.hyps(4) t by (simp add: om_chains_def)
    obtain cmd where "Decide E cmd = Inr x" using s1(2) k unfolding only_decided_def by blast
    then have "backed E s1 cid d" using m k t cid unfolding backed_def by metis
    then show ?thesis using backed_later [OF s1(3)] by blast
  qed (use close.IH d in blast)
  then show ?case using close.IH r by simp
qed

text \<open>
  C26: no case is completed without evidence.  Whatever the work-case service, the evaluator and the
  closure service do, in any order and on reads of any age, every completed case has a satisfied
  outcome, kept in the outcome store, that names the case and its enterprise, and that is the decision
  on some command: so every postcondition the policy of that command requires was confirmed by signed,
  fresh, unanimous evidence.
\<close>
theorem completed_case_has_satisfied_decision:
  assumes "sys_reach E nextID hs c" and "ms_cases c cid = Some d" and "wc_status d = StatusCompleted"
  shows "\<exists>cmd x. Decide E cmd = Inr x \<and> ocl_status (out_claim x) = OutcomeSatisfied
     \<and> out_tenant x = wc_enterprise_id d \<and> out_work_case_id x = cid
     \<and> x \<in> set (om_outcomes (hd hs) (outcomeKeyOf (out_tenant x) (out_key x)))"
  using sys_inv [OF assms(1)] assms(2,3) by (simp add: backed_def)

subsection \<open>A concrete closure\<close>

definition sample_store :: outcome_memory where
  "sample_store = snd (Evaluate_outcome sample_env (outcome_memory_ops sample_fmt) (sample_eval []) NewOutcomeMemory)"

definition sample_satisfied :: outcome where
  "sample_satisfied = decided_outcome sample_env (sample_eval [])"

definition sample_ref :: outcome_ref where
  "sample_ref = \<lparr>of_tenant = ''t'', of_outcome_key = ''k'', of_revision = 1, of_org_scope = ''o'', of_actor_ref = ''u'',
     of_case_id = ''c''\<rparr>"

definition sample_done :: work_case where
  "sample_done = sample_case StatusCompleted 5 [sample_plan\<lparr>pl_revision := 1\<rparr>]"

lemma sample_ref_simps [simp]:
  "of_tenant sample_ref = ''t''" "of_outcome_key sample_ref = ''k''" "of_revision sample_ref = 1"
  "of_org_scope sample_ref = ''o''" "of_actor_ref sample_ref = ''u''" "of_case_id sample_ref = ''c''"
  by (simp_all add: sample_ref_def)

lemma sample_satisfied_simps [simp]:
  "out_revision sample_satisfied = 1" "out_work_case_id sample_satisfied = ''c''" "out_id sample_satisfied \<noteq> []"
  "ocl_status (out_claim sample_satisfied) = OutcomeSatisfied"
proof -
  have "out_claim sample_satisfied = out_claim (sample_decision [])"
    using arg_cong [OF sample_decided [of "[]"], of out_claim] by (simp add: sample_satisfied_def)
  then show "ocl_status (out_claim sample_satisfied) = OutcomeSatisfied" by (simp add: sample_decision_def)
  show "out_id sample_satisfied \<noteq> []" by (simp add: sample_satisfied_def outcome_derived_id_def StableID_def)
qed (simp_all add: sample_satisfied_def)

lemma sample_store_chain: "om_chains sample_store ''t'' ''k'' = [sample_satisfied]"
proof -
  have "Decide sample_env (sample_eval []) = Inr sample_satisfied"
    unfolding sample_satisfied_def by (rule sample_decides) simp_all
  then show ?thesis
    using Evaluate_memory [of sample_env "sample_eval []" NewOutcomeMemory] sample_lineage
    by (simp add: sample_store_def sample_satisfied_def append_check_def head_revision_def NewOutcomeMemory_def om_chains_def
        with_revision_def with_facts_def NUL_def)
qed

lemma sample_check: "closure_check (outcome_memory_ops sample_fmt) sample_ref sample_store sample_store = (None, sample_satisfied)"
proof -
  have "om_outcomes sample_store (outcomeKeyOf ''t'' ''k'') = [sample_satisfied]"
    using sample_store_chain by (simp add: om_chains_def NUL_def)
  then show ?thesis by (simp add: closure_check_def outcome_memory_ops_def om_get_def om_latest_def)
qed

lemma sample_closing: "closing_command ''t'' ''o'' ''u'' ''c'' r (''key-00000000000'' @ k) = sample_cmd k r"
  by (simp add: closing_command_def sample_cmd_def)

lemma sample_closure:
  "Apply (outcome_memory_ops sample_fmt) (service_closer memory_case_store 0) sample_ref 4 (''key-00000000000'' @ ''5'')
     sample_store sample_store (sample_run 4)
   = ((None, \<lparr>cr_completed = True, cr_case = sample_done, cr_outcome = sample_satisfied\<rparr>), sample_run 5)"
proof -
  have "CompleteCase memory_case_store 0 (sample_cmd ''5'' 4) ''outcome-1'' (sample_run 4) = (Inr sample_done, sample_run 5)"
    using sample_results(3) by (simp add: sample_reqs_def sample_done_def)
  then have "CompleteCase memory_case_store 0 (sample_cmd ''5'' 4) (out_id sample_satisfied) (sample_run 4) = (Inr sample_done, sample_run 5)"
    by (simp add: CompleteCase_def split: option.splits if_splits)
  then show ?thesis
    unfolding Apply_def service_closer_def sample_check
    by (simp only: sample_ref_simps sample_closing case_closer.select_convs prod.case sum.case option.case)
qed

lemma sample_chains_ok: "chains_ok (om_chains sample_store)"
proof -
  obtain reqs where "list_all plain_req reqs" "sample_store = fold (outcome_exec sample_fmt) reqs NewOutcomeMemory"
    using Evaluate_exec [of "sample_eval []" sample_env NewOutcomeMemory] by (auto simp: sample_store_def NUL_def)
  then show ?thesis using fold_exec_ok new_store_ok unfolding outcome_store_ok_def by metis
qed

lemma closure_applies_current_satisfied_head_witness:
  "mem_view (sample_run 5) = mem_view (sample_run 4)
   \<or> completes (sample_cmd ''5'' 4) (mem_view (sample_run 4)) (mem_view (sample_run 5)) sample_done"
  using closure_applies_current_satisfied_head [OF sample_closure _ sample_chains_ok] sample_closing [of 4 "''5''"]
  by (simp add: sample_store_chain NUL_def)

lemma redelivered_closure_is_noop_witness:
  "mem_view (snd (Apply (outcome_memory_ops sample_fmt) (service_closer memory_case_store 9) sample_ref 4
     (''key-00000000000'' @ ''5'') sample_store sample_store (sample_run 5))) = mem_view (sample_run 5)"
proof -
  obtain e res c3 where "Apply (outcome_memory_ops sample_fmt) (service_closer memory_case_store 9) sample_ref 4
     (''key-00000000000'' @ ''5'') sample_store sample_store (sample_run 5) = ((e, res), c3)" by (metis prod.collapse)
  with redelivered_closure_is_noop [OF sample_closure _ svc_reachable.start [of memory_case_store no_ids] this] show ?thesis
    by (simp add: NUL_def)
qed

lemma reused_key_reports_completion_witness:
  "\<exists>res. Apply (outcome_memory_ops sample_fmt) (service_closer memory_case_store 0) sample_ref 4 (''key-00000000000'' @ ''4'')
      sample_store sample_store (sample_run 4) = ((None, res), sample_run 4)
    \<and> cr_completed res \<and> wc_status (cr_case res) = StatusExecuting"
proof -
  have "ms_idempotency (sample_run 4) (memKey ''t'' (''key-00000000000'' @ ''4''))
      = Some (''c'', sample_case StatusExecuting 4 [sample_plan\<lparr>pl_revision := 1\<rparr>])"
    by (simp add: sample_run_def WcHistory.sample_eval)
  from reused_key_reports_completion [OF sample_check, of 4 "''key-00000000000'' @ ''4''" "sample_run 4", OF _ _ _ this [folded sample_ref_simps]]
  show ?thesis
    by (simp add: closing_command_def validateCommand_def minIdempotencyKeyLen_def maxIdempotencyKeyLen_def sample_case_def)
qed

lemma sample_system: "n \<le> 4 \<Longrightarrow> sys_reach sample_env no_ids [NewOutcomeMemory] (sample_run n)"
proof (induction n)
  case 0
  then show ?case by (simp add: sample_run_0 sys_reach.start)
next
  case (Suc n)
  then have "\<forall>cmd ref. sample_reqs ! n \<noteq> ReqCompleteCase cmd ref"
    by (auto simp: sample_reqs_def less_Suc_eq_le le_Suc_eq numeral_eq_Suc)
  with Suc show ?case
    using sys_reach.serve [of sample_env no_ids "[NewOutcomeMemory]" "sample_run n" "sample_reqs ! n" 0] sample_nul_free [of n]
    by (simp add: sample_run_Suc)
qed

lemma completed_case_has_satisfied_decision_witness:
  "\<exists>cmd x. Decide sample_env cmd = Inr x \<and> ocl_status (out_claim x) = OutcomeSatisfied \<and> out_work_case_id x = ''c''"
proof -
  have "sys_reach sample_env no_ids [sample_store, NewOutcomeMemory] (sample_run 4)"
    using sys_reach.evaluate [OF sample_system [of 4], of "sample_eval []"] by (simp add: sample_store_def NUL_def)
  from sys_reach.close [OF this, of sample_store sample_store sample_ref 0 4 "''key-00000000000'' @ ''5''"]
  have "sys_reach sample_env no_ids [sample_store, NewOutcomeMemory] (sample_run 5)"
    by (simp only: sample_closure sample_env_simps) (simp add: NUL_def)
  from completed_case_has_satisfied_decision [OF this, of "''c''" sample_done] show ?thesis
    by (auto simp: sample_run_cases sample_done_def sample_case_def)
qed

end
