(* ===== verification/Orchestrator.thy ===== *)
theory Orchestrator
  imports RunLedger UpwardReview OutClosure
begin

text \<open>
  The orchestrator, \<^verbatim>\<open>internal/workcase/orchestrator.go\<close>: \<open>Prepare\<close> and \<open>Advance\<close> with every handler they
  call.

  Each function is a program over the calls it makes outside its own goroutine (\<open>orch_op\<close>): the run
  store, the work-case service, the governor, the gateway, the planner, the observer, the outcome
  machinery and the clock.  A call answers an \<open>orch_resp\<close>; between any two calls other goroutines may
  run, and a program may stop for ever at any of them (a crash).  \<open>Err\<close> is an early return of an error.
\<close>

subsection \<open>Calls\<close>

datatype dispatch_err = ErrTransportTimeout | ErrActionRejected | ErrDispatchOther

text \<open>Which claim a dispatch uses, and what gated it.\<close>

datatype dispatch_kind = Primary bool approval_parties | Reversal

datatype orch_op =
    OpLoad string
  | OpSave run_ledger
  | OpTransform string ledger_update
  | OpGet string string string
  | OpCase svc_req
  | OpPrepare work_case uint64 wc_step
  | OpPrepareReversal work_case uint64 wc_step
  | OpDispatch string string dispatch_kind action_request
  | OpReconcile action_request
  | OpPlan work_case
  | OpObserve action_request string
  | OpEvaluate evaluate_command
  | OpLatest string string
  | OpClose outcome_ref uint64 string
  | OpNow

datatype orch_resp =
    RsLedger "run_err + run_ledger"
  | RsTransform "run_err + (run_ledger \<times> bool)"
  | RsCase "wc_error + work_case"
  | RsPrepare "(action_request \<times> approval_parties \<times> bool) option"
  | RsRequest "action_request option"
  | RsDispatch "dispatch_err + action_receipt"
  | RsReconcile "dispatch_err + action_receipt option"
  | RsPlan "work_plan option"
  | RsObserve "observation_receipt option option"
  | RsOutcome "eval_err + outcome"
  | RsClosure "closure_err option"
  | RsNow go_time
  | RsDone

datatype orch_err =
    ErrRun run_err
  | ErrCaseService wc_error
  | ErrGovernor
  | ErrObserver
  | ErrOutcome eval_err
  | ErrClosing closure_err
  | ErrUnhandledState action_state
  | ErrProtocol

datatype 'a orch = Ret 'a | Err orch_err | Do orch_op "orch_resp \<Rightarrow> 'a orch"

primrec obind :: "'a orch \<Rightarrow> ('a \<Rightarrow> 'b orch) \<Rightarrow> 'b orch" where
  "obind (Ret x) f = f x"
| "obind (Err e) f = Err e"
| "obind (Do a k) f = Do a (\<lambda>r. obind (k r) f)"

text \<open>Each call with the answer it gets; an answer of another kind never occurs (\<open>ErrProtocol\<close>).\<close>

definition load :: "string \<Rightarrow> (run_err + run_ledger) orch" where
  "load cid = Do (OpLoad cid) (\<lambda>r. case r of RsLedger x \<Rightarrow> Ret x | _ \<Rightarrow> Err ErrProtocol)"

definition transform :: "string \<Rightarrow> ledger_update \<Rightarrow> (run_ledger \<times> bool) orch" where
  "transform cid u = Do (OpTransform cid u)
     (\<lambda>r. case r of RsTransform (Inr x) \<Rightarrow> Ret x | RsTransform (Inl e) \<Rightarrow> Err (ErrRun e) | _ \<Rightarrow> Err ErrProtocol)"

definition get_case :: "string \<Rightarrow> string \<Rightarrow> string \<Rightarrow> work_case orch" where
  "get_case ent org cid = Do (OpGet ent org cid)
     (\<lambda>r. case r of RsCase (Inr x) \<Rightarrow> Ret x | RsCase (Inl e) \<Rightarrow> Err (ErrCaseService e) | _ \<Rightarrow> Err ErrProtocol)"

definition case_service :: "svc_req \<Rightarrow> (wc_error + work_case) orch" where
  "case_service req = Do (OpCase req) (\<lambda>r. case r of RsCase x \<Rightarrow> Ret x | _ \<Rightarrow> Err ErrProtocol)"

definition prepare_action :: "work_case \<Rightarrow> uint64 \<Rightarrow> wc_step \<Rightarrow> (action_request \<times> approval_parties \<times> bool) option orch" where
  "prepare_action wc n st = Do (OpPrepare wc n st) (\<lambda>r. case r of RsPrepare x \<Rightarrow> Ret x | _ \<Rightarrow> Err ErrProtocol)"

definition prepare_reversal :: "work_case \<Rightarrow> uint64 \<Rightarrow> wc_step \<Rightarrow> action_request option orch" where
  "prepare_reversal wc n st = Do (OpPrepareReversal wc n st) (\<lambda>r. case r of RsRequest x \<Rightarrow> Ret x | _ \<Rightarrow> Err ErrProtocol)"

definition dispatch :: "string \<Rightarrow> string \<Rightarrow> dispatch_kind \<Rightarrow> action_request \<Rightarrow> (dispatch_err + action_receipt) orch" where
  "dispatch cid s kind req = Do (OpDispatch cid s kind req) (\<lambda>r. case r of RsDispatch x \<Rightarrow> Ret x | _ \<Rightarrow> Err ErrProtocol)"

definition reconcile :: "action_request \<Rightarrow> (dispatch_err + action_receipt option) orch" where
  "reconcile req = Do (OpReconcile req) (\<lambda>r. case r of RsReconcile x \<Rightarrow> Ret x | _ \<Rightarrow> Err ErrProtocol)"

definition propose :: "work_case \<Rightarrow> work_plan option orch" where
  "propose wc = Do (OpPlan wc) (\<lambda>r. case r of RsPlan x \<Rightarrow> Ret x | _ \<Rightarrow> Err ErrProtocol)"

definition observe :: "action_request \<Rightarrow> string \<Rightarrow> observation_receipt option orch" where
  "observe req need = Do (OpObserve req need)
     (\<lambda>r. case r of RsObserve (Some x) \<Rightarrow> Ret x | RsObserve None \<Rightarrow> Err ErrObserver | _ \<Rightarrow> Err ErrProtocol)"

definition evaluate_outcome :: "evaluate_command \<Rightarrow> (eval_err + outcome) orch" where
  "evaluate_outcome cmd = Do (OpEvaluate cmd) (\<lambda>r. case r of RsOutcome x \<Rightarrow> Ret x | _ \<Rightarrow> Err ErrProtocol)"

definition latest_outcome :: "string \<Rightarrow> string \<Rightarrow> (eval_err + outcome) orch" where
  "latest_outcome t k = Do (OpLatest t k) (\<lambda>r. case r of RsOutcome x \<Rightarrow> Ret x | _ \<Rightarrow> Err ErrProtocol)"

definition close_case :: "outcome_ref \<Rightarrow> uint64 \<Rightarrow> string \<Rightarrow> unit orch" where
  "close_case ref n key = Do (OpClose ref n key)
     (\<lambda>r. case r of RsClosure None \<Rightarrow> Ret () | RsClosure (Some e) \<Rightarrow> Err (ErrClosing e) | _ \<Rightarrow> Err ErrProtocol)"

definition clock :: "go_time orch" where
  "clock = Do OpNow (\<lambda>r. case r of RsNow t \<Rightarrow> Ret t | _ \<Rightarrow> Err ErrProtocol)"

definition save :: "run_ledger \<Rightarrow> unit orch" where
  "save l = Do (OpSave l) (\<lambda>r. case r of RsDone \<Rightarrow> Ret () | _ \<Rightarrow> Err ErrProtocol)"

definition or_fail :: "('e \<Rightarrow> orch_err) \<Rightarrow> 'e + 'a \<Rightarrow> 'a orch" where
  "or_fail f r = (case r of Inl e \<Rightarrow> Err (f e) | Inr x \<Rightarrow> Ret x)"

definition load_ledger :: "string \<Rightarrow> run_ledger orch" where
  "load_ledger cid = obind (load cid) (or_fail ErrRun)"

subsection \<open>Configuration\<close>

record outcome_config =
  oc_policy_version :: string
  oc_goal :: goal_ref
  oc_map_version :: int
  oc_org_version :: int
  oc_accepting :: "string \<Rightarrow> string list"

record orch_config =
  cf_trust :: trust_env
  cf_key_id :: string
  cf_key :: string
  cf_policy :: upward_review_policy
  cf_planner :: bool
  cf_outcome :: "outcome_config option"
  cf_max_attempts :: int

definition validateOutcomeConfig :: "outcome_config \<Rightarrow> bool" where
  "validateOutcomeConfig oc \<longleftrightarrow>
     oc_policy_version oc \<noteq> [] \<and> gl_goal_key (oc_goal oc) \<noteq> [] \<and> \<not> gl_goal_version (oc_goal oc) < 1
   \<and> \<not> oc_map_version oc < 1 \<and> \<not> oc_org_version oc < 0"

definition NewOrchestrator :: "orch_config \<Rightarrow> orch_config option" where
  "NewOrchestrator cfg =
     (if length (cf_key cfg) \<noteq> ed25519_public_key_size then None
      else if up_current_org_version (cf_policy cfg) \<le> 0 then None
      else if (case cf_outcome cfg of None \<Rightarrow> False | Some oc \<Rightarrow> \<not> validateOutcomeConfig oc) then None
      else Some (cfg\<lparr>cf_max_attempts := (if cf_max_attempts cfg \<le> 0 then 3 else cf_max_attempts cfg)\<rparr>))"

subsection \<open>The work case as the orchestrator sees it\<close>

definition stepByID :: "work_case \<Rightarrow> string \<Rightarrow> wc_step option" where
  "stepByID wc s = find (\<lambda>st. st_id st = s) (snd (topPlan wc))"

definition stepStatus :: "work_case \<Rightarrow> string \<Rightarrow> step_status" where
  "stepStatus wc s =
     (case stepByID wc s of None \<Rightarrow> StepPending
      | Some st \<Rightarrow> if st_status st = StepUnset then StepPending else st_status st)"

definition govRisk :: "nexus_risk \<Rightarrow> risk_level" where
  "govRisk r = (if r = NexusRiskLow then RiskLow else RiskHigh)"

definition ledger_command :: "run_ledger \<Rightarrow> uint64 \<Rightarrow> string \<Rightarrow> wc_command" where
  "ledger_command l expected key = \<lparr>cm_enterprise_id = rl_enterprise_id l, cm_org_scope = rl_org_scope l,
     cm_actor_ref = rl_actor_ref l, cm_case_id = rl_case_id l, cm_expected_revision = expected, cm_idempotency_key = key\<rparr>"

definition advanceStep :: "run_ledger \<Rightarrow> uint64 \<Rightarrow> string \<Rightarrow> step_status \<Rightarrow> wc_evidence_ref list \<Rightarrow> work_case orch" where
  "advanceStep l expectedRev s target ev =
     obind (case_service (ReqAdvanceStep (ledger_command l expectedRev
        (''adv-'' @ shortHash (rl_case_id l @ '':'' @ s @ '':'' @ step_status_text target @ '':'' @ format_uint expectedRev)))
        s target ev))
       (or_fail ErrCaseService)"

definition markStepRunning :: "run_ledger \<Rightarrow> string \<Rightarrow> unit orch" where
  "markStepRunning l s =
     obind (get_case (rl_enterprise_id l) (rl_org_scope l) (rl_case_id l)) (\<lambda>wc.
       if stepStatus wc s \<noteq> StepPending then Ret ()
       else obind (advanceStep l (wc_revision wc) s StepRunning []) (\<lambda>_. Ret ()))"

definition markStepCompleted :: "run_ledger \<Rightarrow> string \<Rightarrow> wc_evidence_ref \<Rightarrow> unit orch" where
  "markStepCompleted l s ev =
     obind (get_case (rl_enterprise_id l) (rl_org_scope l) (rl_case_id l)) (\<lambda>wc.
       if stepStatus wc s = StepCompleted then Ret ()
       else obind (if stepStatus wc s = StepPending then advanceStep l (wc_revision wc) s StepRunning [] else Ret wc)
              (\<lambda>wc. obind (advanceStep l (wc_revision wc) s StepCompleted [ev]) (\<lambda>_. Ret ())))"

definition markStepFailed :: "string \<Rightarrow> string \<Rightarrow> unit orch" where
  "markStepFailed cid s =
     obind (load_ledger cid) (\<lambda>l.
     obind (get_case (rl_enterprise_id l) (rl_org_scope l) cid) (\<lambda>wc.
       if stepStatus wc s \<noteq> StepRunning then Ret ()
       else obind (advanceStep l (wc_revision wc) s StepFailed []) (\<lambda>_. Ret ())))"

subsection \<open>Transitions\<close>

definition transitionWith :: "string \<Rightarrow> string \<Rightarrow> action_state \<Rightarrow> string \<Rightarrow> run_effect \<Rightarrow> bool orch" where
  "transitionWith cid s to reason eff =
     obind (transform cid (Move s to reason eff)) (\<lambda>(_, applied).
       if applied \<and> to \<in> {ActionHumanTakeover, ActionTerminated, ActionCompensated}
       then obind (markStepFailed cid s) (\<lambda>_. Ret applied)
       else Ret applied)"

definition transition :: "string \<Rightarrow> string \<Rightarrow> action_state \<Rightarrow> string \<Rightarrow> bool orch" where
  "transition cid s to reason = transitionWith cid s to reason NoEffect"

definition bumpReconcile :: "orch_config \<Rightarrow> string \<Rightarrow> string \<Rightarrow> bool orch" where
  "bumpReconcile cf cid s = obind (transform cid (BumpReconcile (cf_max_attempts cf) s)) (\<lambda>(_, exhausted). Ret exhausted)"

definition retryOrEscalate :: "orch_config \<Rightarrow> string \<Rightarrow> string \<Rightarrow> string \<Rightarrow> unit orch" where
  "retryOrEscalate cf cid s reason =
     obind (load_ledger cid) (\<lambda>l.
       case runByID l s of None \<Rightarrow> Err (ErrRun ErrRunNotFound)
       | Some run \<Rightarrow>
           if rn_attempts run \<ge> cf_max_attempts cf
           then obind (transition cid s ActionHumanTakeover (reason @ ''; attempts exhausted'')) (\<lambda>_. Ret ())
           else obind (transition cid s ActionRetrying reason) (\<lambda>_. Ret ()))"

text \<open>A transition whose only purpose is to be made: \<open>return true, err\<close>.\<close>

definition move_to :: "string \<Rightarrow> string \<Rightarrow> action_state \<Rightarrow> string \<Rightarrow> bool orch" where
  "move_to cid s to reason = obind (transition cid s to reason) (\<lambda>_. Ret True)"

definition completeStep :: "run_ledger \<Rightarrow> string \<Rightarrow> action_request \<Rightarrow> action_receipt \<Rightarrow> unit orch" where
  "completeStep l s req receipt =
     obind (markStepCompleted l s \<lparr>we_handle = rc_receipt_id receipt, we_content_hash = rc_parameter_hash receipt,
              we_authority = rc_executor_identity receipt\<rparr>) (\<lambda>_.
     obind (transitionWith (rl_case_id l) s ActionCompleted (''verified receipt '' @ rc_receipt_id receipt)
              (RecordCompletion req receipt)) (\<lambda>_. Ret ()))"

definition applyFailurePolicy :: "orch_config \<Rightarrow> run_ledger \<Rightarrow> string \<Rightarrow> wc_step \<Rightarrow> string \<Rightarrow> unit orch" where
  "applyFailurePolicy cf l s st reason =
     (let policy = (case st_action st of None \<Rightarrow> [] | Some a \<Rightarrow> as_failure_policy a)
      in if has_prefix policy ''compensate''
         then (if (case st_action st of None \<Rightarrow> True | Some a \<Rightarrow> as_compensation_action_id a = None)
               then obind (transition (rl_case_id l) s ActionHumanTakeover
                      (reason @ ''; compensate policy but no compensation action'')) (\<lambda>_. Ret ())
               else obind (transition (rl_case_id l) s ActionCompensating (reason @ ''; compensating'')) (\<lambda>_. Ret ()))
         else if has_prefix policy ''replan''
         then obind (transition (rl_case_id l) s ActionReplanning (reason @ ''; replanning'')) (\<lambda>_. Ret ())
         else if has_prefix policy ''retry'' then retryOrEscalate cf (rl_case_id l) s (reason @ ''; retrying'')
         else obind (transition (rl_case_id l) s ActionHumanTakeover (reason @ ''; human takeover'')) (\<lambda>_. Ret ()))"

definition applyReceipt ::
    "orch_config \<Rightarrow> run_ledger \<Rightarrow> string \<Rightarrow> wc_step \<Rightarrow> action_request \<Rightarrow> action_receipt \<Rightarrow> unit orch" where
  "applyReceipt cf l s st req receipt =
     (if VerifyActionReceipt (cf_trust cf) req receipt (cf_key_id cf) (cf_key cf) \<noteq> None
      then obind (transition (rl_case_id l) s ActionResultUnknown ''receipt failed verification: '') (\<lambda>_. Ret ())
      else if rc_result_code receipt = ''succeeded'' then completeStep l s req receipt
      else applyFailurePolicy cf l s st (''receipt reported result_code='' @ rc_result_code receipt))"

definition handleDispatchError :: "orch_config \<Rightarrow> run_ledger \<Rightarrow> string \<Rightarrow> bool \<Rightarrow> dispatch_err \<Rightarrow> unit orch" where
  "handleDispatchError cf l s sideEffecting derr =
     (case derr of
        ErrActionRejected \<Rightarrow> retryOrEscalate cf (rl_case_id l) s ''action rejected before execution''
      | ErrTransportTimeout \<Rightarrow>
          if sideEffecting
          then obind (transition (rl_case_id l) s ActionResultUnknown ''transport timeout on side effect'') (\<lambda>_. Ret ())
          else retryOrEscalate cf (rl_case_id l) s ''read timeout''
      | ErrDispatchOther \<Rightarrow>
          if sideEffecting
          then obind (transition (rl_case_id l) s ActionResultUnknown ''ambiguous dispatch error on side effect: '') (\<lambda>_. Ret ())
          else retryOrEscalate cf (rl_case_id l) s ''dispatch error on read: '')"

subsection \<open>Step handlers\<close>

text \<open>The action of a run's step, if the current plan still has one.\<close>

definition dispatchable :: "work_case \<Rightarrow> string \<Rightarrow> wc_step option" where
  "dispatchable wc s =
     (case stepByID wc s of None \<Rightarrow> None | Some st \<Rightarrow> if st_action st = None then None else Some st)"

definition dispatchStep :: "orch_config \<Rightarrow> work_case \<Rightarrow> run_ledger \<Rightarrow> action_run \<Rightarrow> bool orch" where
  "dispatchStep cf wc l run =
     (case dispatchable wc (rn_step_id run) of
        None \<Rightarrow> move_to (rl_case_id l) (rn_step_id run) ActionHumanTakeover ''step has no dispatchable action''
      | Some st \<Rightarrow>
          obind (prepare_action wc (rl_plan_revision l) st) (\<lambda>prepared.
            case prepared of
              None \<Rightarrow> move_to (rl_case_id l) (rn_step_id run) ActionHumanTakeover ''governor could not prepare action''
            | Some (req, parties, sideEffecting) \<Rightarrow>
                if sideEffecting \<and> Evaluate (cf_policy cf) parties (govRisk (ar_risk req)) \<noteq> None
                then move_to (rl_case_id l) (rn_step_id run) ActionHumanTakeover ''upward review not satisfied: ''
                else
                  obind (transitionWith (rl_case_id l) (rn_step_id run) ActionDispatched ''dispatching action''
                           (ClaimDispatch (ar_idempotency_key req))) (\<lambda>applied.
                    if \<not> applied then Ret False
                    else
                      obind (markStepRunning l (rn_step_id run)) (\<lambda>_.
                      obind (dispatch (rl_case_id l) (rn_step_id run) (Primary sideEffecting parties) req) (\<lambda>r.
                        obind (case r of
                                 Inl derr \<Rightarrow> handleDispatchError cf l (rn_step_id run) sideEffecting derr
                               | Inr receipt \<Rightarrow> applyReceipt cf l (rn_step_id run) st req receipt)
                          (\<lambda>_. Ret True))))))"

definition reconcileStep :: "orch_config \<Rightarrow> work_case \<Rightarrow> run_ledger \<Rightarrow> action_run \<Rightarrow> bool orch" where
  "reconcileStep cf wc l run =
     (let cid = rl_case_id l; s = rn_step_id run in
      case dispatchable wc s of
        None \<Rightarrow> move_to cid s ActionHumanTakeover ''step has no action to reconcile''
      | Some st \<Rightarrow>
          obind (prepare_action wc (rl_plan_revision l) st) (\<lambda>prepared.
            case prepared of
              None \<Rightarrow> move_to cid s ActionHumanTakeover ''governor could not prepare action for reconcile''
            | Some (req, _, _) \<Rightarrow>
                obind (reconcile req) (\<lambda>r.
                  case r of
                    Inl ErrTransportTimeout \<Rightarrow>
                      obind (bumpReconcile cf cid s) (\<lambda>exhausted.
                        if exhausted
                        then move_to cid s ActionHumanTakeover ''reconcile authority unreachable; reconcile attempts exhausted''
                        else Ret False)
                  | Inl _ \<Rightarrow> move_to cid s ActionHumanTakeover ''reconcile failed: ''
                  | Inr None \<Rightarrow>
                      if rn_state run = ActionResultUnknown
                      then obind (retryOrEscalate cf cid s ''reconcile found no execution; safe retry'') (\<lambda>_. Ret True)
                      else
                        obind (bumpReconcile cf cid s) (\<lambda>exhausted.
                          if exhausted
                          then move_to cid s ActionHumanTakeover ''dispatched run unresolved; not safe to auto-retry''
                          else Ret False)
                  | Inr (Some receipt) \<Rightarrow>
                      if VerifyActionReceipt (cf_trust cf) req receipt (cf_key_id cf) (cf_key cf) \<noteq> None
                      then move_to cid s ActionHumanTakeover ''reconciled receipt failed verification: ''
                      else
                        obind (if rc_result_code receipt = ''succeeded'' then completeStep l s req receipt
                               else applyFailurePolicy cf l s st (''reconciled receipt reported result_code='' @ rc_result_code receipt))
                          (\<lambda>_. Ret True))))"

definition compensateStep :: "orch_config \<Rightarrow> work_case \<Rightarrow> run_ledger \<Rightarrow> action_run \<Rightarrow> bool orch" where
  "compensateStep cf wc l run =
     (let cid = rl_case_id l; s = rn_step_id run in
      case (case stepByID wc s of None \<Rightarrow> None
            | Some st \<Rightarrow> (case st_action st of None \<Rightarrow> None
                          | Some a \<Rightarrow> if as_compensation_action_id a = None then None else Some st)) of
        None \<Rightarrow> move_to cid s ActionHumanTakeover ''no compensation action to run''
      | Some st \<Rightarrow>
          obind (prepare_reversal wc (rl_plan_revision l) st) (\<lambda>prepared.
            case prepared of
              None \<Rightarrow> move_to cid s ActionHumanTakeover ''governor could not prepare compensation''
            | Some req \<Rightarrow>
                obind (transition cid s ActionCompensationDispatched ''dispatching compensation'') (\<lambda>applied.
                  if \<not> applied then Ret False
                  else
                    obind (dispatch cid s Reversal req) (\<lambda>r.
                      case r of
                        Inl _ \<Rightarrow> move_to cid s ActionHumanTakeover ''compensation dispatch failed: ''
                      | Inr receipt \<Rightarrow>
                          if VerifyActionReceipt (cf_trust cf) req receipt (cf_key_id cf) (cf_key cf) \<noteq> None
                          then move_to cid s ActionHumanTakeover ''compensation receipt failed verification: ''
                          else if rc_result_code receipt \<noteq> ''succeeded''
                          then move_to cid s ActionHumanTakeover (''compensation reported result_code='' @ rc_result_code receipt)
                          else
                            obind (transitionWith cid s ActionCompensated (''compensation verified '' @ rc_receipt_id receipt)
                                     (RecordReversal req receipt)) (\<lambda>_. Ret True)))))"

definition compensationDispatchedRest :: "orch_config \<Rightarrow> run_ledger \<Rightarrow> action_run \<Rightarrow> bool orch" where
  "compensationDispatchedRest cf l run =
     obind (bumpReconcile cf (rl_case_id l) (rn_step_id run)) (\<lambda>exhausted.
       if exhausted
       then move_to (rl_case_id l) (rn_step_id run) ActionHumanTakeover ''compensation unresolved; not safe to auto-retry''
       else Ret False)"

definition replanStep :: "orch_config \<Rightarrow> work_case \<Rightarrow> run_ledger \<Rightarrow> action_run \<Rightarrow> bool orch" where
  "replanStep cf wc l run =
     (let cid = rl_case_id l; s = rn_step_id run in
      if \<not> cf_planner cf \<or> rl_replans l \<ge> cf_max_attempts cf
      then move_to cid s ActionHumanTakeover ''replanning unavailable or exhausted''
      else
        obind (propose wc) (\<lambda>proposed.
          case proposed of
            None \<Rightarrow> move_to cid s ActionHumanTakeover ''planner proposal failed: ''
          | Some plan \<Rightarrow>
              if ValidatePlan plan \<noteq> None
              then move_to cid s ActionHumanTakeover ''proposed plan is invalid: ''
              else
                obind (case_service (ReqProposePlan (ledger_command l (wc_revision wc)
                         (''replan-'' @ shortHash (cid @ '':'' @ format_uint (wc_revision wc)))) plan)) (\<lambda>r.
                  case r of
                    Inl _ \<Rightarrow> move_to cid s ActionHumanTakeover ''persisting replan failed: ''
                  | Inr _ \<Rightarrow> obind (transform cid CountReplan) (\<lambda>_. Ret True))))"

definition stepOnce :: "orch_config \<Rightarrow> work_case \<Rightarrow> run_ledger \<Rightarrow> action_run \<Rightarrow> bool orch" where
  "stepOnce cf wc l run =
     (case rn_state run of
        ActionCompleted \<Rightarrow> Ret False
      | ActionCompensated \<Rightarrow> Ret False
      | ActionHumanTakeover \<Rightarrow> Ret False
      | ActionTerminated \<Rightarrow> Ret False
      | ActionPending \<Rightarrow> dispatchStep cf wc l run
      | ActionRetrying \<Rightarrow> dispatchStep cf wc l run
      | ActionDispatched \<Rightarrow> reconcileStep cf wc l run
      | ActionResultUnknown \<Rightarrow> reconcileStep cf wc l run
      | ActionCompensating \<Rightarrow> compensateStep cf wc l run
      | ActionCompensationDispatched \<Rightarrow> compensationDispatchedRest cf l run
      | ActionReplanning \<Rightarrow> replanStep cf wc l run
      | ActionOther s \<Rightarrow> Err (ErrUnhandledState (ActionOther s)))"

subsection \<open>The outcome of a finished plan\<close>

definition outcomeKeyFor :: "string \<Rightarrow> string" where
  "outcomeKeyFor caseID = caseID @ '':outcome''"

definition need_postcondition :: "action_request \<Rightarrow> string \<Rightarrow> string" where
  "need_postcondition req need =
     (case find (\<lambda>pc. pc_verification_need_id pc = need) (ar_postconditions req) of
        None \<Rightarrow> [] | Some pc \<Rightarrow> pc_postcondition_id pc)"

fun gather_needs ::
    "outcome_config \<Rightarrow> work_case \<Rightarrow> run_ledger \<Rightarrow> string list \<Rightarrow> queued_need list
      \<Rightarrow> (required_postcondition list \<times> observation_input list) \<Rightarrow> (required_postcondition list \<times> observation_input list) orch" where
  "gather_needs oc wc l seen [] acc = Ret acc"
| "gather_needs oc wc l seen (q # qs) acc =
     (if qn_need_id q \<in> set seen then gather_needs oc wc l seen qs acc
      else case dispatchable wc (qn_step_id q) of
        None \<Rightarrow> gather_needs oc wc l seen qs acc
      | Some st \<Rightarrow>
          obind (prepare_action wc (rl_plan_revision l) st) (\<lambda>prepared.
            case prepared of
              None \<Rightarrow> Err ErrGovernor
            | Some (req, _, _) \<Rightarrow>
                if need_postcondition req (qn_need_id q) = [] then gather_needs oc wc l seen qs acc
                else
                  obind (observe req (qn_need_id q)) (\<lambda>obs.
                    gather_needs oc wc l (qn_need_id q # seen) qs
                      (fst acc @ [\<lparr>rp_need_id = qn_need_id q, rp_postcondition_id = need_postcondition req (qn_need_id q),
                           rp_authority = qn_authority q, rp_expected_hash = [],
                           rp_accepting_hashes = oc_accepting oc (qn_need_id q)\<rparr>],
                       snd acc @ (case obs of None \<Rightarrow> [] | Some r \<Rightarrow> [\<lparr>oi_request = req, oi_receipt = r\<rparr>])))))"

definition buildEvaluateCommand :: "orch_config \<Rightarrow> outcome_config \<Rightarrow> work_case \<Rightarrow> run_ledger \<Rightarrow> evaluate_command orch" where
  "buildEvaluateCommand cf oc wc l =
     obind (gather_needs oc wc l [] (rl_verify l) ([], [])) (\<lambda>(required, inputs).
     obind clock (\<lambda>now.
       Ret \<lparr>ec_tenant = rl_enterprise_id l, ec_outcome_key = outcomeKeyFor (rl_case_id l), ec_revision = 1, ec_supersedes = None,
            ec_goal = (oc_goal oc)\<lparr>gl_tenant := rl_enterprise_id l\<rparr>, ec_work_case_id = rl_case_id l,
            ec_work_case_revision = wc_revision wc, ec_work_plan_revision = rl_plan_revision l,
            ec_operating_map_version = oc_map_version oc, ec_org_version = oc_org_version oc,
            ec_policy = \<lparr>po_version = oc_policy_version oc, po_required = required\<rparr>, ec_decided_at = now,
            ec_trusted_key_id = cf_key_id cf, ec_trusted_key = cf_key cf, ec_observations = inputs, ec_actions = [],
            ec_blockers = [], ec_statements = [],
            ec_contributions = [\<lparr>cb_contributor_id = rl_actor_ref l, cb_kind = ''actor'', cb_weight = Fin 1\<rparr>],
            ec_revoked = []\<rparr>))"

definition finalizeCase :: "orch_config \<Rightarrow> work_case \<Rightarrow> run_ledger \<Rightarrow> bool orch" where
  "finalizeCase cf wc l =
     (case cf_outcome cf of None \<Rightarrow> Ret False
      | Some oc \<Rightarrow>
          obind (buildEvaluateCommand cf oc wc l) (\<lambda>cmd.
          obind (evaluate_outcome cmd) (\<lambda>r.
          obind (if r = Inl (ErrOutcomeStore ErrRevisionExists) then latest_outcome (ec_tenant cmd) (ec_outcome_key cmd) else Ret r)
            (\<lambda>r. obind (or_fail ErrOutcome r) (\<lambda>produced.
              case ocl_status (out_claim produced) of
                OutcomeSatisfied \<Rightarrow>
                  obind (close_case \<lparr>of_tenant = out_tenant produced, of_outcome_key = out_key produced,
                           of_revision = out_revision produced, of_org_scope = rl_org_scope l, of_actor_ref = rl_actor_ref l,
                           of_case_id = out_work_case_id produced\<rparr> (wc_revision wc)
                           (''close-'' @ shortHash (rl_case_id l @ '':'' @ out_id produced))) (\<lambda>_. Ret True)
              | OutcomeUnsatisfied \<Rightarrow>
                  obind (case_service (ReqTerminateCase (ledger_command l (wc_revision wc)
                           (''term-'' @ shortHash (rl_case_id l @ '':'' @ out_id produced))) ''business outcome unsatisfied''))
                    (\<lambda>r. obind (or_fail ErrCaseService r) (\<lambda>_. Ret True))
              | _ \<Rightarrow> Ret False)))))"

subsection \<open>Prepare and Advance\<close>

definition Prepare :: "string \<Rightarrow> string \<Rightarrow> string \<Rightarrow> run_ledger orch" where
  "Prepare ent org cid =
     obind (load cid) (\<lambda>r.
       case r of
         Inr existing \<Rightarrow> Ret existing
       | Inl e \<Rightarrow>
           if e \<noteq> ErrRunNotFound then Err (ErrRun e)
           else
             obind (get_case ent org cid) (\<lambda>wc.
             obind (save (seedRuns \<lparr>rl_case_id = cid, rl_enterprise_id = ent, rl_org_scope = org, rl_actor_ref = wc_actor_ref wc,
                      rl_revision = 0, rl_plan_revision = 0, rl_replans = 0, rl_runs = [], rl_decisions = [], rl_verify = []\<rparr> wc))
               (\<lambda>_. load_ledger cid)))"

definition syncPlan :: "work_case \<Rightarrow> run_ledger orch" where
  "syncPlan wc =
     obind (load_ledger (wc_id wc)) (\<lambda>cur.
       if rl_plan_revision cur = fst (topPlan wc) \<and> rl_runs cur \<noteq> [] then Ret cur
       else obind (transform (wc_id wc) (Reseed wc)) (\<lambda>(l, _). Ret l))"

fun advance_loop :: "orch_config \<Rightarrow> string \<Rightarrow> nat \<Rightarrow> bool \<Rightarrow> run_ledger \<Rightarrow> bool orch" where
  "advance_loop cf cid 0 progressed l = Ret progressed"
| "advance_loop cf cid (Suc n) progressed l =
     obind (get_case (rl_enterprise_id l) (rl_org_scope l) cid) (\<lambda>wc.
       if wc_status wc \<noteq> StatusExecuting then Ret progressed
       else
         obind (syncPlan wc) (\<lambda>l.
         obind (case currentActionableRun l of
                  None \<Rightarrow> finalizeCase cf wc l
                | Some run \<Rightarrow> stepOnce cf wc l run) (\<lambda>did.
           if \<not> did then Ret progressed
           else obind (load_ledger cid) (\<lambda>l. advance_loop cf cid n True l))))"

definition max_iters :: "orch_config \<Rightarrow> run_ledger \<Rightarrow> nat" where
  "max_iters cf l = nat ((int (length (rl_runs l)) + 1) * (cf_max_attempts cf + 6) + 16)"

record advance_result =
  av_case_id :: string
  av_progressed :: bool
  av_quiescent :: bool
  av_ledger :: run_ledger

definition Advance :: "orch_config \<Rightarrow> string \<Rightarrow> advance_result orch" where
  "Advance cf cid =
     obind (load_ledger cid) (\<lambda>l.
     obind (advance_loop cf cid (max_iters cf l) False l) (\<lambda>progressed.
     obind (load_ledger cid) (\<lambda>final.
       Ret \<lparr>av_case_id = cid, av_progressed = progressed, av_quiescent = isQuiescent final, av_ledger = final\<rparr>)))"

end
