(* ===== verification/OrchCalls.thy ===== *)
theory OrchCalls
  imports Orchestrator
begin

text \<open>
  The call discipline of the orchestrator: what each call of a goroutine depends on among the calls the
  same goroutine made before.

  A history lists the calls of one goroutine with their answers, newest first.  \<open>wp ok Q p h\<close> says that
  every call program \<open>p\<close> can make after history \<open>h\<close>, whatever the answers, satisfies \<open>ok\<close>, and that its
  result satisfies \<open>Q\<close>.  \<open>allowed\<close> is the discipline; the handlers of the orchestrator are shown to keep
  it one by one, and \<open>Advance_disciplined\<close> puts them together.
\<close>

type_synonym orch_call = "orch_op \<times> orch_resp"

primrec wp :: "(orch_op \<Rightarrow> orch_call list \<Rightarrow> bool) \<Rightarrow> ('a \<Rightarrow> orch_call list \<Rightarrow> bool) \<Rightarrow> 'a orch \<Rightarrow> orch_call list \<Rightarrow> bool" where
  "wp ok Q (Ret x) h = Q x h"
| "wp ok Q (Err e) h = True"
| "wp ok Q (Do a k) h = (ok a h \<and> (\<forall>r. wp ok Q (k r) ((a, r) # h)))"

lemma wp_obind [simp]: "wp ok Q (obind p f) h = wp ok (\<lambda>x h'. wp ok Q (f x) h') p h"
  by (induction p arbitrary: h) simp_all

lemma wp_mono:
  assumes "wp ok Q p h" and "\<And>x h'. set h \<subseteq> set h' \<Longrightarrow> Q x h' \<Longrightarrow> R x h'"
  shows "wp ok R p h"
  using assms
proof (induction p arbitrary: h)
  case (Do a k)
  have "wp ok R (k r) ((a, r) # h)" for r
    by (rule Do.IH [OF rangeI]) (use Do.prems in \<open>auto simp: subset_iff\<close>)
  then show ?case using Do.prems(1) by simp
qed simp_all

subsection \<open>Claims and dispatches\<close>

definition token :: "bool \<Rightarrow> action_state" where
  "token prim = (if prim then ActionDispatched else ActionCompensationDispatched)"

fun is_claim :: "string \<Rightarrow> string \<Rightarrow> bool \<Rightarrow> orch_call \<Rightarrow> bool" where
  "is_claim cid s prim (OpTransform c (Move t to reason eff), RsTransform (Inr (l, True))) = (c = cid \<and> t = s \<and> to = token prim)"
| "is_claim cid s prim _ = False"

fun is_dispatch :: "string \<Rightarrow> string \<Rightarrow> bool \<Rightarrow> orch_call \<Rightarrow> bool" where
  "is_dispatch cid s prim (OpDispatch c t kind req, r) = (c = cid \<and> t = s \<and> (prim \<longleftrightarrow> kind \<noteq> Reversal))"
| "is_dispatch cid s prim _ = False"

definition claims :: "string \<Rightarrow> string \<Rightarrow> bool \<Rightarrow> orch_call list \<Rightarrow> nat" where
  "claims cid s prim h = length (filter (is_claim cid s prim) h)"

definition dispatches :: "string \<Rightarrow> string \<Rightarrow> bool \<Rightarrow> orch_call list \<Rightarrow> nat" where
  "dispatches cid s prim h = length (filter (is_dispatch cid s prim) h)"

text \<open>
  The calls since the runs of a case were last seeded: by a saved ledger (\<open>Prepare\<close>) or by a \<open>Reseed\<close> that
  took place (a new plan revision).  Seeding starts every attempt counter at zero.
\<close>

fun seeds :: "string \<Rightarrow> orch_call \<Rightarrow> bool" where
  "seeds cid (OpSave l, r) = (rl_case_id l = cid)"
| "seeds cid (OpTransform c (Reseed wc), RsTransform (Inr (l, True))) = (c = cid)"
| "seeds cid _ = False"

definition since :: "string \<Rightarrow> orch_call list \<Rightarrow> orch_call list" where
  "since cid h = takeWhile (\<lambda>e. \<not> seeds cid e) h"

lemma since_simps [simp]:
  "since cid [] = []"
  "since cid (e # h) = (if seeds cid e then [] else e # since cid h)"
  by (simp_all add: since_def)

lemma since_append: "since cid (h @ h') = (if list_ex (seeds cid) h then since cid h else h @ since cid h')"
  by (induction h) auto

lemma since_unseeded: "\<not> list_ex (seeds cid) h \<Longrightarrow> since cid h = h"
  using since_append [of cid h "[]"] by simp

lemma count_simps [simp]:
  "claims cid s prim [] = 0" "dispatches cid s prim [] = 0"
  "claims cid s prim (e # h) = (if is_claim cid s prim e then Suc (claims cid s prim h) else claims cid s prim h)"
  "dispatches cid s prim (e # h) = (if is_dispatch cid s prim e then Suc (dispatches cid s prim h) else dispatches cid s prim h)"
  "claims cid s prim (h @ h') = claims cid s prim h + claims cid s prim h'"
  "dispatches cid s prim (h @ h') = dispatches cid s prim h + dispatches cid s prim h'"
  by (simp_all add: claims_def dispatches_def)

lemma claim_no_seed: "is_claim cid s prim e \<Longrightarrow> \<not> seeds c e"
  by (cases "(cid, s, prim, e)" rule: is_claim.cases) auto

definition covered :: "string \<Rightarrow> string \<Rightarrow> bool \<Rightarrow> orch_call list \<Rightarrow> bool" where
  "covered cid s prim h \<longleftrightarrow> dispatches cid s prim h \<le> claims cid s prim h"

text \<open>Every dispatch is covered by a claim, over the whole history and since the last seeding.\<close>

definition balanced :: "orch_call list \<Rightarrow> bool" where
  "balanced h \<longleftrightarrow> (\<forall>cid s prim. covered cid s prim h \<and> covered cid s prim (since cid h))"

text \<open>A goroutine that holds a claim it has not used, made since the last seeding it caused.\<close>

definition spare :: "string \<Rightarrow> string \<Rightarrow> bool \<Rightarrow> orch_call list \<Rightarrow> bool" where
  "spare cid s prim h \<longleftrightarrow> dispatches cid s prim h < claims cid s prim h"

definition armed :: "string \<Rightarrow> string \<Rightarrow> bool \<Rightarrow> orch_call list \<Rightarrow> bool" where
  "armed cid s prim h \<longleftrightarrow> balanced h \<and> spare cid s prim h \<and> spare cid s prim (since cid h)"

fun dispatching :: "orch_op \<Rightarrow> bool" where
  "dispatching (OpDispatch _ _ _ _) = True"
| "dispatching _ = False"

lemma not_dispatch: "\<not> dispatching a \<Longrightarrow> \<not> is_dispatch cid s prim (a, r)"
  by (cases a) simp_all

lemma covered_call: "\<not> dispatching a \<Longrightarrow> covered cid s prim h \<Longrightarrow> covered cid s prim ((a, r) # h)"
  by (simp add: covered_def not_dispatch)

lemma spare_call: "\<not> dispatching a \<Longrightarrow> spare cid s prim h \<Longrightarrow> spare cid s prim ((a, r) # h)"
  by (simp add: spare_def not_dispatch)

lemma covered_Nil: "covered cid s prim []"
  by (simp add: covered_def)

lemma balanced_Nil: "balanced []"
  by (simp add: balanced_def covered_Nil)

lemma balanced_call: "\<not> dispatching a \<Longrightarrow> balanced h \<Longrightarrow> balanced ((a, r) # h)"
  by (simp add: balanced_def covered_call covered_Nil)

lemma armed_call:
  "\<not> dispatching a \<Longrightarrow> \<not> seeds cid (a, r) \<Longrightarrow> armed cid s prim h \<Longrightarrow> armed cid s prim ((a, r) # h)"
  by (simp add: armed_def balanced_call spare_call)

lemma armed_claim:
  assumes "balanced h"
  shows "armed cid s prim ((OpTransform cid (Move s (token prim) reason eff), RsTransform (Inr (l, True))) # h)"
  using assms by (simp add: armed_def balanced_call) (simp add: balanced_def covered_def spare_def less_Suc_eq_le)

lemma armed_dispatch:
  assumes "armed cid s (kind \<noteq> Reversal) h"
  shows "balanced ((OpDispatch cid s kind req, r) # h)"
  unfolding balanced_def
proof (intro allI)
  fix c t prim
  have step: "covered c t prim ((OpDispatch cid s kind req, r) # g)"
    if "covered c t prim g" and "c = cid \<Longrightarrow> spare cid s (kind \<noteq> Reversal) g" for g
    using that by (cases "c = cid \<and> t = s \<and> (prim \<longleftrightarrow> kind \<noteq> Reversal)") (auto simp: covered_def spare_def)
  show "covered c t prim ((OpDispatch cid s kind req, r) # h) \<and> covered c t prim (since c ((OpDispatch cid s kind req, r) # h))"
    using assms by (auto simp: armed_def balanced_def intro!: step)
qed

subsection \<open>The discipline\<close>

text \<open>A receipt the orchestrator may act on: verified for the request, and reported as succeeded.\<close>

definition proven :: "orch_config \<Rightarrow> action_request \<Rightarrow> action_receipt \<Rightarrow> bool" where
  "proven cf req receipt \<longleftrightarrow>
     VerifyActionReceipt (cf_trust cf) req receipt (cf_key_id cf) (cf_key cf) = None \<and> rc_result_code receipt = ''succeeded''"

text \<open>The gateway returned \<open>receipt\<close> for \<open>req\<close> to this goroutine.\<close>

definition returned :: "action_request \<Rightarrow> action_receipt \<Rightarrow> orch_call list \<Rightarrow> bool" where
  "returned req receipt h \<longleftrightarrow>
     (OpReconcile req, RsReconcile (Inr (Some receipt))) \<in> set h
   \<or> (\<exists>cid s kind. (OpDispatch cid s kind req, RsDispatch (Inr receipt)) \<in> set h)"

definition produced :: "outcome \<Rightarrow> orch_call list \<Rightarrow> bool" where
  "produced x h \<longleftrightarrow> (\<exists>cmd. (OpEvaluate cmd, RsOutcome (Inr x)) \<in> set h) \<or> (\<exists>t k. (OpLatest t k, RsOutcome (Inr x)) \<in> set h)"

text \<open>A dispatch uses a claim of the same goroutine on the same request, and a side effect was reviewed.\<close>

fun dispatch_allowed :: "orch_config \<Rightarrow> string \<Rightarrow> string \<Rightarrow> dispatch_kind \<Rightarrow> action_request \<Rightarrow> orch_call list \<Rightarrow> bool" where
  "dispatch_allowed cf cid s (Primary se parties) req h \<longleftrightarrow>
     armed cid s True h
   \<and> (\<exists>wc n st. (OpPrepare wc n st, RsPrepare (Some (req, parties, se))) \<in> set h)
   \<and> (se \<longrightarrow> Evaluate (cf_policy cf) parties (govRisk (ar_risk req)) = None)
   \<and> (\<exists>reason l. (OpTransform cid (Move s ActionDispatched reason (ClaimDispatch (ar_idempotency_key req))),
                   RsTransform (Inr (l, True))) \<in> set h)"
| "dispatch_allowed cf cid s Reversal req h \<longleftrightarrow>
     armed cid s False h \<and> (\<exists>wc n st. (OpPrepareReversal wc n st, RsRequest (Some req)) \<in> set h)"

text \<open>
  A completion and a reversal record a proven receipt of the gateway; a retry follows a load that shows
  an attempt left; nothing returns a run to \<open>pending\<close>.
\<close>

definition move_allowed ::
    "orch_config \<Rightarrow> string \<Rightarrow> string \<Rightarrow> action_state \<Rightarrow> run_effect \<Rightarrow> orch_call list \<Rightarrow> bool" where
  "move_allowed cf cid s to eff h \<longleftrightarrow>
     (to = ActionCompleted \<longrightarrow>
        (\<exists>req receipt. eff = RecordCompletion req receipt \<and> proven cf req receipt \<and> returned req receipt h))
   \<and> (to = ActionCompensated \<longrightarrow>
        (\<exists>req receipt. eff = RecordReversal req receipt \<and> proven cf req receipt \<and> returned req receipt h))
   \<and> (to = ActionRetrying \<longrightarrow>
        (\<exists>l run. h \<noteq> [] \<and> hd h = (OpLoad cid, RsLedger (Inr l)) \<and> runByID l s = Some run \<and> rn_attempts run < cf_max_attempts cf))
   \<and> (to = ActionDispatched \<longleftrightarrow> (\<exists>key. eff = ClaimDispatch key))
   \<and> to \<noteq> ActionPending"

fun service_allowed :: "orch_config \<Rightarrow> svc_req \<Rightarrow> orch_call list \<Rightarrow> bool" where
  "service_allowed cf (ReqAdvanceStep c s target ev) h \<longleftrightarrow>
     (target = StepCompleted \<longrightarrow>
        (\<exists>req receipt. ev = [\<lparr>we_handle = rc_receipt_id receipt, we_content_hash = rc_parameter_hash receipt,
                               we_authority = rc_executor_identity receipt\<rparr>]
           \<and> proven cf req receipt \<and> returned req receipt h))"
| "service_allowed cf (ReqProposePlan c p) h \<longleftrightarrow> ValidatePlan p = None \<and> (\<exists>wc. (OpPlan wc, RsPlan (Some p)) \<in> set h)"
| "service_allowed cf (ReqTerminateCase c reason) h \<longleftrightarrow>
     (\<exists>x. produced x h \<and> ocl_status (out_claim x) = OutcomeUnsatisfied)"
| "service_allowed cf _ h \<longleftrightarrow> False"

fun allowed :: "orch_config \<Rightarrow> orch_op \<Rightarrow> orch_call list \<Rightarrow> bool" where
  "allowed cf (OpDispatch cid s kind req) h = dispatch_allowed cf cid s kind req h"
| "allowed cf (OpTransform cid (Move s to reason eff)) h = move_allowed cf cid s to eff h"
| "allowed cf (OpSave l) h = False"
| "allowed cf (OpCase req) h = service_allowed cf req h"
| "allowed cf (OpClose ref n key) h =
     (\<exists>x. produced x h \<and> ocl_status (out_claim x) = OutcomeSatisfied
        \<and> of_outcome_key ref = out_key x \<and> of_revision ref = out_revision x \<and> of_case_id ref = out_work_case_id x)"
| "allowed cf _ h = True"

subsection \<open>Rules for the calls\<close>

lemma wp_load [simp]: "wp ok Q (load cid) h \<longleftrightarrow> ok (OpLoad cid) h \<and> (\<forall>x. Q x ((OpLoad cid, RsLedger x) # h))"
  by (auto simp: load_def split: orch_resp.splits)

lemma wp_or_fail [simp]: "wp ok Q (or_fail f r) h \<longleftrightarrow> (\<forall>x. r = Inr x \<longrightarrow> Q x h)"
  by (auto simp: or_fail_def split: sum.splits)

lemma wp_load_ledger [simp]:
  "wp ok Q (load_ledger cid) h \<longleftrightarrow> ok (OpLoad cid) h \<and> (\<forall>l. Q l ((OpLoad cid, RsLedger (Inr l)) # h))"
  by (auto simp: load_ledger_def)

lemma wp_transform [simp]:
  "wp ok Q (transform cid u) h \<longleftrightarrow>
     ok (OpTransform cid u) h \<and> (\<forall>l b. Q (l, b) ((OpTransform cid u, RsTransform (Inr (l, b))) # h))"
  by (auto simp: transform_def split: orch_resp.splits sum.splits)

lemma wp_get_case [simp]:
  "wp ok Q (get_case e org cid) h \<longleftrightarrow> ok (OpGet e org cid) h \<and> (\<forall>wc. Q wc ((OpGet e org cid, RsCase (Inr wc)) # h))"
  by (auto simp: get_case_def split: orch_resp.splits sum.splits)

lemma wp_case_service [simp]:
  "wp ok Q (case_service req) h \<longleftrightarrow> ok (OpCase req) h \<and> (\<forall>x. Q x ((OpCase req, RsCase x) # h))"
  by (auto simp: case_service_def split: orch_resp.splits)

lemma wp_prepare [simp]:
  "wp ok Q (prepare_action wc n st) h \<longleftrightarrow> ok (OpPrepare wc n st) h \<and> (\<forall>x. Q x ((OpPrepare wc n st, RsPrepare x) # h))"
  by (auto simp: prepare_action_def split: orch_resp.splits)

lemma wp_prepare_reversal [simp]:
  "wp ok Q (prepare_reversal wc n st) h \<longleftrightarrow>
     ok (OpPrepareReversal wc n st) h \<and> (\<forall>x. Q x ((OpPrepareReversal wc n st, RsRequest x) # h))"
  by (auto simp: prepare_reversal_def split: orch_resp.splits)

lemma wp_dispatch [simp]:
  "wp ok Q (dispatch cid s kind req) h \<longleftrightarrow>
     ok (OpDispatch cid s kind req) h \<and> (\<forall>x. Q x ((OpDispatch cid s kind req, RsDispatch x) # h))"
  by (auto simp: dispatch_def split: orch_resp.splits)

lemma wp_reconcile [simp]:
  "wp ok Q (reconcile req) h \<longleftrightarrow> ok (OpReconcile req) h \<and> (\<forall>x. Q x ((OpReconcile req, RsReconcile x) # h))"
  by (auto simp: reconcile_def split: orch_resp.splits)

lemma wp_propose [simp]:
  "wp ok Q (propose wc) h \<longleftrightarrow> ok (OpPlan wc) h \<and> (\<forall>x. Q x ((OpPlan wc, RsPlan x) # h))"
  by (auto simp: propose_def split: orch_resp.splits)

lemma wp_observe [simp]:
  "wp ok Q (observe req need) h \<longleftrightarrow>
     ok (OpObserve req need) h \<and> (\<forall>x. Q x ((OpObserve req need, RsObserve (Some x)) # h))"
  by (auto simp: observe_def split: orch_resp.splits option.splits)

lemma wp_evaluate [simp]:
  "wp ok Q (evaluate_outcome cmd) h \<longleftrightarrow> ok (OpEvaluate cmd) h \<and> (\<forall>x. Q x ((OpEvaluate cmd, RsOutcome x) # h))"
  by (auto simp: evaluate_outcome_def split: orch_resp.splits)

lemma wp_latest [simp]:
  "wp ok Q (latest_outcome t k) h \<longleftrightarrow> ok (OpLatest t k) h \<and> (\<forall>x. Q x ((OpLatest t k, RsOutcome x) # h))"
  by (auto simp: latest_outcome_def split: orch_resp.splits)

lemma wp_close [simp]:
  "wp ok Q (close_case ref n key) h \<longleftrightarrow> ok (OpClose ref n key) h \<and> Q () ((OpClose ref n key, RsClosure None) # h)"
  by (auto simp: close_case_def split: orch_resp.splits option.splits)

lemma wp_clock [simp]: "wp ok Q clock h \<longleftrightarrow> ok OpNow h \<and> (\<forall>t. Q t ((OpNow, RsNow t) # h))"
  by (auto simp: clock_def split: orch_resp.splits)

text \<open>A program keeps the discipline from history \<open>h\<close> and ends with its dispatches covered by claims.\<close>

abbreviation keeps :: "orch_config \<Rightarrow> 'a orch \<Rightarrow> orch_call list \<Rightarrow> bool" where
  "keeps cf p h \<equiv> wp (allowed cf) (\<lambda>_. balanced) p h"

lemma keeps_then:
  "keeps cf p h \<Longrightarrow> (\<And>x h'. set h \<subseteq> set h' \<Longrightarrow> balanced h' \<Longrightarrow> keeps cf (f x) h') \<Longrightarrow> keeps cf (obind p f) h"
  unfolding wp_obind by (erule wp_mono) blast

lemma returned_mono: "set h \<subseteq> set h' \<Longrightarrow> returned req rc h \<Longrightarrow> returned req rc h'"
  unfolding returned_def by blast

lemma produced_mono: "set h \<subseteq> set h' \<Longrightarrow> produced x h \<Longrightarrow> produced x h'"
  unfolding produced_def by blast

subsection \<open>The handlers keep it\<close>

lemma keeps_advanceStep:
  "balanced h \<Longrightarrow> service_allowed cf (ReqAdvanceStep (ledger_command l n k) s target ev) h
    \<Longrightarrow> keeps cf (advanceStep l n s target ev) h"
  by (simp add: advanceStep_def balanced_call)

lemma keeps_markStepFailed: "balanced h \<Longrightarrow> keeps cf (markStepFailed cid s) h"
  by (simp add: markStepFailed_def balanced_call keeps_advanceStep)

lemma keeps_transition:
  assumes "balanced h" and "move_allowed cf cid s to eff h"
  shows "keeps cf (transitionWith cid s to reason eff) h"
  using assms by (simp add: transitionWith_def balanced_call)
    (auto intro!: wp_mono [OF keeps_markStepFailed] balanced_call)

lemma keeps_move_to:
  "balanced h \<Longrightarrow> to \<notin> {ActionCompleted, ActionCompensated, ActionRetrying, ActionDispatched, ActionPending}
    \<Longrightarrow> keeps cf (transition cid s to reason) h"
  unfolding transition_def by (rule keeps_transition) (auto simp: move_allowed_def)

text \<open>A transition to one of the two claimed states leaves the claim in hand when it applied.\<close>

lemma wp_claim:
  assumes "balanced h" and "move_allowed cf cid s (token prim) eff h"
    and "\<And>l. Q False ((OpTransform cid (Move s (token prim) reason eff), RsTransform (Inr (l, False))) # h)"
    and "\<And>l. Q True ((OpTransform cid (Move s (token prim) reason eff), RsTransform (Inr (l, True))) # h)"
  shows "wp (allowed cf) Q (transitionWith cid s (token prim) reason eff) h"
proof -
  have "token prim \<notin> {ActionHumanTakeover, ActionTerminated, ActionCompensated}" by (simp add: token_def)
  then show ?thesis using assms by (auto simp: transitionWith_def all_bool_eq)
qed

lemma keeps_retryOrEscalate: "balanced h \<Longrightarrow> keeps cf (retryOrEscalate cf cid s reason) h"
  by (auto simp: retryOrEscalate_def transition_def move_allowed_def balanced_call split: option.splits
      intro!: keeps_transition wp_mono [OF keeps_transition])

lemma keeps_mark_running:
  assumes "armed cid s True h"
  shows "wp (allowed cf) (\<lambda>_ h'. armed cid s True h' \<and> set h \<subseteq> set h') (markStepRunning l t) h"
  using assms by (auto simp: markStepRunning_def advanceStep_def armed_call)

lemma keeps_markStepCompleted:
  assumes "balanced h" and "returned req receipt h" and "proven cf req receipt"
  shows "keeps cf (markStepCompleted l s \<lparr>we_handle = rc_receipt_id receipt, we_content_hash = rc_parameter_hash receipt,
            we_authority = rc_executor_identity receipt\<rparr>) h"
proof -
  have ev: "service_allowed cf (ReqAdvanceStep c s StepCompleted [\<lparr>we_handle = rc_receipt_id receipt,
      we_content_hash = rc_parameter_hash receipt, we_authority = rc_executor_identity receipt\<rparr>]) h'"
    if "set h \<subseteq> set h'" for c h'
    using returned_mono [OF that assms(2)] assms(3) by auto
  have *: "keeps cf (obind (advanceStep l n s StepCompleted [\<lparr>we_handle = rc_receipt_id receipt,
      we_content_hash = rc_parameter_hash receipt, we_authority = rc_executor_identity receipt\<rparr>]) (\<lambda>_. Ret ())) h'"
    if "set h \<subseteq> set h'" and "balanced h'" for n h'
    using keeps_advanceStep [OF that(2) ev [OF that(1)]] by simp
  have run: "keeps cf (advanceStep l n s StepRunning []) h'" if "balanced h'" for n h'
    using keeps_advanceStep [OF that] by simp
  show ?thesis
    unfolding markStepCompleted_def
    using assms(1)
    by (auto simp del: wp_obind simp: wp_obind [of _ _ "get_case _ _ _"] balanced_call intro!: keeps_then [OF run] *)
qed

lemma keeps_completeStep:
  assumes "balanced h" and "returned req receipt h" and "proven cf req receipt"
  shows "keeps cf (completeStep l s req receipt) h"
  unfolding completeStep_def
proof (rule keeps_then [OF keeps_markStepCompleted [OF assms]])
  fix u h' assume "set h \<subseteq> set h'" and b: "balanced h'"
  then have "move_allowed cf (rl_case_id l) s ActionCompleted (RecordCompletion req receipt) h'"
    using assms(2,3) by (auto simp: move_allowed_def returned_mono)
  then show "keeps cf (obind (transitionWith (rl_case_id l) s ActionCompleted (''verified receipt '' @ rc_receipt_id receipt)
      (RecordCompletion req receipt)) (\<lambda>_. Ret ())) h'"
    using keeps_transition [OF b] by simp
qed

lemma keeps_applyFailurePolicy: "balanced h \<Longrightarrow> keeps cf (applyFailurePolicy cf l s st reason) h"
  by (simp add: applyFailurePolicy_def Let_def keeps_move_to keeps_retryOrEscalate)

lemma keeps_applyReceipt:
  "balanced h \<Longrightarrow> returned req receipt h \<Longrightarrow> keeps cf (applyReceipt cf l s st req receipt) h"
  by (simp add: applyReceipt_def keeps_move_to keeps_applyFailurePolicy keeps_completeStep proven_def)

lemma keeps_handleDispatchError: "balanced h \<Longrightarrow> keeps cf (handleDispatchError cf l s se e) h"
  by (simp add: handleDispatchError_def keeps_move_to keeps_retryOrEscalate split: dispatch_err.splits)

lemma keeps_bumpReconcile: "balanced h \<Longrightarrow> keeps cf (bumpReconcile cf cid s) h"
  by (simp add: bumpReconcile_def balanced_call)

lemma keeps_give_up:
  "balanced h \<Longrightarrow> keeps cf (move_to cid s ActionHumanTakeover reason) h"
  by (simp add: move_to_def keeps_move_to)

lemma keeps_dispatchStep:
  assumes "balanced h"
  shows "keeps cf (dispatchStep cf wc l run) h"
proof (cases "dispatchable wc (rn_step_id run)")
  case None
  then show ?thesis using assms by (simp add: dispatchStep_def keeps_give_up)
next
  case (Some st)
  let ?cid = "rl_case_id l" and ?s = "rn_step_id run"
  have main: "keeps cf
     (obind (transitionWith ?cid ?s ActionDispatched ''dispatching action'' (ClaimDispatch (ar_idempotency_key req))) (\<lambda>applied.
        if \<not> applied then Ret False
        else obind (markStepRunning l ?s) (\<lambda>_.
             obind (dispatch ?cid ?s (Primary se parties) req) (\<lambda>r.
             obind (case r of Inl derr \<Rightarrow> handleDispatchError cf l ?s se derr
                            | Inr receipt \<Rightarrow> applyReceipt cf l ?s st req receipt) (\<lambda>_. Ret True))))) h'"
    if b: "balanced h'" and prep: "(OpPrepare wc (rl_plan_revision l) st, RsPrepare (Some (req, parties, se))) \<in> set h'"
      and rev: "se \<longrightarrow> Evaluate (cf_policy cf) parties (govRisk (ar_risk req)) = None" for h' req parties se
  proof -
    let ?mv = "OpTransform ?cid (Move ?s ActionDispatched ''dispatching action'' (ClaimDispatch (ar_idempotency_key req)))"
    have ok: "move_allowed cf ?cid ?s (token True) (ClaimDispatch (ar_idempotency_key req)) h'"
      by (simp add: move_allowed_def token_def)
    have rest: "keeps cf (obind (dispatch ?cid ?s (Primary se parties) req) (\<lambda>r.
             obind (case r of Inl derr \<Rightarrow> handleDispatchError cf l ?s se derr
                            | Inr receipt \<Rightarrow> applyReceipt cf l ?s st req receipt) (\<lambda>_. Ret True))) h2"
      if a: "armed ?cid ?s True h2" and sub: "set ((?mv, RsTransform (Inr (l', True))) # h') \<subseteq> set h2" for h2 l'
    proof -
      have d: "dispatch_allowed cf ?cid ?s (Primary se parties) req h2"
        using a sub prep rev by auto
      have b2: "balanced ((OpDispatch ?cid ?s (Primary se parties) req, r) # h2)" for r
        using armed_dispatch [of ?cid ?s "Primary se parties" h2] a by simp
      have "returned req receipt ((OpDispatch ?cid ?s (Primary se parties) req, RsDispatch (Inr receipt)) # h2)" for receipt
        by (auto simp: returned_def)
      then show ?thesis
        using d b2 by (simp add: keeps_handleDispatchError keeps_applyReceipt split: sum.split)
    qed
    have claimed: "keeps cf (obind (markStepRunning l ?s) (\<lambda>_.
             obind (dispatch ?cid ?s (Primary se parties) req) (\<lambda>r.
             obind (case r of Inl derr \<Rightarrow> handleDispatchError cf l ?s se derr
                            | Inr receipt \<Rightarrow> applyReceipt cf l ?s st req receipt) (\<lambda>_. Ret True))))
             ((?mv, RsTransform (Inr (l', True))) # h')" for l'
    proof -
      have a: "armed ?cid ?s True ((?mv, RsTransform (Inr (l', True))) # h')"
        using armed_claim [OF b, of ?cid ?s True] by (simp add: token_def)
      show ?thesis by (subst wp_obind) (rule wp_mono [OF keeps_mark_running [OF a]], rule rest, auto)
    qed
    show ?thesis
      using claimed ok b
      by (subst wp_obind) (rule wp_claim [where prim = True, unfolded token_def if_True],
          simp_all only: token_def if_True simp_thms if_False wp.simps balanced_call dispatching.simps not_False_eq_True)
  qed
  show ?thesis
    using Some assms
    by (auto simp del: wp_obind simp: wp_obind [of _ _ "prepare_action _ _ _"] dispatchStep_def balanced_call
        split: option.split intro!: keeps_give_up main)
qed

lemma keeps_reconcileStep:
  assumes "balanced h"
  shows "keeps cf (reconcileStep cf wc l run) h"
proof (cases "dispatchable wc (rn_step_id run)")
  case None
  then show ?thesis using assms by (simp add: reconcileStep_def keeps_give_up)
next
  case (Some st)
  have ret: "returned req rc ((OpReconcile req, RsReconcile (Inr (Some rc))) # h')" for req rc h'
    by (simp add: returned_def)
  have bump: "keeps cf (obind (bumpReconcile cf cid s)
      (\<lambda>exhausted. if exhausted then move_to cid s ActionHumanTakeover reason else Ret False)) h'"
    if "balanced h'" for cid s reason h'
    by (rule keeps_then [OF keeps_bumpReconcile [OF that]]) (simp add: keeps_give_up)
  show ?thesis
    using Some assms
    by (auto simp del: wp_obind simp: wp_obind [of _ _ "prepare_action _ _ _"] wp_obind [of _ _ "reconcile _"]
        reconcileStep_def Let_def balanced_call proven_def
        split: option.split sum.split dispatch_err.split
        intro!: keeps_give_up bump keeps_then [OF keeps_retryOrEscalate] keeps_then [OF keeps_completeStep]
          keeps_then [OF keeps_applyFailurePolicy] ret)
qed

lemma keeps_compensateStep:
  assumes "balanced h"
  shows "keeps cf (compensateStep cf wc l run) h"
proof -
  let ?cid = "rl_case_id l" and ?s = "rn_step_id run"
  have undone: "keeps cf (obind (transitionWith ?cid ?s ActionCompensated reason
      (RecordReversal req rc)) (\<lambda>_. Ret True)) ((OpDispatch ?cid ?s Reversal req, RsDispatch (Inr rc)) # h')"
    if "balanced ((OpDispatch ?cid ?s Reversal req, RsDispatch (Inr rc)) # h')" and "proven cf req rc" for req rc reason h'
    by (rule keeps_then [OF keeps_transition])
      (use that in \<open>auto simp: move_allowed_def returned_def\<close>)
  have main: "keeps cf
     (obind (transition ?cid ?s ActionCompensationDispatched ''dispatching compensation'') (\<lambda>applied.
        if \<not> applied then Ret False
        else obind (dispatch ?cid ?s Reversal req) (\<lambda>r.
          case r of
            Inl _ \<Rightarrow> move_to ?cid ?s ActionHumanTakeover ''compensation dispatch failed: ''
          | Inr receipt \<Rightarrow>
              if VerifyActionReceipt (cf_trust cf) req receipt (cf_key_id cf) (cf_key cf) \<noteq> None
              then move_to ?cid ?s ActionHumanTakeover ''compensation receipt failed verification: ''
              else if rc_result_code receipt \<noteq> ''succeeded''
              then move_to ?cid ?s ActionHumanTakeover (''compensation reported result_code='' @ rc_result_code receipt)
              else obind (transitionWith ?cid ?s ActionCompensated (''compensation verified '' @ rc_receipt_id receipt)
                            (RecordReversal req receipt)) (\<lambda>_. Ret True)))) h'"
    if b: "balanced h'" and prep: "(OpPrepareReversal wc (rl_plan_revision l) st, RsRequest (Some req)) \<in> set h'"
    for h' req st
  proof -
    let ?mv = "OpTransform ?cid (Move ?s ActionCompensationDispatched ''dispatching compensation'' NoEffect)"
    have ok: "move_allowed cf ?cid ?s (token False) NoEffect h'" by (simp add: move_allowed_def token_def)
    have a: "armed ?cid ?s False ((?mv, RsTransform (Inr (l', True))) # h')" for l'
      using armed_claim [OF b, of ?cid ?s False] by (simp add: token_def)
    have b2: "balanced ((OpDispatch ?cid ?s Reversal req, r) # (?mv, RsTransform (Inr (l', True))) # h')" for r l'
      by (rule armed_dispatch) (simp add: a)
    show ?thesis
      unfolding transition_def
      by (subst wp_obind, rule wp_claim [where prim = False, unfolded token_def if_False])
        (use ok b prep a b2 in \<open>auto simp del: wp_obind simp: wp_obind [of _ _ "dispatch _ _ _ _"] token_def balanced_call proven_def
           split: sum.split intro!: keeps_give_up undone\<close>)
  qed
  show ?thesis
    using assms
    by (auto simp del: wp_obind simp: wp_obind [of _ _ "prepare_reversal _ _ _"] compensateStep_def Let_def balanced_call
        split: option.split intro!: keeps_give_up main)
qed

lemma keeps_replanStep:
  assumes "balanced h"
  shows "keeps cf (replanStep cf wc l run) h"
  using assms
  by (auto simp del: wp_obind simp: wp_obind [of _ _ "propose _"] wp_obind [of _ _ "case_service _"]
      wp_obind [of _ _ "transform _ _"] replanStep_def Let_def balanced_call
      split: option.split sum.split intro!: keeps_give_up)

lemma keeps_stepOnce:
  assumes "balanced h"
  shows "keeps cf (stepOnce cf wc l run) h"
proof -
  have "keeps cf (compensationDispatchedRest cf l run) h"
    unfolding compensationDispatchedRest_def
    by (rule keeps_then [OF keeps_bumpReconcile [OF assms]]) (simp add: keeps_give_up)
  then show ?thesis
    using assms by (cases "rn_state run")
      (simp_all add: stepOnce_def keeps_dispatchStep keeps_reconcileStep keeps_compensateStep keeps_replanStep)
qed

lemma keeps_gather_needs: "balanced h \<Longrightarrow> keeps cf (gather_needs oc wc l seen qs acc) h"
proof (induction qs arbitrary: seen acc h)
  case (Cons q qs)
  then show ?case
    by (auto simp del: wp_obind simp: wp_obind [of _ _ "prepare_action _ _ _"] wp_obind [of _ _ "observe _ _"] balanced_call
        split: option.split)
qed simp

lemma keeps_buildEvaluateCommand: "balanced h \<Longrightarrow> keeps cf (buildEvaluateCommand cf oc wc l) h"
  unfolding buildEvaluateCommand_def
  by (rule keeps_then [OF keeps_gather_needs])
    (auto simp del: wp_obind simp: wp_obind [of _ _ clock] balanced_call split: prod.split)

lemma keeps_finalizeCase:
  assumes "balanced h"
  shows "keeps cf (finalizeCase cf wc l) h"
proof -
  have last_part: "keeps cf (obind (or_fail ErrOutcome r) (\<lambda>x.
      case ocl_status (out_claim x) of
        OutcomeSatisfied \<Rightarrow>
          obind (close_case \<lparr>of_tenant = out_tenant x, of_outcome_key = out_key x, of_revision = out_revision x,
                   of_org_scope = rl_org_scope l, of_actor_ref = rl_actor_ref l, of_case_id = out_work_case_id x\<rparr> (wc_revision wc)
                   (''close-'' @ shortHash (rl_case_id l @ '':'' @ out_id x))) (\<lambda>_. Ret True)
      | OutcomeUnsatisfied \<Rightarrow>
          obind (case_service (ReqTerminateCase (ledger_command l (wc_revision wc)
                   (''term-'' @ shortHash (rl_case_id l @ '':'' @ out_id x))) ''business outcome unsatisfied''))
            (\<lambda>r. obind (or_fail ErrCaseService r) (\<lambda>_. Ret True))
      | _ \<Rightarrow> Ret False)) h'"
    if "balanced h'" and "\<And>x. r = Inr x \<Longrightarrow> produced x h'" for r h'
    using that by (auto simp: balanced_call split: outcome_status.split)
  show ?thesis
    using assms
    by (auto simp del: wp_obind simp: wp_obind [of _ _ "evaluate_outcome _"] wp_obind [of _ _ "latest_outcome _ _"]
        wp_obind [of _ _ "if _ then _ else _"] finalizeCase_def balanced_call
        split: option.split intro!: keeps_then [OF keeps_buildEvaluateCommand] last_part)
      (auto simp: produced_def)
qed

lemma keeps_syncPlan: "balanced h \<Longrightarrow> keeps cf (syncPlan wc) h"
  by (simp add: syncPlan_def balanced_call)

lemma keeps_advance_loop: "balanced h \<Longrightarrow> keeps cf (advance_loop cf cid n progressed l) h"
proof (induction n arbitrary: progressed l h)
  case (Suc n)
  have sync: "wp (allowed cf) (\<lambda>_. balanced) (syncPlan wc) h'" if "balanced h'" for wc h' using keeps_syncPlan [OF that] .
  have body: "keeps cf (obind (case currentActionableRun l' of None \<Rightarrow> finalizeCase cf wc l' | Some run \<Rightarrow> stepOnce cf wc l' run)
      (\<lambda>did. if \<not> did then Ret progressed else obind (load_ledger cid) (\<lambda>l. advance_loop cf cid n True l))) h'"
    if "balanced h'" for wc l' h'
    by (rule keeps_then)
      (use that in \<open>auto simp: keeps_finalizeCase keeps_stepOnce balanced_call Suc.IH split: option.split\<close>)
  show ?case
    using Suc.prems
    by (auto simp del: wp_obind simp: wp_obind [of _ _ "get_case _ _ _"] balanced_call intro!: keeps_then [OF sync] body)
qed simp

theorem Advance_disciplined: "keeps cf (Advance cf cid) []"
  unfolding Advance_def
  by (auto simp del: wp_obind simp: wp_obind [of _ _ "load_ledger _"] balanced_call balanced_Nil
      intro!: keeps_then [OF keeps_advance_loop])

end
