(* ===== verification/OrchRun.thy ===== *)
theory OrchRun
  imports OrchCalls
begin

text \<open>
  Goroutines running the orchestrator over one run store.

  \<open>orch_step P\<close> starts a program of \<open>P\<close> or lets one goroutine make its next call.  The run store answers its
  own calls; every other call may answer anything at all, so the work-case service, the governor, the
  gateway, the planner, the clock and the audit sink are arbitrary.  A goroutine that is never scheduled
  again has crashed; a restart starts another one over the same store.  The trace records the calls,
  newest first, with the goroutine that made them.
\<close>

type_synonym orch_world = "run_store \<times> (nat \<times> orch_call) list \<times> unit orch list"

fun store_call :: "orch_op \<Rightarrow> bool" where
  "store_call (OpLoad _) = True"
| "store_call (OpSave _) = True"
| "store_call (OpTransform _ _) = True"
| "store_call _ = False"

inductive answers :: "run_store \<Rightarrow> orch_op \<Rightarrow> orch_resp \<Rightarrow> run_store \<Rightarrow> bool" where
  load: "answers s (OpLoad cid) (RsLedger (run_load cid s)) s"
| save: "answers s (OpSave l) RsDone (run_save l s)"
| transform: "answers s (OpTransform cid u) (RsTransform (fst (run_transform env cid u s))) (snd (run_transform env cid u s))"
| other: "\<not> store_call a \<Longrightarrow> answers s a r s"

inductive_cases answers_loadE: "answers s (OpLoad cid) r s'"
inductive_cases answers_transformE: "answers s (OpTransform cid u) r s'"
inductive_cases answers_saveE: "answers s (OpSave l) r s'"
inductive_cases answers_otherE: "answers s a r s'"

inductive orch_step :: "(unit orch \<Rightarrow> bool) \<Rightarrow> orch_world \<Rightarrow> orch_world \<Rightarrow> bool" for P where
  start: "P p \<Longrightarrow> orch_step P (s, tr, ts) (s, tr, ts @ [p])"
| call: "i < length ts \<Longrightarrow> ts ! i = Do a k \<Longrightarrow> answers s a r s' \<Longrightarrow>
     orch_step P (s, tr, ts) (s', (i, a, r) # tr, ts[i := k r])"

definition forget :: "'a orch \<Rightarrow> unit orch" where
  "forget p = obind p (\<lambda>_. Ret ())"

definition advancing :: "orch_config \<Rightarrow> unit orch \<Rightarrow> bool" where
  "advancing cf p \<longleftrightarrow> (\<exists>cid. p = forget (Advance cf cid))"

inductive orch_run :: "(unit orch \<Rightarrow> bool) \<Rightarrow> orch_world \<Rightarrow> orch_world \<Rightarrow> bool" for P where
  init: "orch_run P w w"
| step: "orch_run P w0 w \<Longrightarrow> orch_step P w w' \<Longrightarrow> orch_run P w0 w'"

text \<open>The calls of one goroutine.\<close>

definition calls_of :: "nat \<Rightarrow> (nat \<times> orch_call) list \<Rightarrow> orch_call list" where
  "calls_of i tr = map snd (filter (\<lambda>e. fst e = i) tr)"

lemma calls_of_Nil [simp]: "calls_of i [] = []"
  by (simp add: calls_of_def)

lemma calls_of_Cons [simp]: "calls_of i (e # tr) = (if fst e = i then snd e # calls_of i tr else calls_of i tr)"
  by (simp add: calls_of_def)

subsection \<open>Every call of the trace is allowed\<close>

text \<open>What holds of the whole trace: each goroutine keeps the discipline and can go on keeping it.\<close>

definition disciplined :: "orch_config \<Rightarrow> orch_world \<Rightarrow> bool" where
  "disciplined cf w \<longleftrightarrow> (case w of (s, tr, ts) \<Rightarrow>
     (\<forall>i < length ts. keeps cf (ts ! i) (calls_of i tr))
   \<and> (\<forall>i \<ge> length ts. calls_of i tr = [])
   \<and> (\<forall>l i a r e. tr = l @ (i, a, r) # e \<longrightarrow> allowed cf a (calls_of i e)))"

lemma keeps_forget: "keeps cf p h \<Longrightarrow> keeps cf (forget p) h"
  by (simp add: forget_def)

lemma Cons_split: "x # xs = l @ y # e \<longleftrightarrow> (l = [] \<and> x = y \<and> xs = e) \<or> (\<exists>l'. l = x # l' \<and> xs = l' @ y # e)"
  by (cases l) auto

lemma disciplined_step:
  assumes "disciplined cf w" and "orch_step (advancing cf) w w'"
  shows "disciplined cf w'"
  using assms(2,1)
proof cases
  case (start p s tr ts)
  then have "keeps cf p []" using keeps_forget [OF Advance_disciplined] by (auto simp: advancing_def)
  then show ?thesis using start assms(1) by (auto simp: disciplined_def nth_append less_Suc_eq)
next
  case (call i ts a k s r s' tr)
  have "keeps cf (Do a k) (calls_of i tr)" using call assms(1) by (auto simp: disciplined_def)
  then have "allowed cf a (calls_of i tr)" "keeps cf (k r) ((a, r) # calls_of i tr)" by simp_all
  then show ?thesis using call assms(1) by (auto simp: disciplined_def nth_list_update Cons_split)
qed

lemma disciplined_run:
  assumes "orch_run (advancing cf) w0 w" and "disciplined cf w0"
  shows "disciplined cf w"
  using assms by (induction rule: orch_run.induct) (auto intro: disciplined_step)

lemma disciplined_init: "disciplined cf (s, [], [])"
  by (simp add: disciplined_def)

lemma call_allowed:
  assumes "orch_run (advancing cf) (s0, [], []) (s, later @ (i, a, r) # earlier, ts)"
  shows "allowed cf a (calls_of i earlier)"
  using disciplined_run [OF assms disciplined_init] by (auto simp: disciplined_def)

subsection \<open>Dispatches against the decision log\<close>

definition into :: "action_state \<Rightarrow> string \<Rightarrow> run_ledger \<Rightarrow> nat" where
  "into to st l = length (filter (\<lambda>d. dr_to d = to) (step_decisions st l))"

definition starts :: "string \<Rightarrow> run_ledger \<Rightarrow> nat" where
  "starts st l = length (filter (\<lambda>d. dr_from d = ActionPending) (step_decisions st l))"

lemma into_revision [simp]: "into to st (l\<lparr>rl_revision := n\<rparr>) = into to st l"
  by (simp add: into_def step_decisions_def)

text \<open>An update adds one decision exactly when it is an applied move.\<close>

lemma update_decisions:
  assumes "apply_update env cid u l = Inr (l', b)"
  shows "rl_decisions l' = rl_decisions l \<and> (\<forall>s to reason eff. u = Move s to reason eff \<longrightarrow> \<not> b)
     \<or> (\<exists>s to reason eff dec. u = Move s to reason eff \<and> b \<and> rl_decisions l' = rl_decisions l @ [dec] \<and> dr_step_id dec = s \<and> dr_to dec = to)"
proof (cases u)
  case (Move s to reason eff)
  then have m: "apply_move env cid s to reason eff l = Inr (l', b)" using assms by simp
  show ?thesis
  proof (cases b)
    case True
    then have "apply_move env cid s to reason eff l = Inr (l', True)" using m by simp
    then show ?thesis by (rule apply_move_applied) (use True Move in auto)
  next
    case False
    then have "apply_move env cid s to reason eff l = Inr (l', False)" using m by simp
    from apply_move_refused [OF this] have "l' = l" by simp
    then show ?thesis using False Move by simp
  qed
next
  case (BumpReconcile m s)
  then have "rl_decisions l' = rl_decisions l" using assms by (auto simp: Let_def split: option.splits)
  then show ?thesis using BumpReconcile by simp
next
  case CountReplan
  then have "rl_decisions l' = rl_decisions l" using assms by auto
  then show ?thesis using CountReplan by simp
next
  case (Reseed wc)
  then have "rl_decisions l' = rl_decisions l" using assms by (auto simp: seedRuns_def split: if_splits)
  then show ?thesis using Reseed by simp
qed

lemma update_into:
  assumes "apply_update env cid u l = Inr (l', b)"
  shows "into (token prim) st l' =
    into (token prim) st l + (if is_claim cid st prim (OpTransform cid u, RsTransform (Inr (l2, b))) then 1 else 0)"
proof -
  consider (same) "rl_decisions l' = rl_decisions l" "\<not> is_claim cid st prim (OpTransform cid u, RsTransform (Inr (l2, b)))"
    | (moved) s to reason eff dec where "u = Move s to reason eff" "b" "rl_decisions l' = rl_decisions l @ [dec]"
        "dr_step_id dec = s" "dr_to dec = to"
    using update_decisions [OF assms] by (cases u; cases b) auto
  then show ?thesis
  proof cases
    case same
    then show ?thesis by (simp add: into_def step_decisions_def)
  next
    case (moved s to reason eff dec)
    then show ?thesis by (auto simp: into_def step_decisions_def)
  qed
qed

text \<open>One answered call changes at most the ledger it names, and logs what it claims.\<close>

lemma answer_into:
  assumes "answers s a r s'" and "\<And>l. a \<noteq> OpSave l" and "s cid = Some l"
  shows "\<exists>l'. s' cid = Some l' \<and> into (token prim) st l' = into (token prim) st l + (if is_claim cid st prim (a, r) then 1 else 0)"
  using assms(1)
proof cases
  case (transform c u env)
  show ?thesis
  proof (cases "c = cid")
    case True
    show ?thesis
    proof (cases "apply_update env cid u l")
      case (Inl e)
      then show ?thesis using True transform assms(3) by (cases u) (simp_all add: run_transform_def)
    next
      case (Inr x)
      obtain l' b where x: "x = (l', b)" by (cases x) auto
      show ?thesis using True transform assms(3) Inr x update_into [OF Inr [unfolded x], of prim st "l'\<lparr>rl_revision := rl_revision l + 1\<rparr>"]
        by (simp add: run_transform_def Let_def)
    qed
  next
    case False
    have other: "snd (run_transform env c u s) cid = s cid" using False
      by (auto simp: run_transform_def Let_def split: option.splits sum.splits prod.splits)
    have "\<not> is_claim cid st prim (a, r)" using False transform by (cases u) (auto elim!: is_claim.elims)
    then show ?thesis using assms(3) transform other by auto
  qed
next
  case save
  then show ?thesis using assms(2) by auto
next
  case load
  then show ?thesis using assms(3) by simp
next
  case other
  then have "\<not> is_claim cid st prim (a, r)" by (cases a) auto
  then show ?thesis using other assms(3) by auto
qed

definition matches :: "orch_config \<Rightarrow> string \<Rightarrow> string \<Rightarrow> bool \<Rightarrow> run_ledger \<Rightarrow> orch_world \<Rightarrow> bool" where
  "matches cf cid st prim l0 w \<longleftrightarrow> (case w of (s, tr, ts) \<Rightarrow>
     \<exists>l. s cid = Some l \<and> into (token prim) st l = into (token prim) st l0 + claims cid st prim (map snd tr))"

lemma matches_run:
  assumes "orch_run (advancing cf) w0 w" and "disciplined cf w0" and "matches cf cid st prim l0 w0"
  shows "matches cf cid st prim l0 w"
  using assms
proof (induction rule: orch_run.induct)
  case (step w0 w w')
  have d: "disciplined cf w" and m: "matches cf cid st prim l0 w"
    using step disciplined_run by blast+
  show ?case using step.hyps(2) d m
  proof cases
    case (start p s tr ts)
    then show ?thesis using m by (auto simp: matches_def)
  next
    case (call i ts a k s r s' tr)
    have "keeps cf (Do a k) (calls_of i tr)" using call d by (auto simp: disciplined_def)
    then have ns: "a \<noteq> OpSave l" for l by auto
    obtain l where l: "s cid = Some l" "into (token prim) st l = into (token prim) st l0 + claims cid st prim (map snd tr)"
      using m call by (auto simp: matches_def)
    show ?thesis using answer_into [OF call(5) ns l(1), of prim st] l(2) call by (auto simp: matches_def claims_def)
  qed
qed simp

lemma balanced_thread:
  assumes "\<And>l a r e. tr = l @ (i, a, r) # e \<Longrightarrow> allowed cf a (calls_of i e)"
  shows "balanced (calls_of i tr)"
  using assms
proof (induction tr)
  case (Cons e tr)
  obtain j a r where e: "e = (j, a, r)" by (cases e) auto
  have "balanced (calls_of i tr)" by (rule Cons.IH) (use Cons.prems [of "e # _"] in simp)
  moreover have "allowed cf a (calls_of i tr)" if "j = i" using Cons.prems [of "[]"] that e by simp
  ultimately show ?case
  proof (cases "j = i \<and> dispatching a")
    case True
    then obtain c s kind req where a: "a = OpDispatch c s kind req" by (cases a) auto
    have "armed c s (kind \<noteq> Reversal) (calls_of i tr)"
      using \<open>j = i \<Longrightarrow> allowed cf a (calls_of i tr)\<close> True a by (cases kind) auto
    then show ?thesis using armed_dispatch True a e by simp
  qed (use e in \<open>auto simp: balanced_call\<close>)
qed (simp add: balanced_Nil)

text \<open>A count over the whole trace is the sum of the counts of the goroutines.\<close>

lemma count_threads:
  assumes "\<forall>i \<ge> n. calls_of i tr = []"
  shows "length (filter p (map snd tr)) = (\<Sum>i < n. length (filter p (calls_of i tr)))"
  using assms
proof (induction tr)
  case (Cons e tr)
  have n: "fst e < n"
  proof (rule ccontr)
    assume "\<not> fst e < n"
    then have "calls_of (fst e) (e # tr) = []" using Cons.prems by (meson not_less)
    then show False by simp
  qed
  have "\<forall>i \<ge> n. calls_of i tr = []" using Cons.prems by (auto split: if_splits)
  then have IH: "length (filter p (map snd tr)) = (\<Sum>i < n. length (filter p (calls_of i tr)))" by (rule Cons.IH)
  have "(\<Sum>i < n. length (filter p (calls_of i (e # tr)))) =
      (\<Sum>i < n. length (filter p (calls_of i tr)) + (if i = fst e then if p (snd e) then 1 else 0 else 0))"
    by (rule sum.cong) auto
  also have "\<dots> = (\<Sum>i < n. length (filter p (calls_of i tr))) + (if p (snd e) then 1 else 0)"
    using n by (simp add: sum.distrib)
  finally show ?case using IH by simp
qed simp

lemma dispatches_claimed:
  assumes "disciplined cf (s, tr, ts)"
  shows "dispatches cid st prim (map snd tr) \<le> claims cid st prim (map snd tr)"
proof -
  have none: "\<forall>i \<ge> length ts. calls_of i tr = []" using assms by (auto simp: disciplined_def)
  have "balanced (calls_of i tr)" for i
    by (rule balanced_thread [of tr i cf]) (use assms in \<open>auto simp: disciplined_def\<close>)
  then have "(\<Sum>i < length ts. dispatches cid st prim (calls_of i tr)) \<le> (\<Sum>i < length ts. claims cid st prim (calls_of i tr))"
    by (intro sum_mono) (simp add: balanced_def covered_def)
  then show ?thesis unfolding dispatches_def claims_def count_threads [OF none] .
qed

subsection \<open>The log stays well formed\<close>

primrec all_ops :: "(orch_op \<Rightarrow> bool) \<Rightarrow> 'a orch \<Rightarrow> bool" where
  "all_ops R (Ret x) = True"
| "all_ops R (Err e) = True"
| "all_ops R (Do a k) = (R a \<and> (\<forall>r. all_ops R (k r)))"

lemma wp_all_ops:
  assumes "wp ok Q p h" and "\<And>a h. ok a h \<Longrightarrow> R a"
  shows "all_ops R p"
  using assms(1)
proof (induction p arbitrary: h)
  case (Do a k)
  then show ?case using assms(2) by (auto intro: Do.IH [OF rangeI])
qed simp_all

definition preparing :: "unit orch \<Rightarrow> bool" where
  "preparing p \<longleftrightarrow> (\<exists>ent org cid. p = forget (Prepare ent org cid))"

fun sound_save :: "orch_op \<Rightarrow> bool" where
  "sound_save (OpSave l) = ledger_ok l"
| "sound_save _ = True"

lemma ledger_ok_seeded: "rl_decisions l = [] \<Longrightarrow> ledger_ok (seedRuns l wc)"
  by (auto simp: ledger_ok_def step_decisions_def seedRuns_def split: option.splits dest!: run_state_seeded [unfolded seedRuns_def])

lemma wp_save [simp]: "wp ok Q (save l) h \<longleftrightarrow> ok (OpSave l) h \<and> Q () ((OpSave l, RsDone) # h)"
  by (auto simp: save_def split: orch_resp.splits)

lemma Prepare_saves: "all_ops sound_save (forget (Prepare ent org cid))"
proof (rule wp_all_ops)
  show "wp (\<lambda>a h. sound_save a) (\<lambda>_ _. True) (forget (Prepare ent org cid)) []"
    by (simp add: forget_def Prepare_def ledger_ok_seeded split: sum.split)
qed

lemma Advance_saves: "all_ops sound_save (forget (Advance cf cid))"
  by (rule wp_all_ops [OF keeps_forget [OF Advance_disciplined]]) (case_tac a; simp)

lemma answer_ok:
  assumes "answers s a r s'" and "sound_save a" and "\<forall>cid l. s cid = Some l \<longrightarrow> ledger_ok l"
  shows "\<forall>cid l. s' cid = Some l \<longrightarrow> ledger_ok l"
  using assms(1)
proof cases
  case (transform c u env)
  have "ledger_ok l'" if "s c = Some l" "apply_update env c u l = Inr (l', b)" for l l' b
    using update_ok that assms(3) by blast
  then show ?thesis using transform assms(3)
    by (auto simp: run_transform_def Let_def split: option.splits sum.splits prod.splits if_splits)
qed (use assms in \<open>auto simp: run_save_def split: if_splits\<close>)

lemma run_log_ok:
  assumes "orch_run P (s0, [], []) (s, tr, ts)" and "\<And>p. P p \<Longrightarrow> all_ops sound_save p"
    and "\<forall>cid l. s0 cid = Some l \<longrightarrow> ledger_ok l"
  shows "\<forall>cid l. s cid = Some l \<longrightarrow> ledger_ok l"
proof -
  have "(\<forall>p \<in> set (snd (snd w)). all_ops sound_save p) \<and> (\<forall>cid l. fst w cid = Some l \<longrightarrow> ledger_ok l)"
    if "orch_run P w0 w" "w0 = (s0, [], [])" for w0 w
    using that
  proof (induction rule: orch_run.induct)
    case (step w0 w w')
    then have IH: "\<forall>p \<in> set (snd (snd w)). all_ops sound_save p" "\<forall>cid l. fst w cid = Some l \<longrightarrow> ledger_ok l" by auto
    show ?case using step.hyps(2)
    proof cases
      case (start p s tr ts)
      then show ?thesis using IH assms(2) by auto
    next
      case (call i ts a k s r s' tr)
      have "all_ops sound_save (Do a k)" using IH(1) call nth_mem [OF call(3)] by auto
      then have "sound_save a" "all_ops sound_save (k r)" by simp_all
      then show ?thesis using IH call answer_ok [OF call(5)] set_update_subset_insert [of ts i "k r"] by auto
    qed
  qed (use assms(3) in simp)
  from this [OF assms(1) refl] show ?thesis by simp
qed

text \<open>In a well-formed log every claimed reversal of a step has a start from \<open>pending\<close> of its own.\<close>

lemma reversals_within_starts:
  assumes "successively follows ds" and "list_all (\<lambda>d. CanTransitionTo (dr_from d) (dr_to d)) ds"
    and "ds = [] \<or> dr_from (hd ds) = ActionPending"
  shows "length (filter (\<lambda>d. dr_to d = ActionCompensationDispatched) ds) \<le> length (filter (\<lambda>d. dr_from d = ActionPending) ds)
    \<and> (ds \<noteq> [] \<longrightarrow> \<not> wound_down (dr_to (last ds)) \<longrightarrow>
        length (filter (\<lambda>d. dr_to d = ActionCompensationDispatched) ds) < length (filter (\<lambda>d. dr_from d = ActionPending) ds))"
  using assms
proof (induction ds rule: rev_induct)
  case (snoc e ds)
  have pre: "successively follows ds" "list_all (\<lambda>d. CanTransitionTo (dr_from d) (dr_to d)) ds"
    "ds = [] \<or> dr_from (hd ds) = ActionPending"
    using snoc.prems by (simp_all add: successively_append_iff) (cases ds; simp)
  have legal: "CanTransitionTo (dr_from e) (dr_to e)" using snoc.prems by simp
  note IH = snoc.IH [OF pre]
  show ?case
  proof (cases "dr_from e = ActionPending")
    case True
    then have "dr_to e \<noteq> ActionCompensationDispatched" using legal into_compensation by fastforce
    then show ?thesis using IH True by auto
  next
    case False
    then have ne: "ds \<noteq> []" "dr_from e = dr_to (last ds)"
      using snoc.prems by (auto simp: successively_append_iff follows_def)
    show ?thesis
    proof (cases "wound_down (dr_from e)")
      case True
      then show ?thesis using IH ne wound_down_step [OF True legal] by auto
    next
      case False
      then have lt: "length (filter (\<lambda>d. dr_to d = ActionCompensationDispatched) ds) < length (filter (\<lambda>d. dr_from d = ActionPending) ds)"
        using IH ne by auto
      then show ?thesis by (auto simp: wound_down_def)
    qed
  qed
qed simp

lemma log_reversals:
  assumes "ledger_ok l"
  shows "into ActionCompensationDispatched st l \<le> starts st l"
proof -
  have ok: "successively follows (step_decisions st l)" "step_decisions st l = [] \<or> dr_from (hd (step_decisions st l)) = ActionPending"
    "list_all (\<lambda>d. CanTransitionTo (dr_from d) (dr_to d)) (rl_decisions l)"
    using assms by (simp_all add: ledger_ok_def)
  have "list_all (\<lambda>d. CanTransitionTo (dr_from d) (dr_to d)) (step_decisions st l)"
    using ok(3) by (auto simp: step_decisions_def list_all_iff)
  then show ?thesis using reversals_within_starts ok(1,2) unfolding into_def starts_def by blast
qed

subsection \<open>Executing a schedule\<close>

text \<open>Play a list of calls: the goroutine and, for a call outside the store, its answer.\<close>

fun reply :: "ledger_env \<Rightarrow> run_store \<Rightarrow> orch_op \<Rightarrow> orch_resp \<Rightarrow> orch_resp \<times> run_store" where
  "reply env s (OpLoad cid) r = (RsLedger (run_load cid s), s)"
| "reply env s (OpSave l) r = (RsDone, run_save l s)"
| "reply env s (OpTransform cid u) r = (case run_transform env cid u s of (x, s') \<Rightarrow> (RsTransform x, s'))"
| "reply env s a r = (r, s)"

lemma reply_answers: "answers s a (fst (reply env s a r)) (snd (reply env s a r))"
  by (cases a) (auto intro: answers.intros split: prod.split, metis answers.transform fst_conv snd_conv)

fun play :: "ledger_env \<Rightarrow> (nat \<times> orch_resp) list \<Rightarrow> orch_world \<Rightarrow> orch_world option" where
  "play env [] w = Some w"
| "play env ((i, r) # es) (s, tr, ts) =
     (if \<not> i < length ts then None
      else case ts ! i of
        Do a k \<Rightarrow> (case reply env s a r of (r', s') \<Rightarrow> play env es (s', (i, a, r') # tr, ts[i := k r']))
      | _ \<Rightarrow> None)"

lemma play_run:
  assumes "orch_run P w0 w" and "play env es w = Some w'"
  shows "orch_run P w0 w'"
  using assms
proof (induction es arbitrary: w)
  case (Cons e es)
  obtain i r where e: "e = (i, r)" by (cases e) auto
  obtain s tr ts where w: "w = (s, tr, ts)" by (cases w) auto
  from Cons.prems(2) obtain a k where i: "i < length ts" "ts ! i = Do a k"
    and go: "play env es (snd (reply env s a r), (i, a, fst (reply env s a r)) # tr, ts[i := k (fst (reply env s a r))]) = Some w'"
    unfolding e w by (auto split: if_splits orch.splits prod.splits)
  have "orch_run P w0 (snd (reply env s a r), (i, a, fst (reply env s a r)) # tr, ts[i := k (fst (reply env s a r))])"
    using Cons.prems(1) i reply_answers unfolding w by (blast intro: orch_run.step orch_step.call)
  then show ?case using Cons.IH go by blast
qed simp

text \<open>Starting goroutines.\<close>

lemma run_threads:
  "list_all P ps \<Longrightarrow> orch_run P (s, [], []) (s, [], ps)"
proof (induction ps rule: rev_induct)
  case (snoc p ps)
  then show ?case by (auto intro: orch_run.step orch_step.start)
qed (rule orch_run.init)

end
