(* ===== verification/OrchProps.thy ===== *)
theory OrchProps
  imports OrchRun
begin

text \<open>
  What the orchestrator guarantees, whatever the other parties answer, in whatever order its goroutines
  run and wherever they crash: dispatches are claimed, governed and logged; completions and reversals
  rest on verified receipts; case decisions rest on produced outcomes; the log stays well formed.
\<close>

subsection \<open>A sample run\<close>

definition sample_orch :: orch_config where
  "sample_orch = \<lparr>cf_trust = \<lparr>ed25519_verify = \<lambda>_ _ _. True, marshal_action_receipt = \<lambda>_. [], marshal_observation_receipt = \<lambda>_. []\<rparr>,
     cf_key_id = ''k'', cf_key = replicate 32 (CHR ''k''), cf_policy = \<lparr>up_current_org_version = 7\<rparr>, cf_planner = False,
     cf_outcome = None, cf_max_attempts = 3\<rparr>"

definition orch_request :: action_request where
  "orch_request = NexusAction.sample_request\<lparr>ar_action_id := ''c::s'', ar_work_case_id := ''c'', ar_risk := NexusRiskLow\<rparr>"

definition sample_parties :: approval_parties where
  "sample_parties = \<lparr>ap_submitter = sample_submitter, ap_reviewers = [sample_reviewer]\<rparr>"

definition orch_step_of :: "step_status \<Rightarrow> wc_step" where
  "orch_step_of status = \<lparr>st_id = ''s'', st_status = status, st_evidence = [],
     st_action = Some \<lparr>as_kind = ''write'', as_business_capability = ''erp.post'', as_parameters_hash = [], as_risk = ''low'',
       as_idempotency_key = [], as_preconditions = [], as_expires_at = 0, as_expected_receipt_schema = [],
       as_compensation_action_id = None, as_failure_policy = ''retry''\<rparr>\<rparr>"

definition orch_case :: "step_status \<Rightarrow> work_case" where
  "orch_case status = \<lparr>wc_id = ''c'', wc_enterprise_id = ''t'', wc_org_scope = ''o'', wc_actor_ref = ''u'',
     wc_status = StatusExecuting, wc_revision = 4, wc_plans = [\<lparr>pl_revision = 1, pl_steps = [orch_step_of status]\<rparr>]\<rparr>"

definition orch_ledger :: run_ledger where
  "orch_ledger = seedRuns \<lparr>rl_case_id = ''c'', rl_enterprise_id = ''t'', rl_org_scope = ''o'', rl_actor_ref = ''u'', rl_revision = 1,
     rl_plan_revision = 0, rl_replans = 0, rl_runs = [], rl_decisions = [], rl_verify = []\<rparr> (orch_case StepPending)"

definition orch_store :: run_store where
  "orch_store = [''c'' \<mapsto> orch_ledger]"

text \<open>An audit sink answers every decision.\<close>

definition sample_ledger_env :: ledger_env where
  "sample_ledger_env = \<lparr>lv_now = 0, lv_audit = Some (\<lambda>_ _. Some ''audit''), lv_rfc3339 = \<lambda>_. []\<rparr>"

definition orch_receipt :: action_receipt where
  "orch_receipt = \<lparr>rc_receipt_id = ''r'', rc_action_id = ''c::s'', rc_parameter_hash = sample_hash, rc_connector_ref = [],
     rc_target_ref = [], rc_before_hash = [], rc_after_hash = [], rc_executor_identity = ''nexus'', rc_result_code = ''succeeded'',
     rc_external_receipt = [], rc_audit_ref = [], rc_issued_at = 0,
     rc_signature = Some \<lparr>sig_algorithm = SignatureAlgorithmEd25519, sig_key_id = ''k'', sig_value = ''AAAA''\<rparr>\<rparr>"

text \<open>The calls up to the dispatch, and from there to the completion.\<close>

definition sample_calls :: "(nat \<times> orch_resp) list" where
  "sample_calls = map (Pair 0)
     [RsDone, RsCase (Inr (orch_case StepRunning)), RsDone,
      RsPrepare (Some (orch_request, sample_parties, True)), RsDone, RsCase (Inr (orch_case StepRunning)),
      RsDispatch (Inr orch_receipt), RsCase (Inr (orch_case StepCompleted)), RsDone]"

lemma lazy_Do: "a = b \<Longrightarrow> Do a k = Do b k"
  by simp

lemma lazy_obind: "p = q \<Longrightarrow> obind p f = obind q f"
  by simp

lemma sample_review: "Evaluate \<lparr>up_current_org_version = 7\<rparr> sample_parties RiskLow = None"
  using upward_review_accepts_iff_witness by (simp add: sample_parties_def)

lemma orch_plan: "topPlan (orch_case st) = (1, [orch_step_of st])"
  by (simp add: topPlan_def orch_case_def)

lemma advance_loop_unfold:
  "advance_loop cf cid n progressed l =
     (if n = 0 then Ret progressed
      else obind (get_case (rl_enterprise_id l) (rl_org_scope l) cid) (\<lambda>wc.
       if wc_status wc \<noteq> StatusExecuting then Ret progressed
       else
         obind (syncPlan wc) (\<lambda>l.
         obind (case currentActionableRun l of
                  None \<Rightarrow> finalizeCase cf wc l
                | Some run \<Rightarrow> stepOnce cf wc l run) (\<lambda>did.
           if \<not> did then Ret progressed
           else obind (load_ledger cid) (\<lambda>l. advance_loop cf cid (n - 1) True l)))))"
  by (cases n) (simp_all cong: if_cong)

text \<open>The sample data, as rewrite rules.\<close>

lemma orch_data [simp]:
  "rl_enterprise_id orch_ledger = ''t''" "rl_org_scope orch_ledger = ''o''" "rl_case_id orch_ledger = ''c''"
  "rl_plan_revision orch_ledger = 1" "rl_decisions orch_ledger = []" "rl_verify orch_ledger = []" "rl_replans orch_ledger = 0"
  "rl_runs orch_ledger = [seed_run ''c'' (orch_step_of StepPending)]"
  "wc_id (orch_case st) = ''c''" "wc_status (orch_case st) = StatusExecuting" "wc_revision (orch_case st) = 4"
  "topPlan (orch_case st) = (1, [orch_step_of st])"
  "st_id (orch_step_of st) = ''s''" "st_status (orch_step_of st) = st" "st_action (orch_step_of st) \<noteq> None"
  "cf_max_attempts sample_orch = 3" "cf_outcome sample_orch = None" "cf_policy sample_orch = \<lparr>up_current_org_version = 7\<rparr>"
  by (simp_all add: orch_ledger_def seedRuns_def orch_plan, simp_all add: orch_case_def orch_step_of_def sample_orch_def)

lemma orch_gov_data [simp]:
  "govRisk (ar_risk orch_request) = RiskLow" "ar_idempotency_key orch_request = ar_idempotency_key NexusAction.sample_request"
  by (simp_all add: orch_request_def govRisk_def)

lemma orch_run_data [simp]:
  "rn_step_id (seed_run c (orch_step_of st)) = ''s''" "rn_state (seed_run c (orch_step_of st)) = ActionPending"
  "rn_attempts (seed_run c (orch_step_of st)) = 0" "rn_reconcile_attempts (seed_run c (orch_step_of st)) = 0"
  by (simp_all add: seed_run_def orch_step_of_def)

lemma update_run_ids [simp]:
  "rl_case_id (update_run i f l) = rl_case_id l" "rl_enterprise_id (update_run i f l) = rl_enterprise_id l"
  "rl_org_scope (update_run i f l) = rl_org_scope l"
  by (simp_all add: update_run_def)

lemmas orch_eval = load_ledger_def load_def run_load_def or_fail_def get_case_def syncPlan_def currentActionableRun_def
  stepOnce_def prepare_action_def transition_def transitionWith_def transform_def run_transform_def apply_move_def indexRun_def
  runByID_def CanTransitionTo_def recordAudit_def sample_ledger_env_def Let_def stepStatus_def stepByID_def
  dispatchable_def dispatch_def reconcile_def markStepRunning_def move_to_def

lemma orch_receipt_data [simp]:
  "rc_result_code orch_receipt = ''succeeded''" "rc_receipt_id orch_receipt = ''r''"
  "rc_parameter_hash orch_receipt = sample_hash" "rc_executor_identity orch_receipt = ''nexus''"
  by (simp_all add: orch_receipt_def)

lemma orch_proven: "proven sample_orch orch_request orch_receipt"
proof -
  have b: "base64_std_decode ''AAAA'' \<noteq> None" by code_simp
  have "ValidateSHA256Ref sample_hash = None" unfolding sample_hash_def by code_simp
  then show ?thesis using b
    by (auto simp: proven_def VerifyActionReceipt_None_iff verifySignature_None_iff orch_request_def orch_receipt_def sample_orch_def
        NexusAction.sample_request_def ed25519_public_key_size_def)
qed

lemma orch_verified [simp]:
  "VerifyActionReceipt (cf_trust sample_orch) orch_request orch_receipt (cf_key_id sample_orch) (cf_key sample_orch) = None"
  using orch_proven by (simp add: proven_def)

lemma sample_run:
  obtains s ts e earlier r where "orch_run (advancing sample_orch) (orch_store, [], [])
    (s, (0, OpTransform ''c'' (Move ''s'' ActionCompleted (''verified receipt '' @ ''r'') (RecordCompletion orch_request orch_receipt)), r)
        # e # (0, OpDispatch ''c'' ''s'' (Primary True sample_parties) orch_request, RsDispatch (Inr orch_receipt)) # earlier, ts)"
    "\<exists>l. s ''c'' = Some l \<and> list_ex (\<lambda>d. dr_to d = ActionCompleted) (rl_decisions l)"
proof -
  have "\<exists>s ts e earlier r. play sample_ledger_env sample_calls (orch_store, [], [forget (Advance sample_orch ''c'')])
   = Some (s, (0, OpTransform ''c'' (Move ''s'' ActionCompleted (''verified receipt '' @ ''r'') (RecordCompletion orch_request orch_receipt)), r)
        # e # (0, OpDispatch ''c'' ''s'' (Primary True sample_parties) orch_request, RsDispatch (Inr orch_receipt)) # earlier, ts)
     \<and> (\<exists>l. s ''c'' = Some l \<and> list_ex (\<lambda>d. dr_to d = ActionCompleted) (rl_decisions l))"
    by (simp cong: lazy_Do lazy_obind add: sample_calls_def orch_store_def Advance_def forget_def orch_eval
      max_iters_def advance_loop_unfold dispatchStep_def sample_review applyReceipt_def completeStep_def markStepCompleted_def)
  moreover have "orch_run (advancing sample_orch) (orch_store, [], []) (orch_store, [], [forget (Advance sample_orch ''c'')])"
    by (rule run_threads) (auto simp: advancing_def)
  ultimately show thesis using that play_run by blast
qed

lemma in_calls: "e \<in> set (calls_of i tr) \<longleftrightarrow> (i, e) \<in> set tr"
  by (cases e) (auto simp: calls_of_def image_iff)

subsection \<open>Dispatches\<close>

lemma claim_in_trace:
  assumes "0 < claims cid st prim (calls_of i tr)"
  shows "\<exists>reason eff l. (i, OpTransform cid (Move st (token prim) reason eff), RsTransform (Inr (l, True))) \<in> set tr"
proof -
  have "filter (is_claim cid st prim) (calls_of i tr) \<noteq> []" using assms by (auto simp: claims_def)
  then obtain e where "e \<in> set (calls_of i tr)" "is_claim cid st prim e" by (auto simp: filter_empty_conv)
  then show ?thesis by (cases "(cid, st, prim, e)" rule: is_claim.cases) (auto simp: in_calls)
qed




lemma orch_store_ok: "\<forall>c l. orch_store c = Some l \<longrightarrow> ledger_ok l"
  unfolding orch_store_def orch_ledger_def by (auto intro: ledger_ok_seeded split: if_splits)


subsection \<open>Completions and reversals\<close>

text \<open>Every decision recorded since the start is an applied transition of the trace.\<close>

definition recorded :: "run_store \<Rightarrow> orch_world \<Rightarrow> bool" where
  "recorded s0 w \<longleftrightarrow> (case w of (s, tr, ts) \<Rightarrow> \<forall>cid l d. s cid = Some l \<longrightarrow> d \<in> set (rl_decisions l) \<longrightarrow>
     (\<exists>l0. s0 cid = Some l0 \<and> d \<in> set (rl_decisions l0))
   \<or> (\<exists>reason eff x. (OpTransform cid (Move (dr_step_id d) (dr_to d) reason eff), RsTransform (Inr (x, True))) \<in> snd ` set tr))"

lemma answer_recorded:
  assumes "answers s a r s'" and "\<And>l. a \<noteq> OpSave l" and "s' cid = Some l'" and "d \<in> set (rl_decisions l')"
  shows "(\<exists>l. s cid = Some l \<and> d \<in> set (rl_decisions l))
    \<or> (\<exists>reason eff x. (a, r) = (OpTransform cid (Move (dr_step_id d) (dr_to d) reason eff), RsTransform (Inr (x, True))))"
  using assms(1)
proof cases
  case (transform c u env)
  show ?thesis
  proof (cases "c = cid \<and> (\<exists>l x. s c = Some l \<and> apply_update env c u l = Inr x)")
    case False
    then have "s' cid = s cid" using transform
      by (auto simp: run_transform_def Let_def split: option.splits sum.splits prod.splits)
    then show ?thesis using assms(3,4) by auto
  next
    case True
    then obtain l l1 b where c: "c = cid" "s cid = Some l" and u: "apply_update env cid u l = Inr (l1, b)" by auto
    then have l': "l' = l1\<lparr>rl_revision := rl_revision l + 1\<rparr>" and r: "r = RsTransform (Inr (l', b))"
      using transform assms(3) by (auto simp: run_transform_def Let_def)
    from update_decisions [OF u] show ?thesis
    proof (elim disjE exE conjE)
      fix st to reason eff dec
      assume m: "u = Move st to reason eff" "b" "rl_decisions l1 = rl_decisions l @ [dec]" "dr_step_id dec = st" "dr_to dec = to"
      then show ?thesis using assms(4) c l' r transform by auto
    qed (use assms(4) c l' in auto)
  qed
qed (use assms in auto)

lemma recorded_run:
  assumes "orch_run (advancing cf) w0 w" and "disciplined cf w0" and "recorded s0 w0"
  shows "recorded s0 w"
  using assms
proof (induction rule: orch_run.induct)
  case (step w0 w w')
  have d: "disciplined cf w" and m: "recorded s0 w" using step disciplined_run by blast+
  show ?case using step.hyps(2)
  proof cases
    case (start p s tr ts)
    then show ?thesis using m by (simp add: recorded_def)
  next
    case (call i ts a k s r s' tr)
    have "keeps cf (Do a k) (calls_of i tr)" using call d by (auto simp: disciplined_def)
    then have ns: "a \<noteq> OpSave l" for l by auto
    show ?thesis unfolding recorded_def call prod.case
    proof (intro allI impI)
      fix cid l d assume a: "s' cid = Some l" "d \<in> set (rl_decisions l)"
      from answer_recorded [OF call(5) ns this]
      show "(\<exists>l0. s0 cid = Some l0 \<and> d \<in> set (rl_decisions l0))
        \<or> (\<exists>reason eff x. (OpTransform cid (Move (dr_step_id d) (dr_to d) reason eff), RsTransform (Inr (x, True)))
              \<in> snd ` set ((i, a, r) # tr))"
      proof (elim disjE exE conjE)
        fix l1 assume "s cid = Some l1" "d \<in> set (rl_decisions l1)"
        then have "(\<exists>l0. s0 cid = Some l0 \<and> d \<in> set (rl_decisions l0))
          \<or> (\<exists>reason eff x. (OpTransform cid (Move (dr_step_id d) (dr_to d) reason eff), RsTransform (Inr (x, True))) \<in> snd ` set tr)"
          using m unfolding recorded_def call prod.case by blast
        then show ?thesis unfolding list.set image_insert by blast
      next
        fix reason eff x
        assume "(a, r) = (OpTransform cid (Move (dr_step_id d) (dr_to d) reason eff), RsTransform (Inr (x, True)))"
        then show ?thesis by (intro disjI2 exI [of _ reason] exI [of _ eff] exI [of _ x]) simp
      qed
    qed
  qed
qed simp

lemma returned_calls: "returned req rc (calls_of i tr) \<Longrightarrow> returned req rc (map snd tr)"
  by (erule returned_mono [rotated]) (auto simp: calls_of_def)

text \<open>
  C32: Whatever the interleaving, a run is recorded as completed or as compensated only on a receipt that the
  gateway returned for a request of the orchestrator, that verifies against it under the trusted key, and that reports \<open>succeeded\<close>.
\<close>
theorem completion_needs_verified_receipt:
  assumes "orch_run (advancing cf) (s0, [], []) (s, tr, ts)" and "s cid = Some l" and "d \<in> set (rl_decisions l)"
    and "dr_to d = ActionCompleted \<or> dr_to d = ActionCompensated"
  shows "(\<exists>l0. s0 cid = Some l0 \<and> d \<in> set (rl_decisions l0))
    \<or> (\<exists>req receipt. VerifyActionReceipt (cf_trust cf) req receipt (cf_key_id cf) (cf_key cf) = None
         \<and> rc_result_code receipt = ''succeeded'' \<and> returned req receipt (map snd tr))"
proof -
  have "recorded s0 (s, tr, ts)"
    by (rule recorded_run [OF assms(1) disciplined_init]) (auto simp: recorded_def)
  then have "(\<exists>l0. s0 cid = Some l0 \<and> d \<in> set (rl_decisions l0)) \<or>
      (\<exists>reason eff x. (OpTransform cid (Move (dr_step_id d) (dr_to d) reason eff), RsTransform (Inr (x, True))) \<in> snd ` set tr)"
    using assms(2,3) unfolding recorded_def prod.case by blast
  then show ?thesis
  proof (elim disjE exE)
    fix reason eff x
    assume "(OpTransform cid (Move (dr_step_id d) (dr_to d) reason eff), RsTransform (Inr (x, True))) \<in> snd ` set tr"
    then obtain i where "(i, OpTransform cid (Move (dr_step_id d) (dr_to d) reason eff), RsTransform (Inr (x, True))) \<in> set tr" by auto
    then obtain later earlier where
      tr: "tr = later @ (i, OpTransform cid (Move (dr_step_id d) (dr_to d) reason eff), RsTransform (Inr (x, True))) # earlier"
      by (auto dest: split_list)
    have "move_allowed cf cid (dr_step_id d) (dr_to d) eff (calls_of i earlier)"
      using call_allowed [OF assms(1) [unfolded tr]] by simp
    then obtain req receipt where p: "proven cf req receipt" "returned req receipt (calls_of i earlier)"
      using assms(4) by (auto simp: move_allowed_def)
    have "returned req receipt (map snd tr)"
      by (rule returned_mono [OF _ returned_calls [OF p(2)]]) (auto simp: tr)
    then show ?thesis using p(1) by (auto simp: proven_def)
  qed auto
qed

theorem completion_needs_verified_receipt_witness:
  "\<exists>s tr ts l. orch_run (advancing sample_orch) (orch_store, [], []) (s, tr, ts) \<and> s ''c'' = Some l
     \<and> list_ex (\<lambda>d. dr_to d = ActionCompleted) (rl_decisions l)
     \<and> (\<exists>req receipt. VerifyActionReceipt (cf_trust sample_orch) req receipt (cf_key_id sample_orch) (cf_key sample_orch) = None
         \<and> rc_result_code receipt = ''succeeded'' \<and> returned req receipt (map snd tr))"
proof (rule sample_run)
  fix s ts earlier and e :: "nat \<times> orch_call" and r :: orch_resp
  let ?tr = "(0, OpTransform ''c'' (Move ''s'' ActionCompleted (''verified receipt '' @ ''r'') (RecordCompletion orch_request orch_receipt)), r)
    # e # (0, OpDispatch ''c'' ''s'' (Primary True sample_parties) orch_request, RsDispatch (Inr orch_receipt)) # earlier"
  assume run: "orch_run (advancing sample_orch) (orch_store, [], []) (s, ?tr, ts)"
    and "\<exists>l. s ''c'' = Some l \<and> list_ex (\<lambda>d. dr_to d = ActionCompleted) (rl_decisions l)"
  then obtain l d where l: "s ''c'' = Some l" "d \<in> set (rl_decisions l)" "dr_to d = ActionCompleted"
    by (auto simp: list_ex_iff)
  have "\<exists>req receipt. VerifyActionReceipt (cf_trust sample_orch) req receipt (cf_key_id sample_orch) (cf_key sample_orch) = None
       \<and> rc_result_code receipt = ''succeeded'' \<and> returned req receipt (map snd ?tr)"
    using completion_needs_verified_receipt [OF run l(1,2)] l(3) by (auto simp: orch_store_def)
  then show ?thesis using run l by (intro exI [of _ s] exI [of _ ?tr] exI [of _ ts] exI [of _ l]) (auto simp: list_ex_iff)
qed

subsection \<open>What the orchestrator asks of the other components\<close>

text \<open>
  C33: Whatever the interleaving, the orchestrator never calls \<open>CompleteCase\<close>; it closes a case only by the
  closure service on a satisfied outcome that was produced for this goroutine, terminates one only on an unsatisfied
  one, marks a step completed only with the evidence of a verified successful receipt, and
  persists only plans the planner proposed and that validate.
\<close>
theorem case_changes_rest_on_evidence:
  assumes "orch_run (advancing cf) (s0, [], []) (s, later @ (i, a, r) # earlier, ts)"
  shows "(\<forall>c ref. a \<noteq> OpCase (ReqCompleteCase c ref))
     \<and> (\<forall>ref n key. a = OpClose ref n key \<longrightarrow> (\<exists>x. produced x (calls_of i earlier) \<and> ocl_status (out_claim x) = OutcomeSatisfied
          \<and> of_outcome_key ref = out_key x \<and> of_revision ref = out_revision x \<and> of_case_id ref = out_work_case_id x))
     \<and> (\<forall>c reason. a = OpCase (ReqTerminateCase c reason) \<longrightarrow>
          (\<exists>x. produced x (calls_of i earlier) \<and> ocl_status (out_claim x) = OutcomeUnsatisfied))
     \<and> (\<forall>c st ev. a = OpCase (ReqAdvanceStep c st StepCompleted ev) \<longrightarrow>
          (\<exists>req receipt. ev = [\<lparr>we_handle = rc_receipt_id receipt, we_content_hash = rc_parameter_hash receipt,
                we_authority = rc_executor_identity receipt\<rparr>]
             \<and> proven cf req receipt \<and> returned req receipt (calls_of i earlier)))
     \<and> (\<forall>c p. a = OpCase (ReqProposePlan c p) \<longrightarrow>
          ValidatePlan p = None \<and> (\<exists>wc. (i, OpPlan wc, RsPlan (Some p)) \<in> set earlier))"
proof -
  have al: "allowed cf a (calls_of i earlier)" by (rule call_allowed [OF assms])
  show ?thesis
    by (intro conjI allI impI notI) (use al in \<open>simp_all add: in_calls\<close>)
qed

definition finished_orch :: orch_config where
  "finished_orch = sample_orch\<lparr>cf_outcome := Some \<lparr>oc_policy_version = ''v'', oc_goal = ec_goal (sample_eval []), oc_map_version = 1, oc_org_version = 1,
     oc_accepting = (\<lambda>_. [])\<rparr>\<rparr>"

definition finished_store :: run_store where
  "finished_store = [''c'' \<mapsto> orch_ledger\<lparr>rl_runs := [(seed_run ''c'' (orch_step_of StepPending))\<lparr>rn_state := ActionCompleted\<rparr>]\<rparr>]"

lemma finished_orch_data [simp]:
  "cf_max_attempts finished_orch = 3" "cf_outcome finished_orch = Some \<lparr>oc_policy_version = ''v'', oc_goal = ec_goal (sample_eval []),
     oc_map_version = 1, oc_org_version = 1, oc_accepting = (\<lambda>_. [])\<rparr>"
  by (simp_all add: finished_orch_def)

lemma finished_run:
  obtains s ts ref n key r earlier where
    "orch_run (advancing finished_orch) (finished_store, [], []) (s, (0, OpClose ref n key, r) # earlier, ts)"
proof -
  have "\<exists>s ts ref n key r earlier. play sample_ledger_env
      (map (Pair 0) [RsDone, RsCase (Inr (orch_case StepCompleted)), RsDone, RsNow 0, RsOutcome (Inr sample_satisfied), RsClosure None])
      (finished_store, [], [forget (Advance finished_orch ''c'')]) = Some (s, (0, OpClose ref n key, r) # earlier, ts)"
    by (simp cong: lazy_Do lazy_obind add: finished_store_def Advance_def forget_def orch_eval max_iters_def advance_loop_unfold
      finalizeCase_def buildEvaluateCommand_def clock_def evaluate_outcome_def close_case_def)
  moreover have "orch_run (advancing finished_orch) (finished_store, [], []) (finished_store, [], [forget (Advance finished_orch ''c'')])"
    by (rule run_threads) (auto simp: advancing_def)
  ultimately show thesis using that play_run by blast
qed

theorem case_changes_rest_on_evidence_witness:
  "\<exists>ref n key x earlier s ts r. orch_run (advancing finished_orch) (finished_store, [], []) (s, (0, OpClose ref n key, r) # earlier, ts)
     \<and> produced x (calls_of 0 earlier) \<and> ocl_status (out_claim x) = OutcomeSatisfied \<and> of_case_id ref = out_work_case_id x"
proof (rule finished_run)
  fix s ts ref n key r earlier
  assume run: "orch_run (advancing finished_orch) (finished_store, [], []) (s, (0, OpClose ref n key, r) # earlier, ts)"
  then have "orch_run (advancing finished_orch) (finished_store, [], []) (s, [] @ (0, OpClose ref n key, r) # earlier, ts)" by simp
  from case_changes_rest_on_evidence [OF this]
  obtain x where "produced x (calls_of 0 earlier)" "ocl_status (out_claim x) = OutcomeSatisfied" "of_case_id ref = out_work_case_id x"
    by auto
  with run show ?thesis
    by (intro exI [of _ ref] exI [of _ n] exI [of _ key] exI [of _ x] exI [of _ earlier] exI [of _ s] exI [of _ ts] exI [of _ r]) simp
qed

end
