(* ===== verification/OrchLimits.thy ===== *)
theory OrchLimits
  imports OrchProps
begin

text \<open>
  How often the orchestrator dispatches: the log invariant with \<open>Prepare\<close> running beside \<open>Advance\<close>, the bound
  on the dispatches of a run when goroutines do not overlap, and two ways in which overlapping ones break it.
\<close>

subsection \<open>Two goroutines that prepare one case\<close>

definition orchestrating :: "orch_config \<Rightarrow> unit orch \<Rightarrow> bool" where
  "orchestrating cf p \<longleftrightarrow> advancing cf p \<or> preparing p"

text \<open>Goroutines 0 and 1 both prepare the case, 2 and 3 advance it.\<close>

definition prepare_race :: "(nat \<times> orch_resp) list" where
  "prepare_race =
     [(0, RsDone), (0, RsCase (Inr (orch_case StepPending)))]
   @ map (Pair 1) [RsDone, RsCase (Inr (orch_case StepPending)), RsDone, RsDone]
   @ map (Pair 2) [RsDone, RsCase (Inr (orch_case StepPending)), RsDone, RsPrepare (Some (orch_request, sample_parties, True)), RsDone,
        RsCase (Inr (orch_case StepPending)), RsCase (Inr (orch_case StepRunning)), RsDispatch (Inr orch_receipt)]
   @ [(0, RsDone)]
   @ map (Pair 3) [RsDone, RsCase (Inr (orch_case StepRunning)), RsDone, RsPrepare (Some (orch_request, sample_parties, True)), RsDone,
        RsCase (Inr (orch_case StepRunning)), RsDispatch (Inr orch_receipt)]"

definition both_prepare :: "unit orch list" where
  "both_prepare = [forget (Prepare ''t'' ''o'' ''c''), forget (Prepare ''t'' ''o'' ''c''), forget (Advance sample_orch ''c''),
     forget (Advance sample_orch ''c'')]"

lemma seed_orch: "seedRuns \<lparr>rl_case_id = ''c'', rl_enterprise_id = ''t'', rl_org_scope = ''o'', rl_actor_ref = a, rl_revision = 0,
     rl_plan_revision = 0, rl_replans = 0, rl_runs = [], rl_decisions = [], rl_verify = []\<rparr> (orch_case StepPending) =
     orch_ledger\<lparr>rl_actor_ref := a, rl_revision := 0\<rparr>"
  by (simp add: orch_ledger_def seedRuns_def)

lemma raced_run:
  obtains s tr ts l run where "orch_run (orchestrating sample_orch) (NewMemoryRunStore, [], []) (s, tr, ts)" "s ''c'' = Some l"
    "dispatches ''c'' ''s'' True (map snd tr) = 2" "into ActionDispatched ''s'' l = 1"
    "runByID l ''s'' = Some run" "rn_attempts run = 1"
proof -
  have "\<exists>s tr ts l run. play sample_ledger_env prepare_race (NewMemoryRunStore, [], both_prepare) = Some (s, tr, ts) \<and> s ''c'' = Some l
     \<and> dispatches ''c'' ''s'' True (map snd tr) = 2 \<and> into ActionDispatched ''s'' l = 1
     \<and> runByID l ''s'' = Some run \<and> rn_attempts run = 1"
    by (simp cong: lazy_Do lazy_obind add: prepare_race_def both_prepare_def NewMemoryRunStore_def Prepare_def Advance_def forget_def
      orch_eval save_def run_save_def case_service_def advanceStep_def max_iters_def advance_loop_unfold dispatchStep_def sample_review
      seed_orch dispatches_def into_def step_decisions_def)
  moreover have "orch_run (orchestrating sample_orch) (NewMemoryRunStore, [], []) (NewMemoryRunStore, [], both_prepare)"
    by (rule run_threads) (auto simp: both_prepare_def orchestrating_def advancing_def preparing_def)
  ultimately show thesis using that play_run by blast
qed

subsection \<open>The log\<close>

text \<open>
  C34: From an empty store, under any interleaving and crashes of \<open>Prepare\<close> and \<open>Advance\<close>, the decision log
  of every ledger is numbered 1, 2, 3, ..., runs along edges of the transition graph, and
  continues for each step where its last decision ended or starts afresh from \<open>pending\<close>; every run
  is pending, with a human, or in the state its last decision names.
\<close>
theorem decision_log_well_formed:
  assumes "orch_run (orchestrating cf) (NewMemoryRunStore, [], []) (s, tr, ts)" and "s cid = Some l"
  shows "map dr_seq (rl_decisions l) = map (\<lambda>i. int i + 1) [0..<length (rl_decisions l)]
     \<and> (\<forall>d \<in> set (rl_decisions l). CanTransitionTo (dr_from d) (dr_to d))
     \<and> successively follows (step_decisions st l)
     \<and> (step_decisions st l \<noteq> [] \<longrightarrow> dr_from (hd (step_decisions st l)) = ActionPending)
     \<and> (\<forall>x. run_state l st = Some x \<longrightarrow> x = ActionPending \<or> x = ActionHumanTakeover
          \<or> (step_decisions st l \<noteq> [] \<and> dr_to (last (step_decisions st l)) = x))"
proof -
  have "\<forall>cid l. s cid = Some l \<longrightarrow> ledger_ok l"
    by (rule run_log_ok [OF assms(1)])
      (auto simp: orchestrating_def advancing_def preparing_def Advance_saves Prepare_saves NewMemoryRunStore_def)
  then have "ledger_ok l" using assms(2) by blast
  then show ?thesis by (auto simp: ledger_ok_def list_all_iff dest!: spec [of _ st] split: option.splits)
qed

theorem decision_log_well_formed_witness:
  "\<exists>s tr ts l. orch_run (orchestrating sample_orch) (NewMemoryRunStore, [], []) (s, tr, ts) \<and> s ''c'' = Some l
     \<and> rl_decisions l \<noteq> [] \<and> (\<forall>d \<in> set (rl_decisions l). CanTransitionTo (dr_from d) (dr_to d))"
proof (rule raced_run)
  fix s tr ts l run
  assume *: "orch_run (orchestrating sample_orch) (NewMemoryRunStore, [], []) (s, tr, ts)" "s ''c'' = Some l"
    and "into ActionDispatched ''s'' l = 1"
  then have "rl_decisions l \<noteq> []" by (auto simp: into_def step_decisions_def)
  then show ?thesis using * decision_log_well_formed [OF *] by blast
qed

subsection \<open>Two goroutines\<close>

text \<open>
  C37: \<open>Prepare\<close> reads and saves in two steps, so one that found no ledger overwrites the ledger another one stored
  since: two goroutines prepare a case and a third dispatches its action; the late save returns the run to
  \<open>pending\<close> and drops its log, and the next \<open>Advance\<close> dispatches the side effect again. The gateway saw two dispatches, the log
  has one, and it counts one attempt.
\<close>
theorem concurrent_prepare_forgets_dispatch:
  "\<exists>s tr ts l run. orch_run (orchestrating sample_orch) (NewMemoryRunStore, [], []) (s, tr, ts) \<and> s ''c'' = Some l
     \<and> dispatches ''c'' ''s'' True (map snd tr) = 2 \<and> into ActionDispatched ''s'' l = 1
     \<and> runByID l ''s'' = Some run \<and> rn_attempts run = 1"
  by (rule raced_run) blast

subsection \<open>Two goroutines that retry one run\<close>

text \<open>
  One run, two attempts allowed. Goroutine 0 dispatches and times out; both goroutines then find the result
  unknown and ask for a retry; goroutine 0 retries and dispatches; goroutine 1, which read the attempts
  before, moves the run back from \<open>dispatched\<close> to \<open>retrying\<close> and dispatches as well.
\<close>

definition twice_orch :: orch_config where
  "twice_orch = sample_orch\<lparr>cf_max_attempts := 2\<rparr>"

lemma twice_orch_data [simp]:
  "cf_max_attempts twice_orch = 2" "cf_policy twice_orch = \<lparr>up_current_org_version = 7\<rparr>"
  by (simp_all add: twice_orch_def)

definition once_more :: "orch_resp list" where
  "once_more = [RsDone, RsCase (Inr (orch_case StepRunning)), RsDone, RsPrepare (Some (orch_request, sample_parties, True))]"

definition retry_race :: "(nat \<times> orch_resp) list" where
  "retry_race =
     map (Pair 0) (once_more @ [RsDone, RsCase (Inr (orch_case StepRunning)), RsDispatch (Inl ErrTransportTimeout), RsDone]
       @ once_more @ [RsReconcile (Inr None), RsDone])
   @ map (Pair 1) (once_more @ [RsReconcile (Inr None), RsDone])
   @ map (Pair 0) ([RsDone] @ once_more @ [RsDone, RsCase (Inr (orch_case StepRunning)), RsDispatch (Inr orch_receipt)])
   @ map (Pair 1) ([RsDone] @ once_more @ [RsDone, RsCase (Inr (orch_case StepRunning)), RsDispatch (Inr orch_receipt)])"

text \<open>
  C36: \<open>retryOrEscalate\<close> decides on a ledger read before the transition that acts on it, and the graph admits \<open>retrying\<close>
  from \<open>dispatched\<close> too: with two overlapping \<open>Advance\<close> calls a run whose latest dispatch has just
  succeeded at the gateway is retried and dispatched again, and has three attempts where two are allowed.
\<close>
theorem overlapping_retries_exceed_attempts:
  "\<exists>s tr ts l run. orch_run (advancing twice_orch) (orch_store, [], []) (s, tr, ts) \<and> s ''c'' = Some l
     \<and> runByID l ''s'' = Some run \<and> rn_attempts run = 3 \<and> cf_max_attempts twice_orch = 2
     \<and> dispatches ''c'' ''s'' True (map snd tr) = 3
     \<and> map dr_to (step_decisions ''s'' l) = [ActionDispatched, ActionResultUnknown, ActionRetrying, ActionDispatched,
          ActionRetrying, ActionDispatched]"
proof -
  have "\<exists>s tr ts l run. play sample_ledger_env retry_race (orch_store, [], [forget (Advance twice_orch ''c''), forget (Advance twice_orch ''c'')])
       = Some (s, tr, ts) \<and> s ''c'' = Some l
     \<and> runByID l ''s'' = Some run \<and> rn_attempts run = 3 \<and> cf_max_attempts twice_orch = 2
     \<and> dispatches ''c'' ''s'' True (map snd tr) = 3
     \<and> map dr_to (step_decisions ''s'' l) = [ActionDispatched, ActionResultUnknown, ActionRetrying, ActionDispatched,
          ActionRetrying, ActionDispatched]"
    by (simp cong: lazy_Do lazy_obind add: retry_race_def once_more_def orch_store_def Advance_def forget_def orch_eval max_iters_def
      advance_loop_unfold dispatchStep_def sample_review reconcileStep_def retryOrEscalate_def handleDispatchError_def
      dispatches_def step_decisions_def)
  then obtain s tr ts l run where w: "play sample_ledger_env retry_race (orch_store, [], [forget (Advance twice_orch ''c''),
        forget (Advance twice_orch ''c'')]) = Some (s, tr, ts)" "s ''c'' = Some l" "runByID l ''s'' = Some run" "rn_attempts run = 3"
      "dispatches ''c'' ''s'' True (map snd tr) = 3"
      "map dr_to (step_decisions ''s'' l) = [ActionDispatched, ActionResultUnknown, ActionRetrying, ActionDispatched,
          ActionRetrying, ActionDispatched]" by (elim exE conjE)
  have "orch_run (advancing twice_orch) (orch_store, [], [])
      (orch_store, [], [forget (Advance twice_orch ''c''), forget (Advance twice_orch ''c'')])"
    by (rule run_threads) (auto simp: advancing_def)
  from play_run [OF this w(1)] show ?thesis
    by (intro exI [of _ s] exI [of _ tr] exI [of _ ts] exI [of _ l] exI [of _ run]) (use w in simp)
qed

subsection \<open>Goroutines that do not overlap\<close>

text \<open>Attempts within their bound: a run waiting to be dispatched has one left.\<close>

definition attempts_ok :: "int \<Rightarrow> action_run \<Rightarrow> bool" where
  "attempts_ok n r \<longleftrightarrow> 0 \<le> rn_attempts r \<and> rn_attempts r \<le> n \<and> (rn_state r = ActionPending \<or> rn_state r = ActionRetrying \<longrightarrow> rn_attempts r < n)"

definition fits :: "int \<Rightarrow> run_ledger \<Rightarrow> bool" where
  "fits n l \<longleftrightarrow> (\<forall>r \<in> set (rl_runs l). attempts_ok n r)"

lemma fits_revision [simp]: "fits n (l\<lparr>rl_revision := k\<rparr>) = fits n l"
  by (simp add: fits_def)

lemma fits_update: "fits n l \<Longrightarrow> attempts_ok n x \<Longrightarrow> rl_runs l' = (rl_runs l)[i := x] \<Longrightarrow> fits n l'"
  by (auto simp: fits_def dest!: set_update_subset_insert [THEN subsetD])

lemma fits_seeded: "1 \<le> n \<Longrightarrow> fits n (seedRuns l wc)"
  by (auto simp: fits_def attempts_ok_def seedRuns_def seed_run_def Let_def split: option.splits)

text \<open>A move keeps the bound when a retry has an attempt left and only a dispatch counts one.\<close>

lemma fits_move:
  assumes "fits n l" and "apply_move env cid s to reason eff l = Inr (l', b)"
    and "to = ActionRetrying \<longrightarrow> (\<exists>run. runByID l s = Some run \<and> rn_attempts run < n)"
    and "to = ActionDispatched \<longleftrightarrow> (\<exists>key. eff = ClaimDispatch key)" and "to \<noteq> ActionPending"
  shows "fits n l'"
proof (cases b)
  case False
  then have "apply_move env cid s to reason eff l = Inr (l', False)" using assms(2) by simp
  from apply_move_refused [OF this] show ?thesis using assms(1) by simp
next
  case True
  then have "apply_move env cid s to reason eff l = Inr (l', True)" using assms(2) by simp
  then show ?thesis
  proof (rule apply_move_applied)
    fix i assume i: "indexRun l s = Some i" and c: "CanTransitionTo (rn_state (rl_runs l ! i)) to"
      and runs: "rl_runs l' = (rl_runs l)[i := effect_run eff ((rl_runs l ! i)\<lparr>rn_state := to\<rparr>)]"
    have old: "attempts_ok n (rl_runs l ! i)" using assms(1) indexRun_Some [OF i] by (auto simp: fits_def)
    have "attempts_ok n (effect_run eff ((rl_runs l ! i)\<lparr>rn_state := to\<rparr>))"
    proof (cases "to = ActionDispatched")
      case True
      then have "rn_attempts (rl_runs l ! i) < n" using old c into_dispatched by (auto simp: attempts_ok_def)
      then show ?thesis using True old assms(4) by (auto simp: attempts_ok_def)
    next
      case False
      then have "rn_attempts (effect_run eff r) = rn_attempts r" for r using assms(4) by (cases eff) auto
      then show ?thesis using old assms(3,5) i by (auto simp: attempts_ok_def runByID_def)
    qed
    then show ?thesis using fits_update [OF assms(1) _ runs] by blast
  qed
qed

text \<open>A goroutine that nobody interrupts: what it may do, and what its last load returned.\<close>

fun lone_op :: "int \<Rightarrow> orch_op \<Rightarrow> bool" where
  "lone_op n (OpSave l) = fits n l"
| "lone_op n (OpTransform cid u) = False"
| "lone_op n (OpDispatch cid s kind req) = False"
| "lone_op n _ = True"

text \<open>The attempts a run has counted are at least the claims made on it in history \<open>h\<close>.\<close>

definition counted :: "string \<Rightarrow> orch_call list \<Rightarrow> run_ledger \<Rightarrow> bool" where
  "counted c h l \<longleftrightarrow> (\<forall>st. int (claims c st True h) \<le> (case runByID l st of None \<Rightarrow> 0 | Some r \<Rightarrow> rn_attempts r))"

text \<open>What holds while one goroutine runs alone after the calls \<open>T\<close>.\<close>

definition lone_ok :: "orch_config \<Rightarrow> orch_call list \<Rightarrow> orch_world \<Rightarrow> bool" where
  "lone_ok cf T w \<longleftrightarrow> (case w of (s, tr, ts) \<Rightarrow> \<exists>p. ts = [p]
     \<and> (\<forall>c l. s c = Some l \<longrightarrow> fits (cf_max_attempts cf) l)
     \<and> (\<forall>c l. s c = Some l \<longrightarrow> counted c (since c (map snd tr @ T)) l)
     \<and> balanced (map snd tr)
     \<and> (\<forall>e \<in> set tr. fst e = 0)
     \<and> (\<forall>c x. tr \<noteq> [] \<longrightarrow> snd (hd tr) = (OpLoad c, RsLedger x) \<longrightarrow> x = run_load c s)
     \<and> (keeps cf p (calls_of 0 tr) \<or> all_ops (lone_op (cf_max_attempts cf)) p))"

lemma Prepare_lone: "1 \<le> n \<Longrightarrow> all_ops (lone_op n) (forget (Prepare ent org cid))"
proof (rule wp_all_ops)
  assume "1 \<le> n"
  then show "wp (\<lambda>a h. lone_op n a) (\<lambda>_ _. True) (forget (Prepare ent org cid)) []"
    by (simp add: forget_def Prepare_def fits_seeded split: sum.split)
qed

lemma calls_of_all: "\<forall>e \<in> set tr. fst e = i \<Longrightarrow> calls_of i tr = map snd tr"
  by (induction tr) auto

lemma answer_fits:
  assumes "answers s a r s'" and "\<forall>c l. s c = Some l \<longrightarrow> fits n l"
    and "allowed cf a (map snd tr) \<or> lone_op n a" and "n = cf_max_attempts cf"
    and "\<forall>c x. tr \<noteq> [] \<longrightarrow> snd (hd tr) = (OpLoad c, RsLedger x) \<longrightarrow> x = run_load c s"
    and "1 \<le> n"
  shows "\<forall>c l. s' c = Some l \<longrightarrow> fits n l"
  using assms(1)
proof cases
  case (transform cid u env)
  have upd: "fits n l'" if l: "s cid = Some l" and u: "apply_update env cid u l = Inr (l', b)" for l l' b
  proof (cases u)
    case (Move st to reason eff)
    then have al: "move_allowed cf cid st to eff (map snd tr)" using assms(3) transform by simp
    have "\<exists>run. runByID l st = Some run \<and> rn_attempts run < n" if "to = ActionRetrying"
    proof -
      from al that obtain l2 run where h: "tr \<noteq> []" "hd (map snd tr) = (OpLoad cid, RsLedger (Inr l2))"
        "runByID l2 st = Some run" "rn_attempts run < n"
        using assms(4) by (auto simp: move_allowed_def)
      then have "Inr l2 = run_load cid s" using assms(5) by (auto simp: hd_map)
      then have "l2 = l" using l by (simp add: run_load_def)
      then show ?thesis using h by auto
    qed
    then show ?thesis
      using fits_move [of n l env cid st to reason eff l' b] assms(2) l u Move al by (auto simp: move_allowed_def)
  next
    case (BumpReconcile m st)
    then obtain i where i: "indexRun l st = Some i" "l' = update_run i (\<lambda>r. r\<lparr>rn_reconcile_attempts := rn_reconcile_attempts r + 1\<rparr>) l"
      using u by (auto simp: Let_def split: option.splits)
    have "attempts_ok n (rl_runs l ! i)" using assms(2) l indexRun_Some [OF i(1)] by (auto simp: fits_def)
    then show ?thesis using i assms(2) l
      by (intro fits_update [of n l "(rl_runs l ! i)\<lparr>rn_reconcile_attempts := rn_reconcile_attempts (rl_runs l ! i) + 1\<rparr>" l' i])
        (auto simp: attempts_ok_def)
  next
    case CountReplan
    then show ?thesis using u assms(2) l by (auto simp: fits_def)
  next
    case (Reseed wc)
    then show ?thesis using u assms(2,6) l by (auto simp: fits_seeded split: if_splits)
  qed
  show ?thesis
  proof (intro allI impI)
    fix c l assume c: "s' c = Some l"
    show "fits n l"
    proof (cases "c = cid \<and> (\<exists>l x. s c = Some l \<and> apply_update env cid u l = Inr x)")
      case False
      then have "s' c = s c" using transform by (auto simp: run_transform_def Let_def split: option.splits sum.splits prod.splits)
      then show ?thesis using c assms(2) by auto
    next
      case True
      then show ?thesis using c upd transform by (auto simp: run_transform_def Let_def split: prod.splits)
    qed
  qed
next
  case (save l)
  then have "fits n l" using assms(3) by simp
  then show ?thesis using save assms(2) by (auto simp: run_save_def split: if_splits)
qed (use assms(2) in auto)

subsection \<open>Claims against attempts\<close>

lemma runByID_fits: "fits n l \<Longrightarrow> runByID l st = Some r \<Longrightarrow> attempts_ok n r"
  by (auto simp: fits_def runByID_def dest: indexRun_Some)

lemma counted_Nil: "fits n l \<Longrightarrow> counted c [] l"
  by (auto simp: counted_def attempts_ok_def dest: runByID_fits split: option.split)

lemma counted_skip:
  "\<not> seeds c e \<Longrightarrow> \<forall>st. \<not> is_claim c st True e \<Longrightarrow> counted c (since c h) l \<Longrightarrow> counted c (since c (e # h)) l"
  by (simp add: counted_def)

lemma counted_same: "(\<And>st. map_option rn_attempts (runByID l' st) = map_option rn_attempts (runByID l st)) \<Longrightarrow> counted c h l \<Longrightarrow> counted c h l'"
proof -
  assume same: "\<And>st. map_option rn_attempts (runByID l' st) = map_option rn_attempts (runByID l st)"
  have "(case runByID l' st of None \<Rightarrow> 0 | Some r \<Rightarrow> rn_attempts r) = (case runByID l st of None \<Rightarrow> 0 | Some r \<Rightarrow> rn_attempts r)" for st
    using same [of st] by (auto split: option.splits)
  then show "counted c h l \<Longrightarrow> counted c h l'" by (simp add: counted_def)
qed

lemma runByID_revision [simp]: "runByID (l\<lparr>rl_revision := k\<rparr>) st = runByID l st"
  by (simp add: runByID_def indexRun_def)

lemma counted_revision [simp]: "counted c h (l\<lparr>rl_revision := k\<rparr>) = counted c h l"
  by (simp add: counted_def)

lemma runByID_update:
  assumes "\<And>r. rn_step_id (f r) = rn_step_id r" and "indexRun l s = Some i" and "rl_runs l' = (rl_runs l)[i := f (rl_runs l ! i)]"
  shows "runByID l' t = (if t = s then Some (f (rl_runs l ! i)) else runByID l t)"
proof -
  have idx: "indexRun l' t = indexRun l t" for t
    unfolding indexRun_def assms(3) by (rule find_index_update) (simp add: assms(1))
  have i: "i < length (rl_runs l)" "rn_step_id (rl_runs l ! i) = s" using indexRun_Some [OF assms(2)] by auto
  show ?thesis
  proof (cases "t = s")
    case True
    then show ?thesis using assms(2,3) i idx by (simp add: runByID_def)
  next
    case False
    have "j \<noteq> i" if "indexRun l t = Some j" for j using indexRun_Some [OF that] i(2) False by auto
    then show ?thesis using False idx assms(3) by (cases "indexRun l t") (auto simp: runByID_def nth_list_update)
  qed
qed

text \<open>An applied move counts an attempt exactly when it is a claim of the primary dispatch.\<close>

lemma move_counted:
  assumes "apply_move env c s to reason eff l = Inr (l', True)" and "counted c (since c h) l"
    and "to = ActionDispatched \<longleftrightarrow> (\<exists>key. eff = ClaimDispatch key)"
  shows "counted c (since c ((OpTransform c (Move s to reason eff), RsTransform (Inr (x, True))) # h)) l'"
proof (rule apply_move_applied [OF assms(1)])
  fix i assume i: "indexRun l s = Some i"
    and runs: "rl_runs l' = (rl_runs l)[i := effect_run eff ((rl_runs l ! i)\<lparr>rn_state := to\<rparr>)]"
  let ?f = "\<lambda>r. effect_run eff (r\<lparr>rn_state := to\<rparr>)"
  have run': "runByID l' t = (if t = s then Some (?f (rl_runs l ! i)) else runByID l t)" for t
    by (rule runByID_update [OF _ i, where f = ?f]) (simp_all add: runs)
  have run: "runByID l s = Some (rl_runs l ! i)" using i by (simp add: runByID_def)
  have att: "rn_attempts (?f r) = rn_attempts r + (if to = ActionDispatched then 1 else 0)" for r
    using assms(3) by (cases eff) auto
  have cl: "is_claim c t True (OpTransform c (Move s to reason eff), RsTransform (Inr (x, True))) \<longleftrightarrow> t = s \<and> to = ActionDispatched" for t
    by (auto simp: token_def)
  show ?thesis unfolding counted_def
  proof
    fix t
    have "int (claims c t True (since c h)) \<le> (case runByID l t of None \<Rightarrow> 0 | Some r \<Rightarrow> rn_attempts r)"
      using assms(2) by (simp add: counted_def)
    then show "int (claims c t True (since c ((OpTransform c (Move s to reason eff), RsTransform (Inr (x, True))) # h)))
        \<le> (case runByID l' t of None \<Rightarrow> 0 | Some r \<Rightarrow> rn_attempts r)"
      using run by (cases "t = s") (simp_all add: run' att cl del: is_claim.simps)
  qed
qed

lemma update_counted:
  assumes "apply_update env c u l = Inr (l', b)" and "counted c (since c h) l" and "fits n l'"
    and "\<And>s to reason eff. u = Move s to reason eff \<Longrightarrow> to = ActionDispatched \<longleftrightarrow> (\<exists>key. eff = ClaimDispatch key)"
  shows "counted c (since c ((OpTransform c u, RsTransform (Inr (x, b))) # h)) l'"
proof (cases u)
  case (Move s to reason eff)
  show ?thesis
  proof (cases b)
    case True
    then have m: "apply_move env c s to reason eff l = Inr (l', True)" using assms(1) Move by simp
    show ?thesis using move_counted [OF m assms(2) assms(4) [OF Move]] Move True by simp
  next
    case False
    then have "apply_move env c s to reason eff l = Inr (l', False)" using assms(1) Move by simp
    from apply_move_refused [OF this] show ?thesis using counted_skip assms(2) Move False by simp
  qed
next
  case (BumpReconcile m s)
  let ?f = "\<lambda>r. r\<lparr>rn_reconcile_attempts := rn_reconcile_attempts r + 1\<rparr>"
  obtain i where i: "indexRun l s = Some i" "l' = update_run i ?f l"
    using assms(1) BumpReconcile by (auto simp: Let_def split: option.splits)
  have "runByID l' t = (if t = s then Some (?f (rl_runs l ! i)) else runByID l t)" for t
    by (rule runByID_update [OF _ i(1)]) (simp_all add: i(2))
  moreover have "runByID l s = Some (rl_runs l ! i)" using i(1) by (simp add: runByID_def)
  ultimately have "counted c (since c h) l'" using counted_same [OF _ assms(2), of l'] by simp
  then show ?thesis using BumpReconcile counted_skip by simp
next
  case CountReplan
  then have "l' = l\<lparr>rl_replans := rl_replans l + 1\<rparr>" using assms(1) by simp
  then have "runByID l' st = runByID l st" for st by (simp add: runByID_def indexRun_def)
  then have "counted c (since c h) l'" using assms(2) by (simp add: counted_def)
  then show ?thesis using CountReplan counted_skip by simp
next
  case (Reseed wc)
  show ?thesis
  proof (cases b)
    case True
    then show ?thesis using Reseed counted_Nil [OF assms(3)] by simp
  next
    case False
    then have "l' = l" using assms(1) Reseed by (auto split: if_splits)
    then show ?thesis using Reseed False counted_skip assms(2) by simp
  qed
qed

lemma answer_counted:
  assumes "answers s a r s'" and "\<forall>c l. s c = Some l \<longrightarrow> counted c (since c h) l" and "\<forall>c l. s' c = Some l \<longrightarrow> fits n l"
    and "allowed cf a g \<or> lone_op n a"
  shows "\<forall>c l. s' c = Some l \<longrightarrow> counted c (since c ((a, r) # h)) l"
proof (intro allI impI)
  fix c l' assume l': "s' c = Some l'"
  show "counted c (since c ((a, r) # h)) l'"
    using assms(1)
  proof cases
    case (save l)
    show ?thesis
    proof (cases "rl_case_id l = c")
      case True
      moreover have "counted c [] l'" by (rule counted_Nil) (use assms(3) l' in blast)
      ultimately show ?thesis using save by simp
    next
      case False
      then have "s c = Some l'" using save l' by (simp add: run_save_def)
      then show ?thesis using save False counted_skip assms(2) by simp
    qed
  next
    case (transform cid u env)
    show ?thesis
    proof (cases "c = cid")
      case False
      have "snd (run_transform env cid u s) c = s c" using False
        by (auto simp: run_transform_def Let_def split: option.splits sum.splits prod.splits)
      then have "s c = Some l'" using l' transform by simp
      moreover have "\<not> seeds c (a, r)" "\<forall>st. \<not> is_claim c st True (a, r)"
        using False transform by (cases u; auto elim!: seeds.elims is_claim.elims)+
      ultimately show ?thesis using counted_skip assms(2) by blast
    next
      case True
      show ?thesis
      proof (cases "\<exists>l x. s cid = Some l \<and> apply_update env cid u l = Inr x")
        case False
        then have "s' c = s c" and "\<exists>e. r = RsTransform (Inl e)"
          using True transform by (auto simp: run_transform_def Let_def split: option.splits sum.splits prod.splits)
        moreover then have "\<not> seeds c (a, r)" "\<forall>st. \<not> is_claim c st True (a, r)"
          using transform by (cases u; auto)+
        ultimately show ?thesis using counted_skip assms(2) l' by simp
      next
        case upd: True
        then obtain l l1 b where l: "s cid = Some l" "apply_update env cid u l = Inr (l1, b)" by auto
        let ?l = "l1\<lparr>rl_revision := rl_revision l + 1\<rparr>"
        have r: "r = RsTransform (Inr (?l, b))" "l' = ?l"
          using l l' True transform by (auto simp: run_transform_def Let_def)
        have "to = ActionDispatched \<longleftrightarrow> (\<exists>key. eff = ClaimDispatch key)" if "u = Move st to reason eff" for st to reason eff
          using assms(4) transform that by (auto simp: move_allowed_def)
        moreover have "fits n l1" using assms(3) l' r(2) by (metis fits_revision)
        moreover have "counted cid (since cid h) l" using assms(2) l(1) by blast
        ultimately have "counted cid (since cid ((OpTransform cid u, RsTransform (Inr (?l, b))) # h)) l1"
          using update_counted [OF l(2)] by blast
        then show ?thesis by (simp only: transform(1) r True counted_revision)
      qed
    qed
  next
    case load
    then show ?thesis using assms(2) l' counted_skip by simp
  next
    case other
    then have "\<not> seeds c (a, r)" "\<forall>st. \<not> is_claim c st True (a, r)" by (cases a; auto)+
    then show ?thesis using assms(2) l' other counted_skip by blast
  qed
qed

lemma lone_step:
  assumes "lone_ok cf T w" and "orch_step (\<lambda>_. False) w w'" and "1 \<le> cf_max_attempts cf"
  shows "lone_ok cf T w'"
  using assms(2)
proof cases
  case (call i ts a k s r s' tr)
  obtain p where p: "ts = [p]" and fit: "\<forall>c l. s c = Some l \<longrightarrow> fits (cf_max_attempts cf) l"
    and wi: "\<forall>c l. s c = Some l \<longrightarrow> counted c (since c (map snd tr @ T)) l" and bal: "balanced (map snd tr)"
    and zero: "\<forall>e \<in> set tr. fst e = 0"
    and last: "\<forall>c x. tr \<noteq> [] \<longrightarrow> snd (hd tr) = (OpLoad c, RsLedger x) \<longrightarrow> x = run_load c s"
    and ok: "keeps cf p (calls_of 0 tr) \<or> all_ops (lone_op (cf_max_attempts cf)) p"
    using assms(1) unfolding lone_ok_def call prod.case by blast
  have i: "i = 0" "p = Do a k" using call p by auto
  have al: "allowed cf a (map snd tr) \<or> lone_op (cf_max_attempts cf) a" using ok i calls_of_all [OF zero] by auto
  have fit': "\<forall>c l. s' c = Some l \<longrightarrow> fits (cf_max_attempts cf) l"
    by (rule answer_fits [OF call(5) fit al refl last assms(3)])
  have wi': "\<forall>c l. s' c = Some l \<longrightarrow> counted c (since c ((a, r) # map snd tr @ T)) l"
    by (rule answer_counted [OF call(5) wi fit' al])
  have bal': "balanced ((a, r) # map snd tr)"
  proof (cases "dispatching a")
    case True
    then obtain c st kind req where a: "a = OpDispatch c st kind req" by (cases a) auto
    then have "armed c st (kind \<noteq> Reversal) (map snd tr)" using al by (cases kind) auto
    then show ?thesis using armed_dispatch a by simp
  qed (use bal balanced_call in blast)
  have ok': "keeps cf (k r) (calls_of 0 ((0, a, r) # tr)) \<or> all_ops (lone_op (cf_max_attempts cf)) (k r)" using ok i by auto
  have last': "x = run_load c s'" if "(a, r) = (OpLoad c, RsLedger x)" for c x
    using call(5) that by (auto elim: answers_loadE)
  show ?thesis unfolding lone_ok_def call prod.case
    by (rule exI [of _ "k r"]) (use p i zero fit' wi' bal' ok' last' in auto)
qed simp

lemma lone_run:
  assumes "orch_run (\<lambda>_. False) w0 w" and "lone_ok cf T w0" and "1 \<le> cf_max_attempts cf"
  shows "lone_ok cf T w"
  using assms by (induction rule: orch_run.induct) (auto intro: lone_step)

text \<open>
  Any sequence of calls of \<open>Prepare\<close> and \<open>Advance\<close> of which none starts before the one before it has
  returned or crashed, with all the calls they made, newest first.
\<close>

inductive solo_run :: "orch_config \<Rightarrow> run_store \<Rightarrow> orch_call list \<Rightarrow> bool" for cf where
  fresh: "solo_run cf NewMemoryRunStore []"
| next_call: "solo_run cf s T \<Longrightarrow> orchestrating cf p \<Longrightarrow> orch_run (\<lambda>_. False) (s, [], [p]) (s', tr, ts) \<Longrightarrow>
     solo_run cf s' (map snd tr @ T)"

lemma solo_ok:
  assumes "solo_run cf s T" and "1 \<le> cf_max_attempts cf"
  shows "(\<forall>c l. s c = Some l \<longrightarrow> fits (cf_max_attempts cf) l \<and> counted c (since c T) l) \<and> (\<forall>c st. covered c st True (since c T))"
  using assms(1)
proof induction
  case (next_call s T p s' tr ts)
  have "keeps cf p [] \<or> all_ops (lone_op (cf_max_attempts cf)) p"
    using next_call.hyps(2) keeps_forget [OF Advance_disciplined] Prepare_lone [OF assms(2)]
    by (auto simp: orchestrating_def advancing_def preparing_def)
  then have "lone_ok cf T (s, [], [p])" using next_call.IH by (simp add: lone_ok_def balanced_Nil)
  from lone_run [OF next_call.hyps(3) this assms(2)]
  have ok: "\<forall>c l. s' c = Some l \<longrightarrow> fits (cf_max_attempts cf) l \<and> counted c (since c (map snd tr @ T)) l"
    and bal: "balanced (map snd tr)" unfolding lone_ok_def prod.case by blast+
  have "covered c st True (since c (map snd tr @ T))" for c st
  proof (cases "list_ex (seeds c) (map snd tr)")
    case True
    then show ?thesis using bal by (simp add: since_append balanced_def)
  next
    case False
    then show ?thesis using bal next_call.IH by (auto simp: since_append balanced_def covered_def intro!: add_mono)
  qed
  with ok show ?case by blast
qed (simp_all add: NewMemoryRunStore_def covered_Nil)

text \<open>
  C35: As long as the calls of \<open>Prepare\<close> and \<open>Advance\<close> do not overlap, even if any of them crashes anywhere, the gateway
  sees at most the configured number of primary dispatches of a step since its runs were last seeded (by \<open>Prepare\<close> or by a new
  plan revision), whatever it answers: each was counted in the run's attempts, which stay within the bound, and a run that is to be
  dispatched has an attempt left.
\<close>
theorem attempts_bounded_without_overlap:
  assumes "solo_run cf s T" and "1 \<le> cf_max_attempts cf" and "s cid = Some l"
  shows "int (dispatches cid st True (since cid T)) \<le> cf_max_attempts cf
     \<and> (case runByID l st of
          None \<Rightarrow> dispatches cid st True (since cid T) = 0
        | Some r \<Rightarrow> int (dispatches cid st True (since cid T)) \<le> rn_attempts r)
     \<and> (\<forall>r \<in> set (rl_runs l). rn_attempts r \<le> cf_max_attempts cf
          \<and> (rn_state r = ActionPending \<or> rn_state r = ActionRetrying \<longrightarrow> rn_attempts r < cf_max_attempts cf))"
proof -
  note ok = solo_ok [OF assms(1,2)]
  have fit: "fits (cf_max_attempts cf) l" and "counted cid (since cid T) l" using ok assms(3) by auto
  moreover have "covered cid st True (since cid T)" using ok by blast
  ultimately have d: "int (dispatches cid st True (since cid T)) \<le> (case runByID l st of None \<Rightarrow> 0 | Some r \<Rightarrow> rn_attempts r)"
    unfolding counted_def covered_def by (meson of_nat_le_iff order_trans)
  moreover have "(case runByID l st of None \<Rightarrow> 0 | Some r \<Rightarrow> rn_attempts r) \<le> cf_max_attempts cf"
    using assms(2) runByID_fits [OF fit] by (auto simp: attempts_ok_def split: option.split)
  ultimately show ?thesis using fit by (auto simp: fits_def attempts_ok_def split: option.splits)
qed

text \<open>A sequence that prepares the case and dispatches its action.\<close>

lemma prepared_run:
  obtains s l r T where "solo_run sample_orch s T" "s ''c'' = Some l" "rl_runs l = [r]" "rn_attempts r = 1"
    "dispatches ''c'' ''s'' True (since ''c'' T) = 1"
proof -
  have "\<exists>s tr ts. play sample_ledger_env (map (Pair 0) [RsDone, RsCase (Inr (orch_case StepPending)), RsDone, RsDone])
     (NewMemoryRunStore, [], [forget (Prepare ''t'' ''o'' ''c'')]) = Some (s, tr, ts)
     \<and> s = [''c'' \<mapsto> orch_ledger\<lparr>rl_actor_ref := wc_actor_ref (orch_case StepPending)\<rparr>]
     \<and> list_ex (seeds ''c'') (map snd tr) \<and> since ''c'' (map snd tr) = take 1 (map snd tr) \<and> dispatches ''c'' ''s'' True (take 1 (map snd tr)) = 0"
    by (simp cong: lazy_Do lazy_obind add: NewMemoryRunStore_def Prepare_def forget_def
      orch_eval save_def run_save_def seed_orch) (simp add: orch_ledger_def seedRuns_def)
  then obtain tr ts where p: "play sample_ledger_env (map (Pair 0) [RsDone, RsCase (Inr (orch_case StepPending)), RsDone, RsDone])
     (NewMemoryRunStore, [], [forget (Prepare ''t'' ''o'' ''c'')])
       = Some ([''c'' \<mapsto> orch_ledger\<lparr>rl_actor_ref := wc_actor_ref (orch_case StepPending)\<rparr>], tr, ts)"
     and seeded: "dispatches ''c'' ''s'' True (since ''c'' (map snd tr)) = 0" by auto
  then have 1: "orch_run (\<lambda>_. False) (NewMemoryRunStore, [], [forget (Prepare ''t'' ''o'' ''c'')])
     ([''c'' \<mapsto> orch_ledger\<lparr>rl_actor_ref := wc_actor_ref (orch_case StepPending)\<rparr>], tr, ts)"
    using play_run [OF orch_run.init] by blast
  have s1: "solo_run sample_orch [''c'' \<mapsto> orch_ledger\<lparr>rl_actor_ref := wc_actor_ref (orch_case StepPending)\<rparr>] (map snd tr)"
    using solo_run.next_call [OF solo_run.fresh _ 1] by (auto simp: orchestrating_def preparing_def)
  let ?calls = "once_more @ [RsDone, RsCase (Inr (orch_case StepRunning)), RsDispatch (Inr orch_receipt)]"
  have "\<exists>s tr ts l r. play sample_ledger_env (map (Pair 0) ?calls)
     ([''c'' \<mapsto> orch_ledger\<lparr>rl_actor_ref := wc_actor_ref (orch_case StepPending)\<rparr>], [], [forget (Advance sample_orch ''c'')]) = Some (s, tr, ts)
     \<and> s ''c'' = Some l \<and> rl_runs l = [r] \<and> rn_attempts r = 1
     \<and> \<not> list_ex (seeds ''c'') (map snd tr) \<and> dispatches ''c'' ''s'' True (map snd tr) = 1"
    by (simp cong: lazy_Do lazy_obind add: once_more_def Advance_def forget_def orch_eval max_iters_def
      advance_loop_unfold dispatchStep_def sample_review)
  then obtain s tr2 ts2 l r where 2: "play sample_ledger_env (map (Pair 0) ?calls)
     ([''c'' \<mapsto> orch_ledger\<lparr>rl_actor_ref := wc_actor_ref (orch_case StepPending)\<rparr>], [], [forget (Advance sample_orch ''c'')]) = Some (s, tr2, ts2)"
     "s ''c'' = Some l" "rl_runs l = [r]" "rn_attempts r = 1"
     "\<not> list_ex (seeds ''c'') (map snd tr2)" "dispatches ''c'' ''s'' True (map snd tr2) = 1" by (elim exE conjE)
  have "solo_run sample_orch s (map snd tr2 @ map snd tr)"
    using solo_run.next_call [OF s1 _ play_run [OF orch_run.init 2(1)]] by (auto simp: orchestrating_def advancing_def)
  moreover have "dispatches ''c'' ''s'' True (since ''c'' (map snd tr2 @ map snd tr)) = 1"
    using 2(5,6) seeded by (simp add: since_append)
  ultimately show thesis using that 2 by blast
qed

theorem attempts_bounded_without_overlap_witness:
  "\<exists>s l r T. solo_run sample_orch s T \<and> s ''c'' = Some l \<and> rl_runs l = [r]
     \<and> dispatches ''c'' ''s'' True (since ''c'' T) = 1 \<and> rn_attempts r \<le> cf_max_attempts sample_orch"
proof (rule prepared_run)
  fix s l r T assume *: "solo_run sample_orch s T" "s ''c'' = Some l" "rl_runs l = [r]" "dispatches ''c'' ''s'' True (since ''c'' T) = 1"
  then have "rn_attempts r \<le> cf_max_attempts sample_orch"
    using attempts_bounded_without_overlap [OF *(1) _ *(2), of "''s''"] by simp
  with * show ?thesis by blast
qed

end
