(* ===== verification/OrchLive.thy ===== *)
theory OrchLive
  imports OrchLimits
begin

text \<open>
  That the orchestrator stops: the bound on the gateway calls of one \<open>Advance\<close>, and the escalation to a human of
  a run whose result stays unknown.
\<close>

subsection \<open>Gateway calls\<close>

fun gateway_call :: "orch_op \<Rightarrow> bool" where
  "gateway_call (OpDispatch _ _ _ _) = True"
| "gateway_call (OpReconcile _) = True"
| "gateway_call _ = False"

text \<open>At most \<open>n\<close> gateway calls on every path.\<close>

primrec at_most :: "'a orch \<Rightarrow> nat \<Rightarrow> bool" where
  "at_most (Ret x) n = True"
| "at_most (Err e) n = True"
| "at_most (Do a k) n = (if gateway_call a then 0 < n \<and> (\<forall>r. at_most (k r) (n - 1)) else \<forall>r. at_most (k r) n)"

lemma at_most_mono: "at_most p m \<Longrightarrow> m \<le> n \<Longrightarrow> at_most p n"
proof (induction p arbitrary: m n)
  case (Do a k)
  show ?case
  proof (cases "gateway_call a")
    case True
    then show ?thesis using Do.prems Do.IH [OF rangeI, of _ "m - 1" "n - 1"] by auto
  next
    case False
    then show ?thesis using Do.prems Do.IH [OF rangeI, of _ m n] by auto
  qed
qed simp_all

lemma at_most_obind:
  assumes "at_most p m" and "\<And>x. at_most (f x) n"
  shows "at_most (obind p f) (m + n)"
  using assms(1)
proof (induction p arbitrary: m)
  case (Ret x)
  show ?case using at_most_mono [OF assms(2) [of x], of "m + n"] by simp
next
  case (Do a k)
  show ?case
  proof (cases "gateway_call a")
    case True
    then have m: "0 < m" "m + n - 1 = (m - 1) + n" and k: "at_most (k r) (m - 1)" for r using Do.prems by auto
    show ?thesis using True m(1) Do.IH [OF rangeI k] unfolding m(2) [symmetric] by simp
  next
    case False
    then have "at_most (k r) m" for r using Do.prems by auto
    then show ?thesis using False Do.IH [OF rangeI] by simp
  qed
qed simp

text \<open>A program without gateway calls, and one after it.\<close>

lemma at_most_quiet: "at_most p 0 \<Longrightarrow> (\<And>x. at_most (f x) n) \<Longrightarrow> at_most (obind p f) n"
  using at_most_obind [of p 0 f n] by simp

lemma at_most_then_quiet: "at_most p n \<Longrightarrow> (\<And>x. at_most (f x) 0) \<Longrightarrow> at_most (obind p f) n"
  using at_most_obind [of p n f 0] by simp

lemma quiet_calls [simp]:
  "at_most (load c) n" "at_most (or_fail e x) n" "at_most (transform c u) n" "at_most (get_case e1 e2 c) n"
  "at_most (case_service req) n" "at_most (prepare_action wc m st) n" "at_most (prepare_reversal wc m st) n"
  "at_most (propose wc) n" "at_most (observe ar need) n" "at_most (evaluate_outcome cmd) n" "at_most (latest_outcome t k) n"
  "at_most (close_case ref v key) n" "at_most clock n" "at_most (save l) n"
  by (auto simp: load_def or_fail_def transform_def get_case_def case_service_def prepare_action_def prepare_reversal_def
      propose_def observe_def evaluate_outcome_def latest_outcome_def close_case_def clock_def save_def
      split: orch_resp.splits sum.splits option.splits)

lemma quiet_load_ledger [simp]: "at_most (load_ledger c) n"
  by (simp add: load_ledger_def at_most_quiet)

lemma one_call: "1 \<le> n \<Longrightarrow> at_most (dispatch cid s kind req) n" "1 \<le> n \<Longrightarrow> at_most (reconcile req) n"
  by (auto simp: dispatch_def reconcile_def split: orch_resp.splits)

lemma quiet_service [simp]: "at_most (advanceStep l v s t ev) n" "at_most (markStepRunning l s) n"
  "at_most (markStepCompleted l s e) n" "at_most (markStepFailed cid s) n"
  by (simp_all add: advanceStep_def markStepRunning_def markStepCompleted_def markStepFailed_def at_most_quiet)

lemma quiet_moves [simp]:
  "at_most (transitionWith cid s to reason eff) n" "at_most (transition cid s to reason) n" "at_most (move_to cid s to reason) n"
  "at_most (bumpReconcile cf cid s) n"
  by (simp_all add: transitionWith_def transition_def move_to_def bumpReconcile_def at_most_quiet split: prod.split)

lemma quiet_handlers [simp]:
  "at_most (retryOrEscalate cf cid s reason) n" "at_most (completeStep l s req rc) n"
  by (simp_all add: retryOrEscalate_def completeStep_def at_most_quiet split: option.split)

lemma quiet_policy [simp]: "at_most (applyFailurePolicy cf l s st reason) n"
  by (simp add: applyFailurePolicy_def Let_def at_most_quiet)

lemma quiet_receipt [simp]: "at_most (applyReceipt cf l s st req rc) n" "at_most (handleDispatchError cf l s se e) n"
  by (simp_all add: applyReceipt_def handleDispatchError_def at_most_quiet split: dispatch_err.split)

lemma one_dispatchStep: "at_most (dispatchStep cf wc l run) 1"
  by (auto simp: dispatchStep_def split: option.split sum.split
      intro!: at_most_quiet [of "prepare_action _ _ _"] at_most_quiet [of "transitionWith _ _ _ _ _"]
        at_most_quiet [of "markStepRunning _ _"] at_most_quiet [of "handleDispatchError _ _ _ _ _"]
        at_most_quiet [of "applyReceipt _ _ _ _ _ _"] at_most_then_quiet [of "dispatch _ _ _ _"] one_call)

lemma one_reconcileStep: "at_most (reconcileStep cf wc l run) 1"
  by (auto simp: reconcileStep_def Let_def split: option.split sum.split dispatch_err.split
      intro!: at_most_quiet [of "prepare_action _ _ _"] at_most_quiet [of "bumpReconcile _ _ _"]
        at_most_quiet [of "retryOrEscalate _ _ _ _"] at_most_quiet [of "completeStep _ _ _ _"]
        at_most_quiet [of "applyFailurePolicy _ _ _ _ _"] at_most_then_quiet [of "reconcile _"] one_call)

lemma one_compensateStep: "at_most (compensateStep cf wc l run) 1"
  by (auto simp: compensateStep_def Let_def split: option.split sum.split
      intro!: at_most_quiet [of "prepare_reversal _ _ _"] at_most_quiet [of "transition _ _ _ _"]
        at_most_quiet [of "transitionWith _ _ _ _ _"] at_most_then_quiet [of "dispatch _ _ _ _"] one_call)

lemma one_stepOnce: "at_most (stepOnce cf wc l run) 1"
  by (auto simp: stepOnce_def one_dispatchStep [simplified] one_reconcileStep [simplified] one_compensateStep [simplified]
      compensationDispatchedRest_def replanStep_def
      Let_def split: action_state.split option.split sum.split intro!: at_most_quiet)

lemma quiet_gather [simp]: "at_most (gather_needs oc wc l seen qs acc) n"
  by (induction qs arbitrary: seen acc) (auto split: option.split intro!: at_most_quiet)

lemma quiet_finalizeCase [simp]: "at_most (finalizeCase cf wc l) n"
  by (auto simp: finalizeCase_def buildEvaluateCommand_def split: option.split outcome_status.split prod.split intro!: at_most_quiet)

lemma quiet_syncPlan [simp]: "at_most (syncPlan wc) n"
  by (auto simp: syncPlan_def split: prod.split intro!: at_most_quiet)

lemma loop_calls: "at_most (advance_loop cf cid n progressed l) n"
proof (induction n arbitrary: progressed l)
  case (Suc n)
  have "at_most (obind (case currentActionableRun l of None \<Rightarrow> finalizeCase cf wc l | Some run \<Rightarrow> stepOnce cf wc l run)
      (\<lambda>did. if \<not> did then Ret progressed else obind (load_ledger cid) (\<lambda>l. advance_loop cf cid n True l))) (1 + n)" for wc l
    by (rule at_most_obind) (auto simp: one_stepOnce [simplified] Suc.IH split: option.split intro!: at_most_quiet)
  then show ?case by (auto intro!: at_most_quiet [of "get_case _ _ _"] at_most_quiet [of "syncPlan _"])
qed simp

definition gateway_calls :: "orch_call list \<Rightarrow> nat" where
  "gateway_calls h = length (filter (\<lambda>c. gateway_call (fst c)) h)"

text \<open>What a goroutine may still call, from the ledger its first call loaded.\<close>

definition budgeted :: "orch_config \<Rightarrow> unit orch \<Rightarrow> orch_call list \<Rightarrow> bool" where
  "budgeted cf p h \<longleftrightarrow>
     (if h = [] then advancing cf p
      else \<forall>cid l. last h = (OpLoad cid, RsLedger (Inr l)) \<longrightarrow> at_most p (max_iters cf l - gateway_calls h) \<and> gateway_calls h \<le> max_iters cf l)"

lemma Advance_budget:
  "at_most (obind (obind (advance_loop cf cid (max_iters cf l) False l) (\<lambda>progressed. obind (load_ledger cid) (\<lambda>final.
      Ret \<lparr>av_case_id = cid, av_progressed = progressed, av_quiescent = isQuiescent final, av_ledger = final\<rparr>))) (\<lambda>_. Ret ())) (max_iters cf l)"
  by (intro at_most_then_quiet loop_calls at_most_quiet) simp_all

lemma budgeted_call:
  assumes "budgeted cf (Do a k) h"
  shows "budgeted cf (k r) ((a, r) # h)"
proof (cases "h = []")
  case True
  then obtain cid where "Do a k = forget (Advance cf cid)" using assms by (auto simp: budgeted_def advancing_def)
  then have a: "a = OpLoad cid" and k: "k (RsLedger (Inr l)) = obind (obind (advance_loop cf cid (max_iters cf l) False l)
      (\<lambda>progressed. obind (load_ledger cid) (\<lambda>final.
      Ret \<lparr>av_case_id = cid, av_progressed = progressed, av_quiescent = isQuiescent final, av_ledger = final\<rparr>))) (\<lambda>_. Ret ())" for l
    by (simp_all add: forget_def Advance_def load_ledger_def load_def or_fail_def)
  show ?thesis using True a k Advance_budget by (auto simp: budgeted_def gateway_calls_def)
next
  case False
  then show ?thesis using assms by (auto simp: budgeted_def gateway_calls_def split: if_splits)
qed

lemma budgeted_run:
  assumes "orch_run (advancing cf) w0 w" and "w0 = (s0, [], [])"
  shows "(\<forall>i < length (snd (snd w)). budgeted cf (snd (snd w) ! i) (calls_of i (fst (snd w))))
    \<and> (\<forall>i \<ge> length (snd (snd w)). calls_of i (fst (snd w)) = [])"
  using assms
proof (induction rule: orch_run.induct)
  case (step w0 w w')
  show ?case using step.hyps(2)
  proof cases
    case (start p s tr ts)
    then show ?thesis using step.IH [OF step.prems] by (auto simp: nth_append less_Suc_eq budgeted_def)
  next
    case (call i ts a k s r s' tr)
    then have "budgeted cf (Do a k) (calls_of i tr)" using step.IH [OF step.prems] by auto
    from budgeted_call [OF this] show ?thesis using step.IH [OF step.prems] call by (auto simp: nth_list_update)
  qed
qed simp

text \<open>
  C38: Under any interleaving and whatever is answered, one \<open>Advance\<close> dispatches and reconciles at most
  \<open>max_iters\<close> times, the bound its loop computes from the ledger it loads first: an iteration makes at most one gateway call.
\<close>
theorem gateway_calls_bounded:
  assumes "orch_run (advancing cf) (s0, [], []) (s, tr, ts)"
    and "calls_of i tr \<noteq> []" and "last (calls_of i tr) = (OpLoad cid, RsLedger (Inr l))"
  shows "gateway_calls (calls_of i tr) \<le> max_iters cf l"
proof -
  have "i < length ts" using budgeted_run [OF assms(1) refl] assms(2) by (auto simp: not_less [symmetric])
  then have "budgeted cf (ts ! i) (calls_of i tr)" using budgeted_run [OF assms(1) refl] by simp
  then show ?thesis using assms(2,3) by (simp add: budgeted_def)
qed

lemma one_load: "\<exists>s tr ts. orch_run (advancing sample_orch) (orch_store, [], []) (s, tr, ts)
    \<and> calls_of 0 tr = [(OpLoad ''c'', RsLedger (Inr orch_ledger))]"
proof -
  have "orch_run (advancing sample_orch) (orch_store, [], []) (orch_store, [], [forget (Advance sample_orch ''c'')])"
    by (rule run_threads) (auto simp: advancing_def)
  moreover have "\<exists>s tr ts. play sample_ledger_env [(0, RsDone)] (orch_store, [], [forget (Advance sample_orch ''c'')]) = Some (s, tr, ts)
    \<and> calls_of 0 tr = [(OpLoad ''c'', RsLedger (Inr orch_ledger))]"
    by (simp cong: lazy_Do lazy_obind add: Advance_def forget_def load_ledger_def load_def run_load_def orch_store_def or_fail_def)
  ultimately show ?thesis using play_run by blast
qed

theorem gateway_calls_bounded_witness:
  "\<exists>s tr ts. orch_run (advancing sample_orch) (orch_store, [], []) (s, tr, ts) \<and> calls_of 0 tr \<noteq> []
     \<and> gateway_calls (calls_of 0 tr) \<le> max_iters sample_orch orch_ledger \<and> max_iters sample_orch orch_ledger = 34"
proof -
  obtain s tr ts where *: "orch_run (advancing sample_orch) (orch_store, [], []) (s, tr, ts)"
    "calls_of 0 tr = [(OpLoad ''c'', RsLedger (Inr orch_ledger))]" using one_load by blast
  from gateway_calls_bounded [OF *(1), of 0 "''c''" orch_ledger] *(2)
  have "gateway_calls (calls_of 0 tr) \<le> max_iters sample_orch orch_ledger" by simp
  then show ?thesis using * by (intro exI [of _ s] exI [of _ tr] exI [of _ ts]) (simp add: max_iters_def)
qed

subsection \<open>A result that stays unknown\<close>

text \<open>One goroutine alone against parties that answer by a function of the call.\<close>

primrec exec :: "ledger_env \<Rightarrow> (orch_op \<Rightarrow> orch_resp) \<Rightarrow> 'a orch \<Rightarrow> run_store \<Rightarrow> (orch_err + 'a) \<times> run_store" where
  "exec env ans (Ret x) s = (Inr x, s)"
| "exec env ans (Err e) s = (Inl e, s)"
| "exec env ans (Do a k) s = exec env ans (k (fst (reply env s a (ans a)))) (snd (reply env s a (ans a)))"

lemma exec_obind [simp]:
  "exec env ans (obind p f) s = (case exec env ans p s of (Inl e, s') \<Rightarrow> (Inl e, s') | (Inr x, s') \<Rightarrow> exec env ans (f x) s')"
  by (induction p arbitrary: s) simp_all

lemma exec_calls [simp]:
  "exec env ans (load_ledger cid) s = (case s cid of None \<Rightarrow> (Inl (ErrRun ErrRunNotFound), s) | Some l \<Rightarrow> (Inr l, s))"
  "ans (OpGet e w c) = RsCase (Inr wc) \<Longrightarrow> exec env ans (get_case e w c) s = (Inr wc, s)"
  "ans (OpCase q) = RsCase x \<Longrightarrow> exec env ans (case_service q) s = (Inr x, s)"
  "ans (OpPrepare wc n st) = RsPrepare y \<Longrightarrow> exec env ans (prepare_action wc n st) s = (Inr y, s)"
  "ans (OpReconcile req) = RsReconcile z \<Longrightarrow> exec env ans (reconcile req) s = (Inr z, s)"
  by (simp_all add: load_ledger_def load_def run_load_def or_fail_def get_case_def case_service_def prepare_action_def reconcile_def
      split: option.split)

lemma exec_transform:
  "s cid = Some l \<Longrightarrow> apply_update env cid u l = Inr (l1, b) \<Longrightarrow>
     exec env ans (transform cid u) s = (Inr (l1\<lparr>rl_revision := rl_revision l + 1\<rparr>, b), s(cid \<mapsto> l1\<lparr>rl_revision := rl_revision l + 1\<rparr>))"
  by (simp add: transform_def run_transform_def Let_def)

text \<open>
  The run at stake is the first unfinished one, and no earlier run has its id.  The case is executing on the plan of the
  ledger, the governor prepares the action, the reconcile authority does not answer, and the audit sink and the
  work-case service accept what they are given.
\<close>

definition stuck :: "string \<Rightarrow> action_run list \<Rightarrow> action_run \<Rightarrow> action_run list \<Rightarrow> run_ledger \<Rightarrow> bool" where
  "stuck cid before run after l \<longleftrightarrow> rl_case_id l = cid \<and> rl_runs l = before @ run # after \<and> rn_state run = ActionResultUnknown
     \<and> (\<forall>r \<in> set before. rn_state r = ActionCompleted \<and> rn_step_id r \<noteq> rn_step_id run)"

definition unreachable :: "ledger_env \<Rightarrow> (orch_op \<Rightarrow> orch_resp) \<Rightarrow> string \<Rightarrow> uint64 \<Rightarrow> string \<Rightarrow> bool" where
  "unreachable env ans cid plan step \<longleftrightarrow>
     (\<forall>d. \<exists>ref. recordAudit env cid d = Inr ref)
   \<and> (\<forall>q. \<exists>wc. ans (OpCase q) = RsCase (Inr wc))
   \<and> (\<exists>wc st req parties se. (\<forall>e w. ans (OpGet e w cid) = RsCase (Inr wc)) \<and> wc_status wc = StatusExecuting \<and> wc_id wc = cid
        \<and> fst (topPlan wc) = plan \<and> dispatchable wc step = Some st
        \<and> ans (OpPrepare wc plan st) = RsPrepare (Some (req, parties, se)) \<and> ans (OpReconcile req) = RsReconcile (Inl ErrTransportTimeout))"

lemma find_index_append:
  "\<forall>x \<in> set xs. \<not> p x \<Longrightarrow> p y \<Longrightarrow> find_index p (xs @ y # ys) = Some (length xs)"
  by (induction xs) auto

lemma stuck_index: "stuck cid before run after l \<Longrightarrow> indexRun l (rn_step_id run) = Some (length before)"
  by (auto simp: stuck_def indexRun_def intro!: find_index_append)

lemma find_append: "\<forall>x \<in> set xs. \<not> p x \<Longrightarrow> p y \<Longrightarrow> find p (xs @ y # ys) = Some y"
  by (induction xs) auto

lemma current_first:
  "rl_runs l = before @ run # after \<Longrightarrow> \<forall>r \<in> set before. rn_state r = ActionCompleted \<Longrightarrow> rn_state run \<noteq> ActionCompleted
    \<Longrightarrow> currentActionableRun l = Some run"
  by (auto simp: currentActionableRun_def intro!: find_append)

definition bump :: "action_run \<Rightarrow> action_run" where
  "bump r = r\<lparr>rn_reconcile_attempts := rn_reconcile_attempts r + 1\<rparr>"

lemma exec_bump:
  assumes "s cid = Some l" and "stuck cid before run after l"
  shows "exec env ans (bumpReconcile cf cid (rn_step_id run)) s =
     (Inr (cf_max_attempts cf \<le> rn_reconcile_attempts run + 1),
      s(cid \<mapsto> (update_run (length before) bump l)\<lparr>rl_revision := rl_revision l + 1\<rparr>))"
proof -
  have "apply_update env cid (BumpReconcile (cf_max_attempts cf) (rn_step_id run)) l =
      Inr (update_run (length before) bump l, cf_max_attempts cf \<le> rn_reconcile_attempts run + 1)"
    using assms(2) stuck_index [OF assms(2)] by (simp add: Let_def stuck_def bump_def [abs_def])
  from exec_transform [of s cid l, OF assms(1) this] show ?thesis by (simp add: bumpReconcile_def)
qed

lemma exec_sync:
  "s (wc_id wc) = Some l \<Longrightarrow> rl_plan_revision l = fst (topPlan wc) \<Longrightarrow> rl_runs l \<noteq> [] \<Longrightarrow> exec env ans (syncPlan wc) s = (Inr l, s)"
  by (simp add: syncPlan_def)

lemma max_iters_twice: "1 \<le> cf_max_attempts cf \<Longrightarrow> \<exists>n. max_iters cf l = Suc (Suc n)"
proof -
  assume "1 \<le> cf_max_attempts cf"
  then have "0 \<le> (int (length (rl_runs l)) + 1) * (cf_max_attempts cf + 6)" by simp
  then have "2 \<le> max_iters cf l" by (simp add: max_iters_def)
  then show ?thesis by (metis Suc_diff_le Suc_diff_Suc add_2_eq_Suc le_add_diff_inverse)
qed

text \<open>One call while attempts remain: the run waits, one more attempt is counted.\<close>

lemma advance_waits:
  assumes "s cid = Some l" and "stuck cid before run after l" and "unreachable env ans cid (rl_plan_revision l) (rn_step_id run)"
    and "1 \<le> cf_max_attempts cf" and "rn_reconcile_attempts run + 1 < cf_max_attempts cf"
  shows "\<exists>res. exec env ans (Advance cf cid) s =
     (Inr res, s(cid \<mapsto> (update_run (length before) bump l)\<lparr>rl_revision := rl_revision l + 1\<rparr>))"
proof -
  obtain n where n: "max_iters cf l = Suc (Suc n)" using max_iters_twice [OF assms(4)] by blast
  obtain wc st req parties se where ans: "\<And>e w. ans (OpGet e w cid) = RsCase (Inr wc)" "wc_status wc = StatusExecuting"
    "wc_id wc = cid" "fst (topPlan wc) = rl_plan_revision l" "dispatchable wc (rn_step_id run) = Some st"
    "ans (OpPrepare wc (rl_plan_revision l) st) = RsPrepare (Some (req, parties, se))" "ans (OpReconcile req) = RsReconcile (Inl ErrTransportTimeout)"
    using assms(3) unfolding unreachable_def by blast
  have st: "rl_case_id l = cid" "rl_runs l = before @ run # after" "rn_state run = ActionResultUnknown"
    using assms(2) by (simp_all add: stuck_def)
  have cur: "currentActionableRun l = Some run"
    using assms(2) by (intro current_first [of _ before _ after]) (auto simp: stuck_def)
  have sync: "exec env ans (syncPlan wc) s = (Inr l, s)"
    by (rule exec_sync) (use assms(1) ans st in simp_all)
  have once: "exec env ans (stepOnce cf wc l run) s =
      (Inr False, s(cid \<mapsto> (update_run (length before) bump l)\<lparr>rl_revision := rl_revision l + 1\<rparr>))"
    using assms(5) by (simp add: stepOnce_def st reconcileStep_def Let_def ans exec_bump [of s cid l, OF assms(1,2)])
  show ?thesis
    by (simp add: Advance_def assms(1) n ans sync cur once)
qed

text \<open>The call that uses the last attempt: a human takes over.\<close>

lemma takeover_state:
  assumes "indexRun l st = Some i" and "CanTransitionTo (rn_state (rl_runs l ! i)) to" and "recordAudit env cid =(\<lambda>d. Inr (ref d))"
  obtains l' where "apply_update env cid (Move st to reason NoEffect) l = Inr (l', True)" "run_state l' st = Some to"
    "rl_runs l' = (rl_runs l)[i := (rl_runs l ! i)\<lparr>rn_state := to\<rparr>]" "rl_plan_revision l' = rl_plan_revision l" "rl_case_id l' = rl_case_id l"
proof -
  obtain l' where l': "apply_move env cid st to reason NoEffect l = Inr (l', True)" "rl_case_id l' = rl_case_id l"
    "rl_runs l' = (rl_runs l)[i := (rl_runs l ! i)\<lparr>rn_state := to\<rparr>]" "rl_plan_revision l' = rl_plan_revision l"
    using assms by (simp add: apply_move_def Let_def)
  moreover have "run_state l' st = Some to"
    using run_state_update [where f = "\<lambda>r. r\<lparr>rn_state := to\<rparr>", OF _ assms(1) l'(3)] by simp
  ultimately show thesis using that by simp
qed

lemma exec_give_up:
  assumes "s cid = Some l" and "indexRun l st = Some i" and "rn_state (rl_runs l ! i) = ActionResultUnknown"
    and "unreachable env ans cid plan st"
  obtains l' where "exec env ans (move_to cid st ActionHumanTakeover reason) s = (Inr True, s(cid \<mapsto> l'))"
    "run_state l' st = Some ActionHumanTakeover" "rl_runs l' = (rl_runs l)[i := (rl_runs l ! i)\<lparr>rn_state := ActionHumanTakeover\<rparr>]"
    "rl_plan_revision l' = rl_plan_revision l" "rl_case_id l' = rl_case_id l"
proof -
  have "\<forall>d. \<exists>ref. recordAudit env cid d = Inr ref" using assms(4) by (simp add: unreachable_def)
  then obtain ref where ref: "recordAudit env cid = (\<lambda>d. Inr (ref d))" by (metis (no_types) ext)
  obtain wc where wc: "\<And>e w. ans (OpGet e w cid) = RsCase (Inr wc)" using assms(4) unfolding unreachable_def by blast
  have svc: "\<exists>wc2. exec env ans (advanceStep l1 v t target ev) s1 = (Inr wc2, s1)" for l1 v t target ev s1
  proof -
    have "\<exists>wc2. ans (OpCase q) = RsCase (Inr wc2)" for q using assms(4) by (simp add: unreachable_def)
    then obtain wc2 where "ans (OpCase (ReqAdvanceStep (ledger_command l1 v
        (''adv-'' @ shortHash (rl_case_id l1 @ '':'' @ t @ '':'' @ step_status_text target @ '':'' @ format_uint v))) t target ev))
        = RsCase (Inr wc2)" by blast
    then show ?thesis by (simp add: advanceStep_def or_fail_def)
  qed
  have failed: "exec env ans (markStepFailed cid t) s1 = (Inr (), s1)" if "s1 cid = Some l1" for t s1 l1
  proof (cases "stepStatus wc t = StepRunning")
    case True
    obtain wc2 where "exec env ans (advanceStep l1 (wc_revision wc) t StepFailed []) s1 = (Inr wc2, s1)" using svc by blast
    then show ?thesis using that wc True by (simp add: markStepFailed_def)
  next
    case False
    then show ?thesis using that wc by (simp add: markStepFailed_def)
  qed
  have "CanTransitionTo (rn_state (rl_runs l ! i)) ActionHumanTakeover" using assms(3) by (simp add: CanTransitionTo_def)
  from takeover_state [OF assms(2) this ref, of reason] obtain l' where
    l': "apply_update env cid (Move st ActionHumanTakeover reason NoEffect) l = Inr (l', True)" "run_state l' st = Some ActionHumanTakeover"
    "rl_runs l' = (rl_runs l)[i := (rl_runs l ! i)\<lparr>rn_state := ActionHumanTakeover\<rparr>]"
    "rl_plan_revision l' = rl_plan_revision l" "rl_case_id l' = rl_case_id l" by blast
  have "exec env ans (move_to cid st ActionHumanTakeover reason) s = (Inr True, s(cid \<mapsto> l'\<lparr>rl_revision := rl_revision l + 1\<rparr>))"
    by (simp add: move_to_def transition_def transitionWith_def exec_transform [of s cid l, OF assms(1) l'(1)] failed)
  then show thesis
    using that [of "l'\<lparr>rl_revision := rl_revision l + 1\<rparr>"] l' by (simp add: run_state_def runByID_def indexRun_def)
qed

lemma advance_escalates:
  assumes "s cid = Some l" and "stuck cid before run after l" and "unreachable env ans cid (rl_plan_revision l) (rn_step_id run)"
    and "1 \<le> cf_max_attempts cf" and "\<not> rn_reconcile_attempts run + 1 < cf_max_attempts cf"
  shows "\<exists>res s' l'. exec env ans (Advance cf cid) s = (Inr res, s') \<and> s' cid = Some l' \<and> run_state l' (rn_step_id run) = Some ActionHumanTakeover"
proof -
  obtain n where n: "max_iters cf l = Suc (Suc n)" using max_iters_twice [OF assms(4)] by blast
  obtain wc st req parties se where ans: "\<And>e w. ans (OpGet e w cid) = RsCase (Inr wc)" "wc_status wc = StatusExecuting"
    "wc_id wc = cid" "fst (topPlan wc) = rl_plan_revision l" "dispatchable wc (rn_step_id run) = Some st"
    "ans (OpPrepare wc (rl_plan_revision l) st) = RsPrepare (Some (req, parties, se))" "ans (OpReconcile req) = RsReconcile (Inl ErrTransportTimeout)"
    using assms(3) unfolding unreachable_def by blast
  have st: "rl_case_id l = cid" "rl_runs l = before @ run # after" "rn_state run = ActionResultUnknown"
    "\<forall>r \<in> set before. rn_state r = ActionCompleted \<and> rn_step_id r \<noteq> rn_step_id run"
    using assms(2) by (simp_all add: stuck_def)
  have cur: "currentActionableRun l = Some run" using st by (intro current_first [of _ before _ after]) auto
  have sync: "exec env ans (syncPlan wc) s = (Inr l, s)"
    by (rule exec_sync) (use assms(1) ans st in simp_all)
  let ?l1 = "(update_run (length before) bump l)\<lparr>rl_revision := rl_revision l + 1\<rparr>"
  let ?s1 = "s(cid \<mapsto> ?l1)"
  have i: "indexRun ?l1 (rn_step_id run) = Some (length before)"
    using st by (auto simp: indexRun_def bump_def intro!: find_index_append)
  have u: "rn_state (rl_runs ?l1 ! length before) = ActionResultUnknown" using st by (simp add: bump_def)
  obtain l2 where l2: "exec env ans (move_to cid (rn_step_id run) ActionHumanTakeover
        ''reconcile authority unreachable; reconcile attempts exhausted'') ?s1 = (Inr True, ?s1(cid \<mapsto> l2))"
    "run_state l2 (rn_step_id run) = Some ActionHumanTakeover"
    "rl_runs l2 = (rl_runs ?l1)[length before := (rl_runs ?l1 ! length before)\<lparr>rn_state := ActionHumanTakeover\<rparr>]"
    "rl_plan_revision l2 = rl_plan_revision l"
    using exec_give_up [of ?s1 cid ?l1, OF _ i u assms(3)] by auto
  have once: "exec env ans (stepOnce cf wc l run) s = (Inr True, s(cid \<mapsto> l2))"
    using assms(5) l2(1) by (simp add: stepOnce_def st reconcileStep_def Let_def ans exec_bump [of s cid l, OF assms(1,2)])
  let ?run = "(bump run)\<lparr>rn_state := ActionHumanTakeover\<rparr>"
  have runs2: "rl_runs l2 = before @ ?run # after" using l2(3) st by simp
  have cur2: "currentActionableRun l2 = Some ?run" using st runs2 by (intro current_first [of _ before _ after]) auto
  have sync2: "exec env ans (syncPlan wc) (s(cid \<mapsto> l2)) = (Inr l2, s(cid \<mapsto> l2))"
    by (rule exec_sync) (use ans runs2 l2(4) in simp_all)
  show ?thesis
    by (simp add: Advance_def assms(1) n ans sync cur once sync2 cur2 stepOnce_def [of _ _ l2] l2(2))
qed

text \<open>
  C39: A run whose result is unknown never stays so: if the reconcile authority stays unreachable and nobody else works on the
  case, each \<open>Advance\<close> returns without an error, and after as many calls as reconcile attempts are left, at least one, the run is with a human.
\<close>
theorem unknown_result_escalates:
  assumes "s cid = Some l" and "stuck cid before run after l" and "unreachable env ans cid (rl_plan_revision l) (rn_step_id run)"
    and "1 \<le> cf_max_attempts cf" and "n = max 1 (nat (cf_max_attempts cf - rn_reconcile_attempts run))"
  shows "(\<forall>k < n. \<exists>res. fst (exec env ans (Advance cf cid) (((\<lambda>s. snd (exec env ans (Advance cf cid) s)) ^^ k) s)) = Inr res)
     \<and> (\<exists>l'. (((\<lambda>s. snd (exec env ans (Advance cf cid) s)) ^^ n) s) cid = Some l'
          \<and> run_state l' (rn_step_id run) = Some ActionHumanTakeover)"
  using assms
proof (induction "nat (cf_max_attempts cf - rn_reconcile_attempts run)" arbitrary: s l run n rule: less_induct)
  case less
  let ?f = "\<lambda>s. snd (exec env ans (Advance cf cid) s)"
  show ?case
  proof (cases "rn_reconcile_attempts run + 1 < cf_max_attempts cf")
    case False
    then have "n = 1" using less.prems(5) by auto
    then show ?thesis
      using advance_escalates [of s cid l before run after env ans cf, OF less.prems(1-4) False] by auto
  next
    case True
    let ?l1 = "(update_run (length before) bump l)\<lparr>rl_revision := rl_revision l + 1\<rparr>"
    let ?m = "max 1 (nat (cf_max_attempts cf - rn_reconcile_attempts (bump run)))"
    obtain res where e: "exec env ans (Advance cf cid) s = (Inr res, s(cid \<mapsto> ?l1))"
      using advance_waits [of s cid l before run after env ans cf, OF less.prems(1-4) True] by blast
    have n: "n = Suc ?m" using True less.prems(5) by (auto simp: bump_def)
    have b: "rn_step_id (bump run) = rn_step_id run" by (simp add: bump_def)
    have "stuck cid before (bump run) after ?l1"
      using less.prems(2) by (auto simp: stuck_def bump_def update_run_def)
    moreover have "nat (cf_max_attempts cf - rn_reconcile_attempts (bump run)) < nat (cf_max_attempts cf - rn_reconcile_attempts run)"
      using True by (simp add: bump_def)
    ultimately have IH: "(\<forall>k < ?m. \<exists>res. fst (exec env ans (Advance cf cid) ((?f ^^ k) (s(cid \<mapsto> ?l1)))) = Inr res)
       \<and> (\<exists>l'. ((?f ^^ ?m) (s(cid \<mapsto> ?l1))) cid = Some l' \<and> run_state l' (rn_step_id run) = Some ActionHumanTakeover)"
      using less.hyps [of "bump run" "s(cid \<mapsto> ?l1)" ?l1 ?m] less.prems(3,4) b by simp
    have step: "(?f ^^ Suc k) s = (?f ^^ k) (s(cid \<mapsto> ?l1))" for k
      unfolding funpow_Suc_right o_def e by simp
    have "\<exists>res. fst (exec env ans (Advance cf cid) ((?f ^^ k) s)) = Inr res" if "k < n" for k
    proof (cases k)
      case 0
      then show ?thesis using e by simp
    next
      case (Suc j)
      then show ?thesis using IH that n unfolding Suc step by auto
    qed
    then show ?thesis using IH unfolding n step by blast
  qed
qed

text \<open>The sample case with its result unknown, and a reconcile authority that never answers.\<close>

definition lost_run :: action_run where
  "lost_run = (seed_run ''c'' (orch_step_of StepPending))\<lparr>rn_state := ActionResultUnknown, rn_attempts := 1\<rparr>"

definition lost_store :: run_store where
  "lost_store = [''c'' \<mapsto> orch_ledger\<lparr>rl_runs := [lost_run]\<rparr>]"

fun lost_answer :: "orch_op \<Rightarrow> orch_resp" where
  "lost_answer (OpGet e w c) = RsCase (Inr (orch_case StepRunning))"
| "lost_answer (OpCase q) = RsCase (Inr (orch_case StepFailed))"
| "lost_answer (OpPrepare wc n st) = RsPrepare (Some (orch_request, sample_parties, True))"
| "lost_answer (OpReconcile req) = RsReconcile (Inl ErrTransportTimeout)"
| "lost_answer a = RsDone"

theorem unknown_result_escalates_witness:
  "\<exists>l'. (((\<lambda>s. snd (exec sample_ledger_env lost_answer (Advance sample_orch ''c'') s)) ^^ 3) lost_store) ''c'' = Some l'
     \<and> run_state l' ''s'' = Some ActionHumanTakeover"
proof -
  have run: "rn_step_id lost_run = ''s''" "rn_reconcile_attempts lost_run = 0" by (simp_all add: lost_run_def)
  have stuck: "stuck ''c'' [] lost_run [] (orch_ledger\<lparr>rl_runs := [lost_run]\<rparr>)" by (simp add: stuck_def lost_run_def)
  have act: "dispatchable (orch_case StepRunning) ''s'' = Some (orch_step_of StepRunning)"
    by (simp add: dispatchable_def stepByID_def)
  have "unreachable sample_ledger_env lost_answer ''c'' 1 ''s''"
    unfolding unreachable_def
    by (intro conjI exI [of _ "orch_case StepRunning"] exI [of _ "orch_step_of StepRunning"])
      (auto simp: act recordAudit_def sample_ledger_env_def)
  then show ?thesis
    using unknown_result_escalates [of lost_store "''c''" "orch_ledger\<lparr>rl_runs := [lost_run]\<rparr>" "[]" lost_run "[]" sample_ledger_env
        lost_answer sample_orch 3] stuck run
    by (simp add: lost_store_def)
qed

end
