(* ===== verification/OrchReversal.thy ===== *)
theory OrchReversal
  imports OrchProps
begin

text \<open>
  A reversal and the upward review.  The header of \<^verbatim>\<open>internal/workcase/orchestrator.go\<close> gates every
  side-effecting action by the upward-review policy (its point 7); \<open>compensateStep\<close> dispatches its reversal
  on the governor's word alone.  The theory plays a run in which the policy refuses the only approvers named
  in it, and the reversal goes out.
\<close>

definition undo_step :: "step_status \<Rightarrow> wc_step" where
  "undo_step status = (orch_step_of status)\<lparr>st_action := Some ((the (st_action (orch_step_of status)))
     \<lparr>as_compensation_action_id := Some ''undo'', as_failure_policy := ''compensate''\<rparr>)\<rparr>"

definition undo_case :: "step_status \<Rightarrow> work_case" where
  "undo_case status = (orch_case status)\<lparr>wc_plans := [\<lparr>pl_revision = 1, pl_steps = [undo_step status]\<rparr>]\<rparr>"

definition failed_receipt :: action_receipt where
  "failed_receipt = orch_receipt\<lparr>rc_result_code := ''failed''\<rparr>"

text \<open>The reversal the governor prepares: an action of high risk.\<close>

definition undo_request :: action_request where
  "undo_request = orch_request\<lparr>ar_action_id := ''undo'', ar_risk := NexusRiskHigh\<rparr>"

definition undo_calls :: "(nat \<times> orch_resp) list" where
  "undo_calls = map (Pair 0)
     [RsDone, RsCase (Inr (undo_case StepRunning)), RsDone,
      RsPrepare (Some (orch_request, sample_parties, True)), RsDone, RsCase (Inr (undo_case StepRunning)),
      RsDispatch (Inr failed_receipt), RsDone,
      RsDone, RsCase (Inr (undo_case StepRunning)), RsDone,
      RsRequest (Some undo_request), RsDone, RsDispatch (Inr failed_receipt)]"

text \<open>Every group of approvers the governor named in a trace.\<close>

fun approvers :: "(nat \<times> orch_call) list \<Rightarrow> approval_parties list" where
  "approvers [] = []"
| "approvers ((i, OpPrepare wc n st, RsPrepare (Some (req, parties, se))) # tr) = parties # approvers tr"
| "approvers (e # tr) = approvers tr"

lemma undo_data [simp]:
  "wc_id (undo_case st) = ''c''" "wc_status (undo_case st) = StatusExecuting" "wc_revision (undo_case st) = 4"
  "topPlan (undo_case st) = (1, [undo_step st])" "st_id (undo_step st) = ''s''" "st_status (undo_step st) = st"
  "st_action (undo_step st) \<noteq> None" "rc_result_code failed_receipt = ''failed''"
  by (simp_all add: undo_case_def undo_step_def topPlan_def failed_receipt_def)

lemma failed_verified [simp]:
  "VerifyActionReceipt (cf_trust sample_orch) orch_request failed_receipt (cf_key_id sample_orch) (cf_key sample_orch) = None"
  using orch_verified
  by (simp add: VerifyActionReceipt_None_iff failed_receipt_def verifySignature_None_iff sample_orch_def)

lemma upward_review_refused:
  "Evaluate \<lparr>up_current_org_version = 7\<rparr> \<lparr>ap_submitter = sample_submitter, ap_reviewers = [sample_reviewer]\<rparr> RiskHigh \<noteq> None"
  by (simp add: Evaluate_def sample_submitter_def sample_reviewer_def isAncestorOf_def)

text \<open>
  C40: A reversal is dispatched without an upward review.  In a run of one \<open>Advance\<close> the governor names one group of
  approvers, for a low-risk action that the gateway reports as failed; its reversal, of high risk, is dispatched although the
  upward-review policy refuses these approvers at that risk and no others were named.
\<close>
theorem reversal_dispatched_without_review:
  "\<exists>s earlier ts r. orch_run (advancing sample_orch) (orch_store, [], [])
        (s, (0, OpDispatch ''c'' ''s'' Reversal undo_request, r) # earlier, ts)
     \<and> approvers earlier = [sample_parties]
     \<and> Evaluate (cf_policy sample_orch) sample_parties (govRisk (ar_risk undo_request)) \<noteq> None"
proof -
  obtain a where a: "st_action (undo_step StepRunning) = Some a" "has_prefix (as_failure_policy a) ''compensate''"
      "as_compensation_action_id a = Some ''undo''"
    by (simp add: undo_step_def orch_step_of_def)
  have "\<exists>s earlier ts r. play sample_ledger_env undo_calls (orch_store, [], [forget (Advance sample_orch ''c'')])
      = Some (s, (0, OpDispatch ''c'' ''s'' Reversal undo_request, r) # earlier, ts) \<and> approvers earlier = [sample_parties]"
    by (simp cong: lazy_Do lazy_obind add: undo_calls_def orch_store_def Advance_def forget_def orch_eval
      max_iters_def advance_loop_unfold dispatchStep_def sample_review applyReceipt_def applyFailurePolicy_def
      compensateStep_def prepare_reversal_def a)
  then obtain s earlier ts r where p: "play sample_ledger_env undo_calls (orch_store, [], [forget (Advance sample_orch ''c'')])
      = Some (s, (0, OpDispatch ''c'' ''s'' Reversal undo_request, r) # earlier, ts)" "approvers earlier = [sample_parties]"
    by (elim exE conjE)
  have "orch_run (advancing sample_orch) (orch_store, [], []) (orch_store, [], [forget (Advance sample_orch ''c'')])"
    by (rule run_threads) (auto simp: advancing_def)
  moreover have "Evaluate (cf_policy sample_orch) sample_parties (govRisk (ar_risk undo_request)) \<noteq> None"
    using upward_review_refused by (simp add: sample_parties_def undo_request_def govRisk_def)
  ultimately show ?thesis using p play_run by blast
qed

end
