(* ===== verification/Spec2Isabelle.thy ===== *)
theory Spec2Isabelle
  imports OrchLive OrchReversal UpwardReview OutClosure
begin

text \<open>
  AgentAtlas: a verification development of the decision core of the work-case platform, translated from
  the Go sources under \<^verbatim>\<open>src/\<close>.  Paths starting with \<^verbatim>\<open>internal/\<close> are below \<^verbatim>\<open>src/services/agentatlas/\<close>, those
  starting with \<^verbatim>\<open>sdk/\<close> below \<^verbatim>\<open>src/\<close>.

  THE PROGRAM.  AgentAtlas runs work cases.  A case carries plans of steps; a step may carry an action with
  postconditions, which is executed through a remote action gateway (Nexus) and whose result is observed and
  judged before the case may close.  The parts that decide something, and how they call each other:
    \<^item> \<^verbatim>\<open>internal/workcase/service.go\<close> changes a case by commands with an idempotency key and an expected
      revision, over the store port of \<^verbatim>\<open>store.go\<close> (in memory there, on PostgreSQL in \<^verbatim>\<open>postgres.go\<close>);
    \<^item> \<^verbatim>\<open>internal/workcase/orchestrator.go\<close> drives the runs of a plan's steps through the state machine of
      \<^verbatim>\<open>action_state.go\<close>: it claims a run in a ledger, asks the governor and the upward-review policy
      (\<^verbatim>\<open>internal/governance/upward_review.go\<close>), dispatches through the gateway, verifies the receipts
      (\<^verbatim>\<open>sdk/go/nexus/action.go\<close>), reconciles, retries, compensates, replans, has the outcome evaluated and
      the case closed;
    \<^item> \<^verbatim>\<open>internal/outcome/evaluator.go\<close> decides from receipts and observations whether the required
      postconditions hold (\<^verbatim>\<open>policy.go\<close>, \<^verbatim>\<open>confidence.go\<close>), stores the outcome (\<^verbatim>\<open>sdk/go/outcome/model.go\<close>,
      \<^verbatim>\<open>internal/outcome/store.go\<close>) with its lineage, and its closure service completes the case.

  THE THEORIES.
    \<^item> \<open>Prelude\<close>: results as sums, first errors, lists, maps, \<^verbatim>\<open>sort.Slice\<close>, times.  \<open>GoText\<close>: strings as byte
      lists, their runes, and what JSON keeps of them (\<open>clean\<close>).  \<open>GoCrypto\<close>: SHA-256, hex, base64.
      \<open>GoFloat\<close>: float64.  \<open>GoJson\<close>: \<^verbatim>\<open>json.Marshal\<close>.  \<open>LeakGuard\<close>: the regular expression of the content
      guard and its search.
    \<^item> Work cases: \<open>WcModel\<close> is \<^verbatim>\<open>sdk/go/workcase/model.go\<close>; \<open>WcStore\<close> has the store contract and
      \<^verbatim>\<open>MemoryStore\<close>; \<open>WcService\<close> one definition per command and one per mutation; \<open>WcPostgres\<close> has
      \<^verbatim>\<open>PostgresStore.Get\<close> and \<^verbatim>\<open>Apply\<close> over the tables of the migration; \<open>WcHistory\<close> runs requests.
    \<^item> Actions: \<open>NexusAction\<close> (requests, one-use grants, receipts), \<open>UpwardReview\<close>, \<open>ActionState\<close>, \<open>RunLedger\<close>
      (ledgers with their decision logs and the run store), \<open>Orchestrator\<close> (every method as a program over its
      calls), \<open>OrchCalls\<close> (what each call depends on), \<open>OrchRun\<close> (goroutines over one run store), \<open>OrchProps\<close>,
      \<open>OrchLimits\<close>, \<open>OrchLive\<close>, \<open>OrchReversal\<close>.
    \<^item> Outcomes: \<open>OutModel\<close> (the records, their validation, ids and content guard), \<open>OutPolicy\<close>, \<open>OutStore\<close>,
      \<open>OutEval\<close> (\<^verbatim>\<open>Decide\<close>, \<^verbatim>\<open>ContentHash\<close>, \<^verbatim>\<open>Evaluate\<close>), \<open>OutClosure\<close> (the closure service, and the system of
      work-case service, evaluator and closure).

  HOW CODE BECOMES DEFINITIONS.  A struct is a record with the fields in the source's order, an enum a
  datatype whose last constructor holds any other text, a pointer an option, a string its list of bytes.
  Revisions are 64-bit words.  A function that returns an error returns a sum, or the option of an error; each
  early return is a branch, in the code's order.  A mutation is a state passed through.  A method of the
  orchestrator is a tree of calls, each with a continuation on its answer: between two calls other
  goroutines run, and a goroutine may stop for ever at any of them.
\<close>

text \<open>
  INTERFACES.  Four locales state what one part relies on of another; each is interpreted on the models.
    \<^item> \<open>case_store_contract\<close> (\<open>WcStore\<close>): a store acts as \<open>spec_get\<close>, \<open>spec_apply\<close> or fails as a store.  The memory
      and the PostgreSQL store keep it; the latter with JSON columns that replace invalid UTF-8 (\<open>clean\<close>), and
      with commits that may lose their acknowledgment.  The lemmas on histories are proved from the contract.
    \<^item> \<open>case_closer_contract\<close> (\<open>OutClosure\<close>): \<open>CompleteCase\<close> over any such store.
    \<^item> The outcome store's contract (\<open>OutStore\<close>) and, joining it with the closer's, \<open>closure_services\<close>.

  WHAT THE LEMMAS SHOW.
    \<^item> Work cases: the history of a case is a run of its life cycle that agrees with its event log; retries
      replay; no update is lost; scopes are isolated; only \<open>CompleteCase\<close> completes.  On PostgreSQL the service
      refines the abstract one, also when other transactions commit between the statements of \<open>Apply\<close>.
    \<^item> Actions: exactly which grants, receipts and reviews are accepted.
    \<^item> Orchestrator, whatever the other parties answer: what precedes a dispatch and a completion, the
      decision log against the dispatches, the dispatches of a run when goroutines do not overlap, the gateway
      calls of one \<open>Advance\<close>, and that an unknown result ends with a human.
    \<^item> Outcomes: what an accepted record guarantees, that it holds no connector, query or credential shape,
      when a decision is satisfied, that it depends on its facts alone where handles name one thing, that the
      store is append-only, and that a completed case has a satisfied decision.
  Where the code does not do what it says, a property shows it on concrete inputs: ids that collide
  across tenants, keys bounded in bytes and stored in characters, blockers with equal handles, a revision
  left without its lineage, a reused key reported as a completion, overlapping retries, a \<open>Prepare\<close> that
  forgets a dispatch, and a reversal that no review precedes.

  BOUNDS AND FUEL.  \<open>advance_loop\<close> recurses on a number of rounds, started at \<open>max_iters\<close>: the bound
  \<^verbatim>\<open>maxIters\<close> of \<^verbatim>\<open>Advance\<close> itself, so no fuel is added to the code; it is computed on unbounded integers,
  which agrees with Go's \<^verbatim>\<open>int\<close> while the configured attempts stay below \<open>2 ^ 60\<close>.  Attempts and reconcile
  counts are integers for the same reason.  A match of the guard's pattern is structural in the text, since
  every repetition is over one character class; the gap of \<^verbatim>\<open>{0,300}\<close> runes between \<^verbatim>\<open>select\<close> and \<^verbatim>\<open>from\<close> is
  kept (\<open>leaks_secret\<close> counts the bytes of the escaped text, of which there are at least as many).  A revision
  fits its \<^verbatim>\<open>bigint\<close> column below \<open>2 ^ 63\<close>; larger ones fail there, as in the code.

  NOT MODELLED.  Arguments of the definitions stand for what is not in the source: ed25519, the digits
  of floats and times in JSON, the order \<^verbatim>\<open>sort.Slice\<close> gives equal keys, ids, clocks, which statements and
  commits fail.  The gateway, the governor, the planner and the observer answer anything.  PostgreSQL is
  its tables with the constraints of the migration; a row lock is not relied on.  Of the projection row that
  \<^verbatim>\<open>AppendOutboxTx\<close> writes in the transaction of \<open>Apply\<close>, the tenant, the sequence and the case are kept; its
  validation is one of the failures of that statement.  The free text of reasons and audit entries is left out, as
  are the constructors' nil checks.  The other services (assessment, browser sessions, governed changes, the
  outcome graph, ingestion, HTTP handlers, external clients, generated code) are outside this development;
  the manifest lists them with the reason.
\<close>

end
